(* ===== verification/Prelude.thy ===== *)
theory Prelude
  imports Main "HOL-Library.List_Lexorder" "HOL-Library.Char_ord" "HOL-Library.Product_Lexorder"
begin

text \<open>
  What the components share: the names of the program's basic types, the errors a service can
  throw, service calls as functions from a state to a result and the next state, and lemmas on
  the row lists that stand for database tables.

  A string of the program is an Isabelle \<open>string\<close>: its characters are the code points U+0000
  to U+00FF.  A \<open>Date\<close> is its number of milliseconds since the epoch, and a
  \<open>timestamptz\<close> of the database its number of microseconds, which is its precision there.
\<close>

section \<open>Types and errors\<close>

type_synonym uuid = string

type_synonym js_date = int

type_synonym pg_time = int

text \<open>The errors of the database that a query can fail with (a \<open>QueryFailedError\<close>).\<close>

datatype db_error =
    UniqueViolation string
  | ForeignKeyViolation string
  | CheckViolation string
  | NotNullViolation string
  | InvalidText string
  | ValueTooLong string
  | StatementTimeout

text \<open>
  The exceptions of the services: those of \<open>@nestjs/common\<close> with their message, the errors of
  the database, and an error thrown by the language itself (a \<open>TypeError\<close> or an \<open>Error\<close>).
\<close>

datatype http_error =
    BadRequest string
  | Unauthorized string
  | Forbidden string
  | NotFound string
  | Conflict string
  | Gone string
  | QueryFailed db_error
  | JsError string

type_synonym 'a res = "http_error + 'a"

text \<open>A service call: from the state to the result and the state it leaves behind.\<close>

type_synonym ('s, 'a) svc = "'s \<Rightarrow> 'a res \<times> 's"

section \<open>JavaScript values\<close>

text \<open>
  An optional field of a request body: absent, \<open>null\<close> or a value.  The validators accept
  \<open>null\<close> wherever they accept an absent field (\<open>@IsOptional\<close>).
\<close>

datatype 'a patch = Undef | Null | Val 'a

fun patch_opt :: "'a patch \<Rightarrow> 'a option" where
  "patch_opt (Val v) = Some v"
| "patch_opt _ = None"

text \<open>
  \<open>if (dto.f !== undefined) entity.f = dto.f\<close>: on a column that may be null, and on one that may
  not, where \<open>null\<close> leaves the entity with a value the database refuses (\<open>null_check\<close>).
\<close>

fun assign_opt :: "'a patch \<Rightarrow> 'a option \<Rightarrow> 'a option" where
  "assign_opt Undef old = old"
| "assign_opt Null old = None"
| "assign_opt (Val v) old = Some v"

fun assign :: "'a patch \<Rightarrow> 'a \<Rightarrow> 'a" where
  "assign (Val v) old = v"
| "assign _ old = old"

definition null_check :: "'a patch \<Rightarrow> string \<Rightarrow> bool \<times> db_error" where
  "null_check p column = (p \<noteq> Null, NotNullViolation column)"

text \<open>\<open>if (x)\<close> on a string that may be \<open>null\<close> or \<open>undefined\<close>: the empty string is false.\<close>

fun truthy :: "string option \<Rightarrow> bool" where
  "truthy (Some s) = (s \<noteq> [])"
| "truthy None = False"

section \<open>Sequencing service calls\<close>

definition ret :: "'a \<Rightarrow> ('s, 'a) svc" where
  "ret a = (\<lambda>s. (Inr a, s))"

definition throw :: "http_error \<Rightarrow> ('s, 'a) svc" where
  "throw e = (\<lambda>s. (Inl e, s))"

definition bindM :: "('s, 'a) svc \<Rightarrow> ('a \<Rightarrow> ('s, 'b) svc) \<Rightarrow> ('s, 'b) svc" where
  "bindM m f = (\<lambda>s. case m s of (Inl e, s') \<Rightarrow> (Inl e, s') | (Inr a, s') \<Rightarrow> f a s')"

text \<open>A read of the state that may throw, and a write that the database may refuse.\<close>

definition reads :: "('s \<Rightarrow> 'a res) \<Rightarrow> ('s, 'a) svc" where
  "reads f = (\<lambda>s. (f s, s))"

definition writes :: "('s \<Rightarrow> db_error + 's) \<Rightarrow> ('s, unit) svc" where
  "writes f = (\<lambda>s. case f s of Inl e \<Rightarrow> (Inl (QueryFailed e), s) | Inr s' \<Rightarrow> (Inr (), s'))"

definition modifies :: "('s \<Rightarrow> 's) \<Rightarrow> ('s, unit) svc" where
  "modifies f = (\<lambda>s. (Inr (), f s))"

definition guardM :: "bool \<Rightarrow> http_error \<Rightarrow> ('s, unit) svc" where
  "guardM b e = (if b then ret () else throw e)"

text \<open>A transaction: when the body throws, its writes are undone.\<close>

definition transaction :: "('s, 'a) svc \<Rightarrow> ('s, 'a) svc" where
  "transaction m = (\<lambda>s. case m s of (Inl e, s') \<Rightarrow> (Inl e, s) | (Inr a, s') \<Rightarrow> (Inr a, s'))"

named_theorems svc_defs \<open>definitions of the service combinators\<close>

lemmas svc_combinators [svc_defs] =
  ret_def throw_def bindM_def reads_def writes_def modifies_def guardM_def

lemma bindM_ret [simp]: "bindM (ret a) f = f a"
  by (simp add: svc_defs)

lemma bindM_throw [simp]: "bindM (throw e) f = throw e"
  by (simp add: svc_defs)

lemma bindM_assoc: "bindM (bindM m f) g = bindM m (\<lambda>a. bindM (f a) g)"
  by (rule ext) (simp add: bindM_def split: prod.splits sum.splits)

text \<open>The two ways a sequence of two calls ends.\<close>

lemma bindM_Inr_iff:
  "bindM m f s = (Inr b, s') \<longleftrightarrow> (\<exists>a t. m s = (Inr a, t) \<and> f a t = (Inr b, s'))"
  by (auto simp: bindM_def split: prod.splits sum.splits)

lemma bindM_Inl_iff:
  "bindM m f s = (Inl e, s') \<longleftrightarrow>
     m s = (Inl e, s') \<or> (\<exists>a t. m s = (Inr a, t) \<and> f a t = (Inl e, s'))"
  by (auto simp: bindM_def split: prod.splits sum.splits)

lemma reads_iff [simp]: "reads f s = (r, s') \<longleftrightarrow> r = f s \<and> s' = s"
  by (auto simp: reads_def)

lemma writes_Inr_iff [simp]: "writes f s = (Inr u, s') \<longleftrightarrow> f s = Inr s'"
  by (auto simp: writes_def split: sum.splits)

lemma writes_Inl_iff [simp]: "writes f s = (Inl e, s') \<longleftrightarrow> (\<exists>d. f s = Inl d \<and> e = QueryFailed d) \<and> s' = s"
  by (auto simp: writes_def split: sum.splits)

lemma modifies_iff [simp]: "modifies f s = (r, s') \<longleftrightarrow> r = Inr () \<and> s' = f s"
  by (auto simp: modifies_def)

lemma guardM_Inr_iff [simp]: "guardM b e s = (Inr u, s') \<longleftrightarrow> b \<and> s' = s"
  by (auto simp: guardM_def ret_def throw_def)

lemma guardM_Inl_iff [simp]: "guardM b e s = (Inl e', s') \<longleftrightarrow> \<not> b \<and> e' = e \<and> s' = s"
  by (auto simp: guardM_def ret_def throw_def)

lemma ret_iff [simp]: "ret a s = (r, s') \<longleftrightarrow> r = Inr a \<and> s' = s"
  by (auto simp: ret_def)

lemma throw_iff [simp]: "throw e s = (r, s') \<longleftrightarrow> r = Inl e \<and> s' = s"
  by (auto simp: throw_def)

text \<open>A call keeps a property of the state when the property survives each of its ends.\<close>

definition keeps :: "('s \<Rightarrow> bool) \<Rightarrow> ('s, 'a) svc \<Rightarrow> bool" where
  "keeps I m \<longleftrightarrow> (\<forall>s r s'. I s \<longrightarrow> m s = (r, s') \<longrightarrow> I s')"

lemma keepsI: "(\<And>s r s'. I s \<Longrightarrow> m s = (r, s') \<Longrightarrow> I s') \<Longrightarrow> keeps I m"
  by (simp add: keeps_def)

lemma keepsD: "keeps I m \<Longrightarrow> I s \<Longrightarrow> m s = (r, s') \<Longrightarrow> I s'"
  by (simp add: keeps_def)

named_theorems keeps_intros \<open>rules for \<open>keeps\<close>\<close>

lemma keeps_bindM [keeps_intros]:
  "keeps I m \<Longrightarrow> (\<And>a. keeps I (f a)) \<Longrightarrow> keeps I (bindM m f)"
proof (rule keepsI)
  fix s r s'
  assume m: "keeps I m" and f: "\<And>a. keeps I (f a)" and I: "I s"
    and run: "bindM m f s = (r, s')"
  obtain x t where x: "m s = (x, t)" by (cases "m s")
  with m I have t: "I t" by (rule keepsD)
  show "I s'"
  proof (cases x)
    case (Inl e)
    with x run t show ?thesis by (simp add: bindM_def)
  next
    case (Inr a)
    with x run have "f a t = (r, s')" by (simp add: bindM_def)
    with f t show ?thesis by (rule keepsD)
  qed
qed

lemma keeps_ret [keeps_intros]: "keeps I (ret a)"
  and keeps_throw [keeps_intros]: "keeps I (throw e)"
  and keeps_reads [keeps_intros]: "keeps I (reads f)"
  and keeps_guardM [keeps_intros]: "keeps I (guardM b e)"
  by (auto simp: keeps_def svc_defs split: if_splits)

lemma keeps_if [keeps_intros]: "keeps I m \<Longrightarrow> keeps I n \<Longrightarrow> keeps I (if b then m else n)"
  by simp

lemma keeps_modifies: "(\<And>s. I s \<Longrightarrow> I (f s)) \<Longrightarrow> keeps I (modifies f)"
  by (simp add: keeps_def modifies_def)

lemma keeps_writes: "(\<And>s s'. I s \<Longrightarrow> f s = Inr s' \<Longrightarrow> I s') \<Longrightarrow> keeps I (writes f)"
  by (auto simp: keeps_def writes_def split: sum.splits)

lemma transaction_iff:
  "transaction m s = (r, s') \<longleftrightarrow>
     (case r of Inl e \<Rightarrow> s' = s \<and> (\<exists>t. m s = (Inl e, t)) | Inr a \<Rightarrow> m s = (Inr a, s'))"
  by (auto simp: transaction_def split: prod.splits sum.splits)

text \<open>
  What a call does from the states in P: it returns as Q says, or throws as E says.  Sequencing
  passes on what the first call established.
\<close>

definition ensures ::
    "('s \<Rightarrow> bool) \<Rightarrow> ('s, 'a) svc \<Rightarrow> ('a \<Rightarrow> 's \<Rightarrow> bool) \<Rightarrow> (http_error \<Rightarrow> 's \<Rightarrow> bool) \<Rightarrow> bool" where
  "ensures P m Q E \<longleftrightarrow>
     (\<forall>s. P s \<longrightarrow> (case m s of (Inl e, s') \<Rightarrow> E e s' | (Inr a, s') \<Rightarrow> Q a s'))"

lemma ensuresI:
  assumes "\<And>s a s'. P s \<Longrightarrow> m s = (Inr a, s') \<Longrightarrow> Q a s'"
    and "\<And>s e s'. P s \<Longrightarrow> m s = (Inl e, s') \<Longrightarrow> E e s'"
  shows "ensures P m Q E"
  using assms by (auto simp: ensures_def split: prod.split sum.split)

lemma ensuresD1: "ensures P m Q E \<Longrightarrow> P s \<Longrightarrow> m s = (Inr a, s') \<Longrightarrow> Q a s'"
  and ensuresD2: "ensures P m Q E \<Longrightarrow> P s \<Longrightarrow> m s = (Inl e, s') \<Longrightarrow> E e s'"
  unfolding ensures_def by (auto dest!: spec [of _ s])

lemma ensures_bindM:
  assumes "ensures P m R E" and "\<And>a. ensures (R a) (f a) Q E"
  shows "ensures P (bindM m f) Q E"
  using assms
  by (intro ensuresI) (auto simp: bindM_Inr_iff bindM_Inl_iff dest: ensuresD1 ensuresD2)

lemma ensures_weaken:
  "ensures P m Q E \<Longrightarrow> (\<And>s. P' s \<Longrightarrow> P s) \<Longrightarrow> (\<And>a s. Q a s \<Longrightarrow> Q' a s) \<Longrightarrow> (\<And>e s. E e s \<Longrightarrow> E' e s) \<Longrightarrow>
     ensures P' m Q' E'"
  by (rule ensuresI) (blast dest: ensuresD1 ensuresD2)+

lemma keeps_ensures: "keeps I m \<longleftrightarrow> ensures I m (\<lambda>_. I) (\<lambda>_. I)"
  by (auto simp: keeps_def ensures_def split: prod.splits sum.splits)

text \<open>The checks of a write, in order: the first that fails is the error.\<close>

fun enforce :: "(bool \<times> db_error) list \<Rightarrow> 'a \<Rightarrow> db_error + 'a" where
  "enforce [] a = Inr a"
| "enforce ((ok, e) # cs) a = (if ok then enforce cs a else Inl e)"

lemma enforce_Inr_iff [simp]: "enforce cs a = Inr b \<longleftrightarrow> a = b \<and> (\<forall>c \<in> set cs. fst c)"
  by (induction cs a rule: enforce.induct) auto

lemma enforce_Inl_mem: "enforce cs a = Inl e \<Longrightarrow> (False, e) \<in> set cs"
  by (induction cs a rule: enforce.induct) (auto split: if_splits)

declare enforce.simps [simp del]

section \<open>Rows of a table\<close>

text \<open>
  A table is the list of its rows in insertion order.  \<open>findOne\<close> is \<open>List.find\<close>, an insert
  appends, an update by primary key rewrites the row in place, a delete filters.
\<close>

definition update_row :: "('r \<Rightarrow> 'k) \<Rightarrow> 'r \<Rightarrow> 'r list \<Rightarrow> 'r list" where
  "update_row key r t = map (\<lambda>x. if key x = key r then r else x) t"

definition update_where :: "('r \<Rightarrow> bool) \<Rightarrow> ('r \<Rightarrow> 'r) \<Rightarrow> 'r list \<Rightarrow> 'r list" where
  "update_where p f t = map (\<lambda>x. if p x then f x else x) t"

definition exists_row :: "('r \<Rightarrow> bool) \<Rightarrow> 'r list \<Rightarrow> bool" where
  "exists_row p t \<longleftrightarrow> (\<exists>x \<in> set t. p x)"

lemma find_SomeD: "List.find p t = Some r \<Longrightarrow> r \<in> set t \<and> p r"
  by (induction t) (auto split: if_splits)

lemma find_None_iff2: "List.find p t = None \<longleftrightarrow> (\<forall>x \<in> set t. \<not> p x)"
  by (induction t) auto

lemma exists_row_find: "exists_row p t \<longleftrightarrow> List.find p t \<noteq> None"
  by (induction t) (auto simp: exists_row_def)

lemma find_key:
  "distinct (map key t) \<Longrightarrow> r \<in> set t \<Longrightarrow> List.find (\<lambda>x. key x = key r) t = Some r"
  by (induction t) (auto simp: rev_image_eqI)

lemma distinct_key_eq:
  "distinct (map key t) \<Longrightarrow> x \<in> set t \<Longrightarrow> y \<in> set t \<Longrightarrow> key x = key y \<Longrightarrow> x = y"
  by (induction t) (auto simp: rev_image_eqI)

lemma map_update_row [simp]:
  "(\<And>x. x \<in> set t \<Longrightarrow> key x = key r \<Longrightarrow> g x = g r) \<Longrightarrow> map g (update_row key r t) = map g t"
  by (auto simp: update_row_def)

lemma map_key_update_row [simp]: "map key (update_row key r t) = map key t"
  by (rule map_update_row) simp

lemma set_update_row:
  "set (update_row key r t) =
     (if key r \<in> key ` set t then insert r {x \<in> set t. key x \<noteq> key r} else set t)"
  by (auto simp: update_row_def image_iff)

lemma in_update_rowD: "x \<in> set (update_row key r t) \<Longrightarrow> x = r \<or> x \<in> set t \<and> key x \<noteq> key r"
  by (auto simp: update_row_def split: if_splits)

lemma update_row_id:
  assumes "\<And>x. x \<in> set t \<Longrightarrow> key x = key r \<Longrightarrow> x = r"
  shows "update_row key r t = t"
  unfolding update_row_def
proof (rule map_idI)
  fix x assume "x \<in> set t"
  with assms show "(if key x = key r then r else x) = x" by fastforce
qed

lemma length_update_row [simp]: "length (update_row key r t) = length t"
  by (simp add: update_row_def)

lemma map_update_where [simp]:
  "(\<And>x. g (f x) = g x) \<Longrightarrow> map g (update_where p f t) = map g t"
  by (auto simp: update_where_def)

lemma set_update_where:
  "set (update_where p f t) = {x \<in> set t. \<not> p x} \<union> f ` {x \<in> set t. p x}"
  by (auto simp: update_where_def)

lemma distinct_map_filterI: "distinct (map f t) \<Longrightarrow> distinct (map f (filter p t))"
  by (induction t) auto

lemma distinct_snoc:
  "distinct (map f (t @ [r])) \<longleftrightarrow> distinct (map f t) \<and> \<not> exists_row (\<lambda>x. f x = f r) t"
  by (auto simp: exists_row_def) (metis image_eqI)

lemma sorted_same_first:
  "sorted (map (\<lambda>x. (g x, f x)) xs) \<Longrightarrow> (\<And>x. x \<in> set xs \<Longrightarrow> g x = c) \<Longrightarrow> sorted (map f xs)"
  by (induction xs) auto

lemma last_take: "0 < n \<Longrightarrow> n \<le> length xs \<Longrightarrow> last (take n xs) = xs ! (n - 1)"
  by (subst last_conv_nth) auto

end
