(* ===== verification/JsText.thy ===== *)
theory JsText
  imports Prelude
begin

text \<open>
  The string helpers of \<open>src/common/utils\<close>: \<open>slugify\<close> (workspace slugs) and
  \<open>parseDurationMs\<close> (token lifetimes), with the operations of the JavaScript library they use
  on strings over the code points U+0000 to U+00FF.
\<close>

section \<open>Library operations on strings\<close>

definition code_of :: "char \<Rightarrow> nat" where
  "code_of c = of_char c"

definition is_upper_char :: "char \<Rightarrow> bool" where
  "is_upper_char c \<longleftrightarrow>
     65 \<le> code_of c \<and> code_of c \<le> 90 \<or> 192 \<le> code_of c \<and> code_of c \<le> 222 \<and> code_of c \<noteq> 215"

definition lower_char :: "char \<Rightarrow> char" where
  "lower_char c = (if is_upper_char c then char_of (code_of c + 32) else c)"

definition toLowerCase :: "string \<Rightarrow> string" where
  "toLowerCase s = map lower_char s"

definition is_space :: "char \<Rightarrow> bool" where
  "is_space c \<longleftrightarrow> code_of c \<in> {9, 10, 11, 12, 13, 32, 160}"

definition drop_end :: "(char \<Rightarrow> bool) \<Rightarrow> string \<Rightarrow> string" where
  "drop_end p s = rev (dropWhile p (rev s))"

definition trim :: "string \<Rightarrow> string" where
  "trim s = drop_end is_space (dropWhile is_space s)"

definition is_digit :: "char \<Rightarrow> bool" where
  "is_digit c \<longleftrightarrow> 48 \<le> code_of c \<and> code_of c \<le> 57"

section \<open>slugify\<close>

definition hyphen :: char where
  "hyphen = CHR ''-''"

definition slug_char :: "char \<Rightarrow> bool" where
  "slug_char c \<longleftrightarrow> 97 \<le> code_of c \<and> code_of c \<le> 122 \<or> is_digit c"

text \<open>\<open>.replace(/[^a-z0-9]+/g, '-')\<close>: each longest run of other characters becomes one hyphen.\<close>

function collapse :: "string \<Rightarrow> string" where
  "collapse [] = []"
| "collapse (c # cs) =
     (if slug_char c then c # collapse cs
      else hyphen # collapse (dropWhile (\<lambda>x. \<not> slug_char x) cs))"
  by pat_completeness auto
termination
  by (relation "measure length") (auto simp: le_imp_less_Suc length_dropWhile_le)

text \<open>\<open>.replace(/^-+|-+$/g, '')\<close> and \<open>.replace(/-+$/g, '')\<close>.\<close>

definition strip_start :: "string \<Rightarrow> string" where
  "strip_start s = dropWhile (\<lambda>c. c = hyphen) s"

definition strip_end :: "string \<Rightarrow> string" where
  "strip_end s = drop_end (\<lambda>c. c = hyphen) s"

definition slugify :: "string \<Rightarrow> string" where
  "slugify input =
     (let slug = strip_end (take 60 (strip_end (strip_start (collapse (trim (toLowerCase input))))))
      in if slug = [] then ''workspace'' else slug)"

text \<open>The shape a slug is meant to have.\<close>

definition not_both_hyphens :: "char \<Rightarrow> char \<Rightarrow> bool" where
  "not_both_hyphens a b \<longleftrightarrow> \<not> (a = hyphen \<and> b = hyphen)"

definition slug_shape :: "string \<Rightarrow> bool" where
  "slug_shape s \<longleftrightarrow>
     s \<noteq> [] \<and> length s \<le> 60 \<and> list_all (\<lambda>c. slug_char c \<or> c = hyphen) s \<and>
     hd s \<noteq> hyphen \<and> last s \<noteq> hyphen \<and>
     successively not_both_hyphens s"


lemma code_hyphen [simp]: "code_of hyphen = 45"
  by (simp add: code_of_def hyphen_def)

lemma slug_char_hyphen [simp]: "\<not> slug_char hyphen"
  by (simp add: slug_char_def is_digit_def)

lemma slug_char_not_hyphen [simp]: "slug_char c \<Longrightarrow> c \<noteq> hyphen"
  by auto

lemma drop_end_prefix: "\<exists>ys. s = drop_end p s @ ys"
proof -
  have "rev s = takeWhile p (rev s) @ dropWhile p (rev s)" by simp
  then have "rev (rev s) = rev (takeWhile p (rev s) @ dropWhile p (rev s))" by simp
  then have "s = drop_end p s @ rev (takeWhile p (rev s))"
    by (simp only: drop_end_def rev_append rev_rev_ident)
  then show ?thesis by blast
qed

lemma last_drop_end: "drop_end p s \<noteq> [] \<Longrightarrow> \<not> p (last (drop_end p s))"
  by (simp add: drop_end_def last_rev hd_dropWhile)

lemma drop_end_id: "s = [] \<or> \<not> p (last s) \<Longrightarrow> drop_end p s = s"
  by (cases s rule: rev_cases) (auto simp: drop_end_def)

lemma hd_collapse:
  "collapse s \<noteq> [] \<Longrightarrow> hd (collapse s) = (if slug_char (hd s) then hd s else hyphen)"
  by (cases s) auto

lemma set_collapse: "list_all (\<lambda>c. slug_char c \<or> c = hyphen) (collapse s)"
  by (induction s rule: collapse.induct) auto

lemma dropWhile_hd: "dropWhile p s \<noteq> [] \<Longrightarrow> \<not> p (hd (dropWhile p s))"
  by (rule hd_dropWhile)

lemma collapse_eq_Nil [simp]: "collapse s = [] \<longleftrightarrow> s = []"
  by (cases s) auto

lemma no_double_collapse: "successively not_both_hyphens (collapse s)"
proof (induction s rule: collapse.induct)
  case 1
  then show ?case by simp
next
  case (2 c cs)
  show ?case
  proof (cases "slug_char c")
    case True
    with 2 show ?thesis by (auto simp: successively_Cons not_both_hyphens_def)
  next
    case False
    let ?t = "dropWhile (\<lambda>x. \<not> slug_char x) cs"
    have "?t = [] \<or> hd (collapse ?t) \<noteq> hyphen"
    proof (cases "?t = []")
      case False
      then have "slug_char (hd ?t)" using dropWhile_hd [of "\<lambda>x. \<not> slug_char x" cs] by blast
      with False hd_collapse [of ?t] have "hd (collapse ?t) = hd ?t" by (simp only: collapse_eq_Nil) simp
      with \<open>slug_char (hd ?t)\<close> show ?thesis by (metis slug_char_not_hyphen)
    qed simp
    with 2 False show ?thesis
      by (cases "?t = []") (simp_all add: successively_Cons not_both_hyphens_def)
  qed
qed

text \<open>A part of a string with these two properties has them too.\<close>

definition slug_like :: "string \<Rightarrow> bool" where
  "slug_like s \<longleftrightarrow> list_all (\<lambda>c. slug_char c \<or> c = hyphen) s \<and> successively not_both_hyphens s"

lemma slug_like_prefix: "slug_like (xs @ ys) \<Longrightarrow> slug_like xs"
  and slug_like_suffix: "slug_like (xs @ ys) \<Longrightarrow> slug_like ys"
  by (auto simp: slug_like_def successively_append_iff)

lemma slug_like_collapse: "slug_like (collapse s)"
  by (simp add: slug_like_def set_collapse no_double_collapse)

lemma slug_like_strip_end: "slug_like s \<Longrightarrow> slug_like (strip_end s)"
  using drop_end_prefix [of s "\<lambda>c. c = hyphen"] slug_like_prefix
  unfolding strip_end_def by metis

lemma slug_like_strip_start: "slug_like s \<Longrightarrow> slug_like (strip_start s)"
  using takeWhile_dropWhile_id [of "\<lambda>c. c = hyphen" s] slug_like_suffix
  unfolding strip_start_def by metis

lemma slug_like_take: "slug_like s \<Longrightarrow> slug_like (take n s)"
  using slug_like_prefix [of "take n s" "drop n s"] by simp

lemma hd_strip_end: "strip_end s \<noteq> [] \<Longrightarrow> hd (strip_end s) = hd s"
  using drop_end_prefix [of s "\<lambda>c. c = hyphen"] unfolding strip_end_def
  by (metis hd_append2)

lemma hd_strip_start: "strip_start s \<noteq> [] \<Longrightarrow> hd (strip_start s) \<noteq> hyphen"
  unfolding strip_start_def by (rule dropWhile_hd)

lemma length_strip_end: "length (strip_end s) \<le> length s"
  using drop_end_prefix [of s "\<lambda>c. c = hyphen"] unfolding strip_end_def
  by (metis le_add1 length_append)

lemma slug_shape_iff:
  "slug_shape s \<longleftrightarrow> s \<noteq> [] \<and> length s \<le> 60 \<and> slug_like s \<and> hd s \<noteq> hyphen \<and> last s \<noteq> hyphen"
  by (auto simp: slug_shape_def slug_like_def)

lemma slug_shape_workspace: "slug_shape ''workspace''"
  by (simp add: slug_shape_def slug_char_def is_digit_def code_of_def hyphen_def not_both_hyphens_def)

lemma slug_shape_slugify: "slug_shape (slugify s)"
proof -
  define t where "t = strip_end (strip_start (collapse (trim (toLowerCase s))))"
  define u where "u = strip_end (take 60 t)"
  have slug: "slugify s = (if u = [] then ''workspace'' else u)"
    by (simp add: slugify_def u_def t_def Let_def)
  show ?thesis
  proof (cases "u = []")
    case True
    with slug show ?thesis by (simp add: slug_shape_workspace)
  next
    case False
    have like: "slug_like u"
      by (simp add: u_def t_def slug_like_strip_end slug_like_take slug_like_strip_start slug_like_collapse)
    have len: "length u \<le> 60"
      using length_strip_end [of "take 60 t"] by (simp add: u_def)
    from False have ne: "take 60 t \<noteq> []" by (auto simp: u_def strip_end_def drop_end_def)
    have "hd u = hd (take 60 t)" using False unfolding u_def by (rule hd_strip_end)
    also have "\<dots> = hd t" using ne by (cases t) auto
    also have "t \<noteq> []" using ne by auto
    then have "hd t = hd (strip_start (collapse (trim (toLowerCase s))))"
      unfolding t_def by (rule hd_strip_end)
    also have "\<dots> \<noteq> hyphen"
      using \<open>t \<noteq> []\<close> by (intro hd_strip_start) (auto simp: t_def strip_end_def drop_end_def)
    finally have "hd u \<noteq> hyphen" .
    moreover have "last u \<noteq> hyphen"
      using False last_drop_end [of "\<lambda>c. c = hyphen" "take 60 t"] by (simp add: u_def strip_end_def)
    ultimately show ?thesis using slug False like len by (simp add: slug_shape_iff)
  qed
qed

text \<open>On a string of slug shape every step of \<open>slugify\<close> is the identity.\<close>

lemma slug_char_lower: "slug_char c \<or> c = hyphen \<Longrightarrow> lower_char c = c"
  by (auto simp: lower_char_def is_upper_char_def slug_char_def is_digit_def)

lemma slug_char_not_space: "slug_char c \<or> c = hyphen \<Longrightarrow> \<not> is_space c"
  by (auto simp: is_space_def slug_char_def is_digit_def)

lemma toLowerCase_slug: "slug_like s \<Longrightarrow> toLowerCase s = s"
  unfolding slug_like_def toLowerCase_def by (induction s) (auto simp: slug_char_lower successively_Cons)

lemma trim_slug:
  assumes "slug_like s"
  shows "trim s = s"
proof (cases "s = []")
  case True
  then show ?thesis by (simp add: trim_def drop_end_def)
next
  case False
  with assms have "\<not> is_space (hd s)" "\<not> is_space (last s)"
    by (auto simp: slug_like_def list_all_iff intro!: slug_char_not_space)
  with False show ?thesis
    by (cases s) (simp_all add: trim_def drop_end_id)
qed

lemma collapse_slug: "slug_like s \<Longrightarrow> collapse s = s"
proof (induction s rule: collapse.induct)
  case 1
  then show ?case by simp
next
  case (2 c cs)
  have cs: "slug_like cs" using "2.prems" slug_like_suffix [of "[c]" cs] by simp
  show ?case
  proof (cases "slug_char c")
    case True
    with 2 cs show ?thesis by simp
  next
    case False
    with "2.prems" have c: "c = hyphen" by (simp add: slug_like_def)
    with "2.prems" have "cs = [] \<or> slug_char (hd cs)"
      by (cases cs) (auto simp: slug_like_def successively_Cons not_both_hyphens_def)
    then have "dropWhile (\<lambda>x. \<not> slug_char x) cs = cs" by (cases cs) auto
    with 2 cs False c show ?thesis by simp
  qed
qed

lemma slugify_slug:
  assumes "slug_shape s"
  shows "slugify s = s"
proof -
  from assms have s: "s \<noteq> []" "length s \<le> 60" "slug_like s" "hd s \<noteq> hyphen" "last s \<noteq> hyphen"
    by (auto simp: slug_shape_iff)
  have "strip_start s = s" using s by (cases s) (simp_all add: strip_start_def)
  moreover have "strip_end s = s" using s by (simp add: strip_end_def drop_end_id)
  ultimately show ?thesis
    using s by (simp add: slugify_def toLowerCase_slug trim_slug collapse_slug)
qed

text \<open>
  The slugs: \<open>slugify\<close> leaves a string as it is exactly when the string is a slug (1 to 60
  characters from a to z, 0 to 9 and the hyphen, no hyphen at either end and no two in a row), and
  what it returns is always a slug; so it is idempotent and never empty.
\<close>

theorem slugify_normal_form:
  "slug_shape (slugify s) \<and> (slugify s = s \<longleftrightarrow> slug_shape s) \<and> slugify (slugify s) = slugify s"
  using slug_shape_slugify [of s] slugify_slug [of s] slugify_slug [of "slugify s"] by metis

section \<open>parseDurationMs\<close>

text \<open>
  \<open>Number(match[1])\<close> on a string of digits.  A double holds every value below 2 to the 53
  exactly, the range these values are read in here.
\<close>

definition digit_val :: "char \<Rightarrow> int" where
  "digit_val c = int (code_of c) - 48"

definition digits_val :: "string \<Rightarrow> int" where
  "digits_val ds = foldl (\<lambda>n c. 10 * n + digit_val c) 0 ds"

text \<open>The table \<open>UNIT_MS\<close>; \<open>ms\<close> is handled apart.\<close>

definition UNIT_MS :: "string \<Rightarrow> int option" where
  "UNIT_MS u =
     (if u = ''s'' then Some 1000
      else if u = ''m'' then Some 60000
      else if u = ''h'' then Some 3600000
      else if u = ''d'' then Some 86400000
      else None)"

text \<open>The groups of \<open>/^(\d+)\s*(ms|s|m|h|d)$/\<close>, None when it does not match.\<close>

definition duration_match :: "string \<Rightarrow> (string \<times> string) option" where
  "duration_match s =
     (let ds = takeWhile is_digit s;
          u = dropWhile is_space (dropWhile is_digit s)
      in if ds \<noteq> [] \<and> u \<in> {''ms'', ''s'', ''m'', ''h'', ''d''} then Some (ds, u) else None)"

text \<open>\<open>number\<close> stands for \<open>Number\<close> on the whole input, None for \<open>NaN\<close>.\<close>

definition parseDurationMs :: "(string \<Rightarrow> int option) \<Rightarrow> string \<Rightarrow> int res" where
  "parseDurationMs number input =
     (case duration_match (trim input) of
        None \<Rightarrow>
          (case number input of
             Some n \<Rightarrow> Inr n
           | None \<Rightarrow> Inl (JsError (''Invalid duration: '' @ input)))
      | Some (ds, u) \<Rightarrow>
          (if u = ''ms'' then Inr (digits_val ds)
           else (case UNIT_MS u of
                   Some f \<Rightarrow> Inr (digits_val ds * f)
                 | None \<Rightarrow> Inl (JsError ''no such unit''))))"


text \<open>What the units mean, the reference the parser is compared with.\<close>

definition unit_factor :: "string \<Rightarrow> int" where
  "unit_factor u =
     (if u = ''ms'' then 1 else if u = ''s'' then 1000 else if u = ''m'' then 60 * 1000
      else if u = ''h'' then 60 * 60 * 1000 else 24 * 60 * 60 * 1000)"

lemma digit_not_space: "is_digit c \<Longrightarrow> \<not> is_space c"
  by (auto simp: is_digit_def is_space_def)

lemma trim_pad:
  assumes "list_all is_space l" "list_all is_space r" "m \<noteq> []" "\<not> is_space (hd m)" "\<not> is_space (last m)"
  shows "trim (l @ m @ r) = m"
proof -
  have "dropWhile is_space (l @ m @ r) = m @ r"
    using assms by (cases m) (simp_all add: dropWhile_append list_all_iff)
  moreover have "dropWhile is_space (rev r @ rev m) = rev m"
    using assms by (cases m rule: rev_cases) (simp_all add: dropWhile_append list_all_iff)
  ultimately show ?thesis by (simp add: trim_def drop_end_def)
qed

lemma duration_match_units:
  assumes "ds \<noteq> []" "list_all is_digit ds" "list_all is_space sp" "u \<in> {''ms'', ''s'', ''m'', ''h'', ''d''}"
  shows "duration_match (ds @ sp @ u) = Some (ds, u)"
proof -
  have nd: "\<forall>c \<in> set sp. \<not> is_digit c"
    using assms(3) digit_not_space by (auto simp: list_all_iff)
  have u: "u \<noteq> []" "\<not> is_digit (hd u)" "\<not> is_space (hd u)"
    using assms(4) by (auto simp: is_digit_def is_space_def code_of_def)
  have tail: "sp @ u = [] \<or> \<not> is_digit (hd (sp @ u))"
    using nd u by (cases sp) auto
  have "takeWhile is_digit (ds @ sp @ u) = ds"
    using assms(2) tail by (cases "sp @ u") (auto simp: list_all_iff)
  moreover have "dropWhile is_digit (ds @ sp @ u) = sp @ u"
    using assms(2) tail by (cases "sp @ u") (auto simp: list_all_iff dropWhile_append)
  moreover have "dropWhile is_space (sp @ u) = u"
    using assms(3) u by (cases u) (auto simp: list_all_iff dropWhile_append)
  ultimately show ?thesis using assms by (simp add: duration_match_def)
qed

text \<open>
  Durations: digits, any white space and one of the units ms, s, m, h, d, with white space
  around them, are read as the number of milliseconds they name, whatever \<open>Number\<close> does.
\<close>

theorem parseDurationMs_units:
  assumes "ds \<noteq> []" and "list_all is_digit ds" and "list_all is_space sp"
    and "u \<in> {''ms'', ''s'', ''m'', ''h'', ''d''}"
    and "list_all is_space l" and "list_all is_space r"
  shows "parseDurationMs number (l @ (ds @ sp @ u) @ r) = Inr (digits_val ds * unit_factor u)"
proof -
  have hd: "\<not> is_space (hd (ds @ sp @ u))"
    using assms(1,2) by (cases ds) (auto simp: digit_not_space)
  have "\<not> is_space (last u)" "u \<noteq> []"
    using assms(4) by (auto simp: is_space_def code_of_def)
  then have last: "\<not> is_space (last (ds @ sp @ u))" by simp
  have "trim (l @ (ds @ sp @ u) @ r) = ds @ sp @ u"
    using assms hd last by (intro trim_pad) auto
  then show ?thesis
    using assms(4) duration_match_units [OF assms(1-4)]
    by (auto simp: parseDurationMs_def UNIT_MS_def unit_factor_def)
qed

theorem parseDurationMs_units_witness:
  "parseDurationMs (\<lambda>_. None) ('' '' @ (''15'' @ '' '' @ ''m'') @ []) = Inr 900000"
  using parseDurationMs_units [of "''15''" "'' ''" "''m''" "'' ''" "[]" "\<lambda>_. None"]
  by (simp add: is_digit_def is_space_def code_of_def digits_val_def digit_val_def unit_factor_def)

lemma parseDurationMs_error_iff:
  "(\<exists>e. parseDurationMs number s = Inl e) \<longleftrightarrow> duration_match (trim s) = None \<and> number s = None"
  by (auto simp: parseDurationMs_def duration_match_def UNIT_MS_def Let_def
      split: option.splits if_splits)

end
