(* ===== verification/Cursor.thy ===== *)
theory Cursor
  imports JsText
begin

text \<open>
  The cursors of \<open>src/common/pagination/pagination.util.ts\<close>: the sort key of a row as
  base64url text, and its reader.  The text inside a cursor is kept as the bytes of its UTF-8
  form, on which \<open>split('|')\<close> and the tests for the empty string do what they do on the
  decoded string, because the separator is an ASCII character.
\<close>

section \<open>UTF-8 and base64url of Node's Buffer\<close>

definition utf8 :: "string \<Rightarrow> string" where
  "utf8 s =
     concat (map (\<lambda>c. let n = code_of c in
       if n < 128 then [c] else [char_of (192 + n div 64), char_of (128 + n mod 64)]) s)"

fun b64_sextets :: "nat list \<Rightarrow> nat list" where
  "b64_sextets [] = []"
| "b64_sextets [a] = [a div 4, a mod 4 * 16]"
| "b64_sextets [a, b] = [a div 4, a mod 4 * 16 + b div 16, b mod 16 * 4]"
| "b64_sextets (a # b # c # r) =
     a div 4 # (a mod 4 * 16 + b div 16) # (b mod 16 * 4 + c div 64) # c mod 64 # b64_sextets r"

fun b64_bytes :: "nat list \<Rightarrow> nat list" where
  "b64_bytes [] = []"
| "b64_bytes [p] = []"
| "b64_bytes [p, q] = [p * 4 + q div 16]"
| "b64_bytes [p, q, r] = [p * 4 + q div 16, q mod 16 * 16 + r div 4]"
| "b64_bytes (p # q # r # s # t) =
     (p * 4 + q div 16) # (q mod 16 * 16 + r div 4) # (r mod 4 * 64 + s) # b64_bytes t"

definition b64_char :: "nat \<Rightarrow> char" where
  "b64_char n =
     (if n < 26 then char_of (n + 65)
      else if n < 52 then char_of (n + 71)
      else if n < 62 then char_of (n - 4)
      else if n = 62 then CHR ''-'' else CHR ''_'')"

text \<open>Node reads both base64 alphabets and skips every other character.\<close>

definition b64_val :: "char \<Rightarrow> nat option" where
  "b64_val c =
     (let n = code_of c in
      if 65 \<le> n \<and> n \<le> 90 then Some (n - 65)
      else if 97 \<le> n \<and> n \<le> 122 then Some (n - 71)
      else if 48 \<le> n \<and> n \<le> 57 then Some (n + 4)
      else if n = 45 \<or> n = 43 then Some 62
      else if n = 95 \<or> n = 47 then Some 63
      else None)"

definition to_base64url :: "string \<Rightarrow> string" where
  "to_base64url bytes = map b64_char (b64_sextets (map code_of bytes))"

definition from_base64url :: "string \<Rightarrow> string" where
  "from_base64url s = map char_of (b64_bytes (List.map_filter b64_val s))"

section \<open>Date.prototype.toISOString\<close>

definition digit_char :: "nat \<Rightarrow> char" where
  "digit_char n = char_of (48 + n mod 10)"

text \<open>A number in decimal, with leading zeros up to a width.\<close>

fun pad_dec :: "nat \<Rightarrow> nat \<Rightarrow> string" where
  "pad_dec 0 n = []"
| "pad_dec (Suc k) n = pad_dec k (n div 10) @ [digit_char n]"

text \<open>The civil date of a day number (days since 1970-01-01) in the Gregorian calendar.\<close>

definition civil_of_day :: "int \<Rightarrow> int \<times> int \<times> int" where
  "civil_of_day day =
     (let z = day + 719468;
          era = z div 146097;
          doe = z mod 146097;
          yoe = (doe - doe div 1460 + doe div 36524 - doe div 146096) div 365;
          doy = doe - (365 * yoe + yoe div 4 - yoe div 100);
          mp = (5 * doy + 2) div 153;
          d = doy - (153 * mp + 2) div 5 + 1;
          m = (if mp < 10 then mp + 3 else mp - 9);
          y = yoe + era * 400 + (if m \<le> 2 then 1 else 0)
      in (y, m, d))"

definition year_text :: "int \<Rightarrow> string" where
  "year_text y =
     (if 0 \<le> y \<and> y \<le> 9999 then pad_dec 4 (nat y)
      else if y < 0 then CHR ''-'' # pad_dec 6 (nat (- y))
      else CHR ''+'' # pad_dec 6 (nat y))"

definition toISOString :: "js_date \<Rightarrow> string" where
  "toISOString t =
     (case civil_of_day (t div 86400000) of (y, m, d) \<Rightarrow>
       let ms = nat (t mod 86400000) in
       year_text y @ ''-'' @ pad_dec 2 (nat m) @ ''-'' @ pad_dec 2 (nat d) @ ''T'' @
       pad_dec 2 (ms div 3600000) @ '':'' @ pad_dec 2 (ms div 60000 mod 60) @ '':'' @
       pad_dec 2 (ms div 1000 mod 60) @ ''.'' @ pad_dec 3 (ms mod 1000) @ ''Z'')"

section \<open>encodeCursor and decodeCursor\<close>

definition bar :: char where
  "bar = CHR ''|''"

definition encodeCursor :: "js_date \<Rightarrow> string \<Rightarrow> string" where
  "encodeCursor createdAt rid = to_base64url (utf8 (toISOString createdAt @ [bar] @ rid))"

definition decodeCursor :: "string \<Rightarrow> (string \<times> string) option" where
  "decodeCursor cursor =
     (let txt = from_base64url cursor;
          createdAt = takeWhile (\<lambda>c. c \<noteq> bar) txt;
          rid = (case dropWhile (\<lambda>c. c \<noteq> bar) txt of
                   [] \<Rightarrow> None
                 | _ # rest \<Rightarrow> Some (takeWhile (\<lambda>c. c \<noteq> bar) rest))
      in if createdAt = [] then None
         else (case rid of
                 None \<Rightarrow> None
               | Some i \<Rightarrow> if i = [] then None else Some (createdAt, i)))"

section \<open>The round trip\<close>

lemma b64_sextets_bound: "list_all (\<lambda>n. n < 256) bs \<Longrightarrow> list_all (\<lambda>n. n < 64) (b64_sextets bs)"
  by (induction bs rule: b64_sextets.induct) auto

lemma b64_bytes_sextets: "list_all (\<lambda>n. n < 256) bs \<Longrightarrow> b64_bytes (b64_sextets bs) = bs"
  by (induction bs rule: b64_sextets.induct) auto

lemma code_of_bound [simp]: "code_of c < 256"
proof -
  have "(of_char c :: nat) mod 256 < 256" by (rule mod_less_divisor) simp
  then show ?thesis by (simp add: code_of_def)
qed

lemma b64_val_char: "n < 64 \<Longrightarrow> b64_val (b64_char n) = Some n"
  by (auto simp: b64_val_def b64_char_def code_of_def Let_def)

lemma map_filter_b64: "list_all (\<lambda>n. n < 64) ns \<Longrightarrow> List.map_filter b64_val (map b64_char ns) = ns"
  by (induction ns) (auto simp: b64_val_char List.map_filter_simps)

lemma from_to_base64url: "from_base64url (to_base64url s) = s"
proof -
  have b: "list_all (\<lambda>n. n < 256) (map code_of s)" by (simp add: list_all_iff)
  have "map char_of (map code_of s) = s" by (induction s) (auto simp: code_of_def)
  with b show ?thesis
    by (simp add: from_base64url_def to_base64url_def map_filter_b64 b64_sextets_bound b64_bytes_sextets)
qed

text \<open>An ASCII string that does not hold the separator, as every uuid and every ISO date is.\<close>

definition plain :: "string \<Rightarrow> bool" where
  "plain s \<longleftrightarrow> list_all (\<lambda>c. code_of c < 128 \<and> c \<noteq> bar) s"

lemma utf8_append [simp]: "utf8 (s @ t) = utf8 s @ utf8 t"
  by (simp add: utf8_def)

lemma utf8_plain: "plain s \<Longrightarrow> utf8 s = s"
  by (induction s) (auto simp: utf8_def plain_def)

lemma utf8_bar [simp]: "utf8 [bar] = [bar]"
  by (simp add: utf8_def bar_def code_of_def)

lemma plain_append [simp]: "plain (s @ t) \<longleftrightarrow> plain s \<and> plain t"
  and plain_Cons [simp]: "plain (c # s) \<longleftrightarrow> code_of c < 128 \<and> c \<noteq> bar \<and> plain s"
  and plain_Nil [simp]: "plain []"
  by (auto simp: plain_def)

lemma plain_digit: "code_of (digit_char n) < 128" "digit_char n \<noteq> bar"
proof -
  have "code_of (digit_char n) = 48 + n mod 10" by (simp add: digit_char_def code_of_def)
  moreover have "n mod 10 < 10" by simp
  moreover have "code_of bar = 124" by (simp add: bar_def code_of_def)
  ultimately show "code_of (digit_char n) < 128" "digit_char n \<noteq> bar" by auto
qed

lemma plain_pad_dec [simp]: "plain (pad_dec k n)"
  by (induction k arbitrary: n) (auto simp: plain_digit)

lemma plain_year: "plain (year_text y)"
  by (simp add: year_text_def code_of_def bar_def)

lemma plain_toISOString: "plain (toISOString t)"
  by (cases "civil_of_day (t div 86400000)")
    (simp add: toISOString_def Let_def plain_year code_of_def bar_def)

lemma toISOString_not_Nil [simp]: "toISOString t \<noteq> []"
  by (cases "civil_of_day (t div 86400000)") (simp add: toISOString_def Let_def)

lemma takeWhile_plain: "plain s \<Longrightarrow> takeWhile (\<lambda>c. c \<noteq> bar) (s @ [bar] @ t) = s"
  and dropWhile_plain: "plain s \<Longrightarrow> dropWhile (\<lambda>c. c \<noteq> bar) (s @ [bar] @ t) = bar # t"
  by (induction s) auto

lemma decode_two_parts:
  assumes x: "plain x" "x \<noteq> []" and y: "plain y" "y \<noteq> []"
  shows "decodeCursor (to_base64url (x @ [bar] @ y)) = Some (x, y)"
proof -
  have tw: "takeWhile (\<lambda>c. c \<noteq> bar) y = y" using y by (simp add: plain_def list_all_iff)
  show ?thesis
    using assms takeWhile_plain [OF x(1)] dropWhile_plain [OF x(1)]
    by (simp add: decodeCursor_def from_to_base64url Let_def tw)
qed

lemma cursor_roundtrip:
  assumes "plain rid" and "rid \<noteq> []"
  shows "decodeCursor (encodeCursor createdAt rid) = Some (toISOString createdAt, rid)"
proof -
  have "encodeCursor createdAt rid = to_base64url (toISOString createdAt @ [bar] @ rid)"
    using assms by (simp only: encodeCursor_def utf8_append utf8_bar utf8_plain plain_toISOString)
  then show ?thesis using assms by (simp only: decode_two_parts plain_toISOString toISOString_not_Nil not_False_eq_True)
qed

lemma decodeCursor_Nil [simp]: "decodeCursor [] = None"
  by (simp add: decodeCursor_def from_base64url_def map_filter_def)

lemma encodeCursor_not_Nil: "plain rid \<Longrightarrow> rid \<noteq> [] \<Longrightarrow> encodeCursor createdAt rid \<noteq> []"
  using cursor_roundtrip [of rid createdAt] by (auto simp: decodeCursor_def from_base64url_def)

text \<open>
  C35.  The cursor of a row is read back as the row's own sort key: the ISO text of its creation
  time and its id, for any id that is a non-empty ASCII string without a bar (every uuid is).
\<close>

theorem decode_encodeCursor:
  assumes "plain rid" and "rid \<noteq> []"
  shows "decodeCursor (encodeCursor createdAt rid) = Some (toISOString createdAt, rid)"
  using assms by (rule cursor_roundtrip)

theorem decode_encodeCursor_witness:
  "decodeCursor (encodeCursor 1780617600000 ''3f2a-01'') = Some (toISOString 1780617600000, ''3f2a-01'')"
  by (rule decode_encodeCursor) (simp_all add: code_of_def bar_def)

end
