(* ===== verification/Pagination.thy ===== *)
theory Pagination
  imports Cursor
begin

text \<open>
  Keyset pagination: \<open>buildPage\<close> of \<open>src/common/pagination/pagination.util.ts\<close> and the query
  that the five list endpoints share (\<open>ORDER BY created_at DESC, id DESC\<close>, the row comparison
  \<open>(created_at, id) < (cursor)\<close>, \<open>LIMIT limit + 1\<close>).  The interface \<open>paged_feed\<close> is what
  such an endpoint promises; a client that follows \<open>nextCursor\<close> from page to page is proved
  correct once, inside it.

  A row's \<open>created_at\<close> is kept in microseconds, as the database keeps it, and its
  \<open>createdAt\<close>, which the cursor carries, in milliseconds, as a \<open>Date\<close> keeps it.
\<close>

section \<open>buildPage\<close>

record page_meta =
  pm_limit :: nat
  pm_count :: nat
  pm_hasMore :: bool
  pm_nextCursor :: "string option"

record 'r page =
  pg_data :: "'r list"
  pg_meta :: page_meta

text \<open>With a limit of 0 the cursor is taken from \<open>data[-1]\<close>, which is \<open>undefined\<close>.\<close>

definition buildPage :: "'r list \<Rightarrow> nat \<Rightarrow> ('r \<Rightarrow> string) \<Rightarrow> 'r page res" where
  "buildPage rows limit toCursor =
     (let hasMore = limit < length rows;
          data = (if hasMore then take limit rows else rows)
      in if hasMore \<and> data = [] then Inl (JsError ''TypeError'')
         else Inr \<lparr>pg_data = data,
                   pg_meta = \<lparr>pm_limit = limit, pm_count = length data, pm_hasMore = hasMore,
                     pm_nextCursor = (if hasMore then Some (toCursor (last data)) else None)\<rparr>\<rparr>)"

section \<open>The query\<close>

text \<open>The creation time of a row as the \<open>Date\<close> the driver makes of it.\<close>

definition to_js :: "pg_time \<Rightarrow> js_date" where
  "to_js t = t div 1000"

text \<open>\<open>CAST(:cc AS timestamptz)\<close> and \<open>CAST(:ci AS uuid)\<close> of the database, None where they fail.\<close>

record casts =
  cast_ts :: "string \<Rightarrow> pg_time option"
  cast_uuid :: "string \<Rightarrow> uuid option"

definition newest_first :: "('r \<Rightarrow> pg_time) \<Rightarrow> ('r \<Rightarrow> uuid) \<Rightarrow> 'r list \<Rightarrow> 'r list" where
  "newest_first cat rid rows = rev (sort_key (\<lambda>r. (cat r, rid r)) rows)"

fun below :: "('r \<Rightarrow> pg_time) \<Rightarrow> ('r \<Rightarrow> uuid) \<Rightarrow> (pg_time \<times> uuid) option \<Rightarrow> 'r \<Rightarrow> bool" where
  "below cat rid None r = True"
| "below cat rid (Some k) r = ((cat r, rid r) < k)"

text \<open>
  The bound a request's cursor stands for.  An absent, empty or undecodable cursor is no bound; one
  that decodes to something the database cannot cast fails the query.
\<close>

definition cursor_bound :: "casts \<Rightarrow> string option \<Rightarrow> (pg_time \<times> uuid) option res" where
  "cursor_bound cs cursor =
     (case cursor of
        None \<Rightarrow> Inr None
      | Some c \<Rightarrow>
          if c = [] then Inr None
          else (case decodeCursor c of
                  None \<Rightarrow> Inr None
                | Some (createdAt, i) \<Rightarrow>
                    (case (cast_ts cs createdAt, cast_uuid cs i) of
                       (Some t, Some u) \<Rightarrow> Inr (Some (t, u))
                     | _ \<Rightarrow> Inl (QueryFailed (InvalidText ''cursor'')))))"

text \<open>\<open>query.limit ?? 20\<close>.\<close>

definition page_limit :: "nat option \<Rightarrow> nat" where
  "page_limit lim = (case lim of None \<Rightarrow> 20 | Some n \<Rightarrow> n)"

definition keyset_page ::
    "casts \<Rightarrow> ('r \<Rightarrow> pg_time) \<Rightarrow> ('r \<Rightarrow> uuid) \<Rightarrow> nat option \<Rightarrow> string option \<Rightarrow> 'r list \<Rightarrow> 'r page res" where
  "keyset_page cs cat rid lim cursor rows =
     (case cursor_bound cs cursor of
        Inl e \<Rightarrow> Inl e
      | Inr b \<Rightarrow>
          buildPage (take (page_limit lim + 1) (filter (below cat rid b) (newest_first cat rid rows)))
            (page_limit lim) (\<lambda>r. encodeCursor (to_js (cat r)) (rid r)))"

text \<open>
  A client that follows the cursors: the pages it sees, None when a request fails or when the
  fuel, the number of requests it may make, runs out.
\<close>

fun walk :: "nat \<Rightarrow> (string option \<Rightarrow> 'r page res) \<Rightarrow> string option \<Rightarrow> 'r list list option" where
  "walk 0 get cursor = None"
| "walk (Suc n) get cursor =
     (case get cursor of
        Inl e \<Rightarrow> None
      | Inr p \<Rightarrow>
          (case pm_nextCursor (pg_meta p) of
             None \<Rightarrow> Some [pg_data p]
           | Some c \<Rightarrow> map_option (Cons (pg_data p)) (walk n get (Some c))))"

lemma walk_more: "walk m get cursor = Some pages \<Longrightarrow> walk (m + n) get cursor = Some pages"
proof (induction m arbitrary: cursor pages)
  case (Suc m)
  show ?case
  proof (cases "get cursor")
    case (Inr p)
    then show ?thesis
      using Suc by (cases "pm_nextCursor (pg_meta p)") auto
  qed (use Suc.prems in simp)
qed simp

section \<open>buildPage on its own\<close>

lemma buildPage_Inr_iff:
  "buildPage rows limit toCursor = Inr p \<longleftrightarrow>
     (0 < limit \<or> rows = []) \<and>
     p = \<lparr>pg_data = take limit rows,
          pg_meta = \<lparr>pm_limit = limit, pm_count = length (take limit rows),
            pm_hasMore = limit < length rows,
            pm_nextCursor = (if limit < length rows then Some (toCursor (rows ! (limit - 1))) else None)\<rparr>\<rparr>"
proof (cases "limit < length rows \<and> limit > 0")
  case True
  then have "last (take limit rows) = rows ! (limit - 1)"
    by (simp add: last_take)
  with True show ?thesis by (auto simp: buildPage_def Let_def)
next
  case False
  then show ?thesis by (cases limit) (auto simp: buildPage_def Let_def)
qed

section \<open>Following the cursors\<close>

text \<open>The order of the feed: strictly descending keys.\<close>

definition desc :: "('r \<Rightarrow> 'k::linorder) \<Rightarrow> 'r list \<Rightarrow> bool" where
  "desc key L \<longleftrightarrow> sorted_wrt (\<lambda>a b. key b < key a) L"

lemma newest_first_desc:
  assumes "distinct (map rid rows)"
  shows "desc (\<lambda>r. (cat r, rid r)) (newest_first cat rid rows)"
proof -
  let ?key = "\<lambda>r. (cat r, rid r)"
  have d: "distinct (map ?key rows)"
    using assms by (auto simp: distinct_map inj_on_def)
  then have "distinct (map ?key (sort_key ?key rows))"
    by (simp add: distinct_map)
  then have "sorted_wrt (<) (map ?key (sort_key ?key rows))"
    by (simp add: strict_sorted_iff)
  then show ?thesis by (simp add: desc_def newest_first_def sorted_wrt_map sorted_wrt_rev)
qed

lemma set_newest_first [simp]: "set (newest_first cat rid rows) = set rows"
  by (simp add: newest_first_def)

lemma length_newest_first [simp]: "length (newest_first cat rid rows) = length rows"
  by (simp add: newest_first_def)

lemma filter_below_desc:
  assumes "desc key L" and "n < length L"
  shows "filter (\<lambda>r. key r < key (L ! n)) L = drop (Suc n) L"
  using assms
proof (induction L arbitrary: n)
  case Nil
  then show ?case by simp
next
  case (Cons a L)
  show ?case
  proof (cases n)
    case 0
    with Cons.prems have "\<forall>r \<in> set L. key r < key a" by (simp add: desc_def)
    with 0 show ?thesis by simp
  next
    case (Suc m)
    with Cons.prems have "key (L ! m) < key a" by (simp add: desc_def)
    with Suc Cons show ?thesis by (simp add: desc_def not_less_iff_gr_or_eq)
  qed
qed

lemma desc_filter: "desc key L \<Longrightarrow> desc key (filter p L)"
  by (simp add: desc_def sorted_wrt_filter)

lemma desc_append:
  "desc key (xs @ ys) \<longleftrightarrow> desc key xs \<and> desc key ys \<and> (\<forall>x \<in> set xs. \<forall>y \<in> set ys. key y < key x)"
  by (auto simp: desc_def sorted_wrt_append)

lemma desc_distinct: "desc key L \<Longrightarrow> distinct L"
  by (induction L) (auto simp: desc_def)

text \<open>
  The key a row gets when it travels through a cursor: its creation time loses its microseconds.
\<close>

definition trunc_key :: "('r \<Rightarrow> pg_time) \<Rightarrow> ('r \<Rightarrow> uuid) \<Rightarrow> 'r \<Rightarrow> pg_time \<times> uuid" where
  "trunc_key cat rid r = (to_js (cat r) * 1000, rid r)"

lemma to_js_le: "to_js t * 1000 \<le> t"
  by (simp add: to_js_def)

lemma trunc_key_le: "trunc_key cat rid r \<le> (cat r, rid r)"
  using to_js_le [of "cat r"] by (auto simp: trunc_key_def less_eq_prod_def)

text \<open>
  The rows of a feed whose cursors the database reads back: the ids are uuids, and casting a
  cursor's two parts gives the time they print and the id.
\<close>

definition casts_read :: "casts \<Rightarrow> ('r \<Rightarrow> pg_time) \<Rightarrow> ('r \<Rightarrow> uuid) \<Rightarrow> 'r list \<Rightarrow> bool" where
  "casts_read cs cat rid rows \<longleftrightarrow>
     list_all (\<lambda>r. plain (rid r) \<and> rid r \<noteq> [] \<and> cast_uuid cs (rid r) = Some (rid r) \<and>
       cast_ts cs (toISOString (to_js (cat r))) = Some (to_js (cat r) * 1000)) rows"

text \<open>No two rows share a millisecond, but for rows created on the millisecond itself.\<close>

definition ms_separated :: "('r \<Rightarrow> pg_time) \<Rightarrow> 'r list \<Rightarrow> bool" where
  "ms_separated cat rows \<longleftrightarrow>
     pairwise (\<lambda>r r'. to_js (cat r) = to_js (cat r') \<longrightarrow> cat r = to_js (cat r) * 1000) (set rows)"

lemma cursor_bound_row:
  assumes "casts_read cs cat rid rows" and "r \<in> set rows"
  shows "cursor_bound cs (Some (encodeCursor (to_js (cat r)) (rid r))) = Inr (Some (trunc_key cat rid r))"
  using assms
  by (auto simp: casts_read_def list_all_iff cursor_bound_def cursor_roundtrip encodeCursor_not_Nil trunc_key_def)

text \<open>The rows a bound leaves, and what the next page's bound leaves of them.\<close>

definition remaining ::
    "('r \<Rightarrow> pg_time) \<Rightarrow> ('r \<Rightarrow> uuid) \<Rightarrow> (pg_time \<times> uuid) option \<Rightarrow> 'r list \<Rightarrow> 'r list" where
  "remaining cat rid b rows = filter (below cat rid b) (newest_first cat rid rows)"

lemma below_Some: "below cat rid (Some k) = (\<lambda>r. (cat r, rid r) < k)"
  by (rule ext) simp

lemma remaining_desc:
  "distinct (map rid rows) \<Longrightarrow> desc (\<lambda>r. (cat r, rid r)) (remaining cat rid b rows)"
  by (simp add: remaining_def desc_filter newest_first_desc)

lemma set_remaining: "set (remaining cat rid b rows) = {r \<in> set rows. below cat rid b r}"
  by (auto simp: remaining_def)

lemma filter_trunc_desc:
  assumes "desc key L" and "n < length L" and "k \<le> key (L ! n)"
  shows "filter (\<lambda>r. key r < k) L = filter (\<lambda>r. key r < k) (drop (Suc n) L)"
proof -
  have "filter (\<lambda>r. key r < k) L = filter (\<lambda>r. key r < k) (filter (\<lambda>r. key r < key (L ! n)) L)"
    using assms(3) by (auto simp: filter_filter intro: filter_cong)
  then show ?thesis by (simp add: filter_below_desc [OF assms(1,2)])
qed

lemma remaining_next:
  assumes d: "distinct (map rid rows)" and n: "n < length (remaining cat rid b rows)"
    and k: "k = trunc_key cat rid (remaining cat rid b rows ! n)"
  shows "remaining cat rid (Some k) rows =
           filter (below cat rid (Some k)) (drop (Suc n) (remaining cat rid b rows))"
proof -
  let ?key = "\<lambda>r. (cat r, rid r)"
  let ?R = "remaining cat rid b rows"
  have last: "?R ! n \<in> set ?R" using n by simp
  have kle: "k \<le> ?key (?R ! n)" unfolding k by (rule trunc_key_le)
  have sub: "below cat rid b r" if "?key r < k" for r
  proof (cases b)
    case (Some c)
    with last have "?key (?R ! n) < c" by (simp add: set_remaining)
    with that kle have "?key r < c" by order
    with Some show ?thesis by simp
  qed simp
  have "remaining cat rid (Some k) rows = filter (\<lambda>r. ?key r < k) (newest_first cat rid rows)"
    by (auto simp: remaining_def intro: filter_cong)
  also have "\<dots> = filter (\<lambda>r. ?key r < k) ?R"
    using sub by (auto simp: remaining_def filter_filter intro: filter_cong)
  also have "\<dots> = filter (\<lambda>r. ?key r < k) (drop (Suc n) ?R)"
    by (rule filter_trunc_desc [OF remaining_desc [OF d] n kle])
  finally show ?thesis by (simp add: below_Some)
qed

section \<open>One page, and the walk over all of them\<close>

lemma keyset_page_bound:
  assumes "cursor_bound cs cursor = Inr b" and "0 < page_limit lim"
  shows "keyset_page cs cat rid lim cursor rows = Inr
    (let R = remaining cat rid b rows; n = page_limit lim
     in \<lparr>pg_data = take n R,
         pg_meta = \<lparr>pm_limit = n, pm_count = length (take n R), pm_hasMore = n < length R,
           pm_nextCursor = (if n < length R
             then Some (encodeCursor (to_js (cat (R ! (n - 1)))) (rid (R ! (n - 1)))) else None)\<rparr>\<rparr>)"
  using assms
  by (auto simp: keyset_page_def remaining_def [symmetric] buildPage_Inr_iff Let_def min_def)

lemma ms_separated_below:
  assumes "ms_separated cat rows" and "r \<in> set rows" and "r' \<in> set rows"
    and "(cat r, rid r) < (cat r', rid r')"
  shows "below cat rid (Some (trunc_key cat rid r')) r"
proof (cases "to_js (cat r) = to_js (cat r')")
  case True
  from assms(4) have "r \<noteq> r'" by auto
  with assms(1-3) True have "cat r' = to_js (cat r') * 1000"
    unfolding ms_separated_def pairwise_def by metis
  then show ?thesis using assms(4) by (simp add: trunc_key_def)
next
  case False
  from assms(4) have "cat r \<le> cat r'" by auto
  with False have "to_js (cat r) < to_js (cat r')"
    by (auto simp: to_js_def zdiv_mono1 order.not_eq_order_implies_strict)
  then have "cat r < to_js (cat r') * 1000" by (simp add: to_js_def)
  then show ?thesis by (simp add: trunc_key_def)
qed

lemma remaining_next_separated:
  assumes "distinct (map rid rows)" and "ms_separated cat rows"
    and n: "n < length (remaining cat rid b rows)"
  shows "remaining cat rid (Some (trunc_key cat rid (remaining cat rid b rows ! n))) rows =
           drop (Suc n) (remaining cat rid b rows)"
proof -
  let ?R = "remaining cat rid b rows"
  have *: "desc (\<lambda>r. (cat r, rid r)) (take (Suc n) ?R @ drop (Suc n) ?R)"
    using remaining_desc [OF assms(1)] by simp
  have "?R ! n \<in> set (take (Suc n) ?R)" using n by (simp add: take_Suc_conv_app_nth)
  with * have "\<forall>r \<in> set (drop (Suc n) ?R). (cat r, rid r) < (cat (?R ! n), rid (?R ! n))"
    by (auto simp only: desc_append)
  moreover have "?R ! n \<in> set rows" using n nth_mem by (fastforce simp: set_remaining)
  moreover have "set (drop (Suc n) ?R) \<subseteq> set rows"
    using set_drop_subset by (fastforce simp: set_remaining)
  ultimately have "\<forall>r \<in> set (drop (Suc n) ?R). below cat rid (Some (trunc_key cat rid (?R ! n))) r"
    using ms_separated_below [OF assms(2)] by blast
  then show ?thesis
    by (simp add: remaining_next [OF assms(1) n] filter_id_conv)
qed

text \<open>What a finished walk has seen: full pages, rows in order and none of them twice.\<close>

definition walk_ok ::
    "('r \<Rightarrow> pg_time) \<Rightarrow> ('r \<Rightarrow> uuid) \<Rightarrow> nat \<Rightarrow> 'r list \<Rightarrow> 'r list list \<Rightarrow> bool" where
  "walk_ok cat rid n R pages \<longleftrightarrow>
     pages \<noteq> [] \<and> desc (\<lambda>r. (cat r, rid r)) (concat pages) \<and> set (concat pages) \<subseteq> set R \<and>
     (\<forall>p \<in> set (butlast pages). length p = n) \<and> length (last pages) \<le> n"

lemma walk_from:
  assumes casts: "casts_read cs cat rid rows" and d: "distinct (map rid rows)"
    and lim: "0 < page_limit lim"
    and "cursor_bound cs cursor = Inr b" and "length (remaining cat rid b rows) < fuel"
  shows "\<exists>pages. walk fuel (\<lambda>c. keyset_page cs cat rid lim c rows) cursor = Some pages \<and>
           walk_ok cat rid (page_limit lim) (remaining cat rid b rows) pages \<and>
           (ms_separated cat rows \<longrightarrow> concat pages = remaining cat rid b rows)"
  using assms(4,5)
proof (induction fuel arbitrary: cursor b)
  case 0
  then show ?case by simp
next
  case (Suc fuel)
  let ?get = "\<lambda>c. keyset_page cs cat rid lim c rows"
  let ?R = "remaining cat rid b rows"
  let ?n = "page_limit lim"
  note page = keyset_page_bound [OF Suc.prems(1) lim, of cat rid rows]
  show ?case
  proof (cases "?n < length ?R")
    case False
    then show ?thesis
      using remaining_desc [OF d] by (simp add: page Let_def walk_ok_def)
  next
    case True
    define r where "r = ?R ! (?n - 1)"
    define c where "c = encodeCursor (to_js (cat r)) (rid r)"
    define k where "k = trunc_key cat rid r"
    let ?R' = "remaining cat rid (Some k) rows"
    from True have n1: "?n - 1 < length ?R" by simp
    have r: "r \<in> set rows" using n1 nth_mem by (fastforce simp: r_def set_remaining)
    have b': "cursor_bound cs (Some c) = Inr (Some k)"
      using cursor_bound_row [OF casts r] by (simp add: c_def k_def)
    have R': "?R' = filter (below cat rid (Some k)) (drop ?n ?R)"
      using remaining_next [OF d n1] lim by (simp add: k_def r_def)
    have "length ?R' \<le> length (drop ?n ?R)" unfolding R' by (rule length_filter_le)
    with lim True Suc.prems(2) have "length ?R' < fuel" by simp
    from Suc.IH [OF b' this] obtain pages where
      w: "walk fuel ?get (Some c) = Some pages" and ok: "walk_ok cat rid ?n ?R' pages"
      and all: "ms_separated cat rows \<longrightarrow> concat pages = ?R'" by blast
    have step: "walk (Suc fuel) ?get cursor = Some (take ?n ?R # pages)"
      using True w by (simp add: page Let_def r_def c_def)
    have sub: "set (concat pages) \<subseteq> set (drop ?n ?R)"
      using ok by (auto simp: walk_ok_def R')
    have "desc (\<lambda>r. (cat r, rid r)) (take ?n ?R @ drop ?n ?R)"
      using remaining_desc [OF d] by simp
    then have "desc (\<lambda>r. (cat r, rid r)) (take ?n ?R @ concat pages)"
      using ok sub by (auto simp only: desc_append walk_ok_def)
    moreover have "set (take ?n ?R) \<union> set (drop ?n ?R) \<subseteq> set ?R"
      using set_take_subset set_drop_subset by fastforce
    ultimately have "walk_ok cat rid ?n ?R (take ?n ?R # pages)"
      using ok sub True by (auto simp: walk_ok_def)
    moreover have "ms_separated cat rows \<longrightarrow> concat (take ?n ?R # pages) = ?R"
      using all remaining_next_separated [OF d _ n1] lim by (simp add: k_def r_def)
    ultimately show ?thesis using step by blast
  qed
qed

lemma keyset_page_within:
  assumes "keyset_page cs cat rid lim cursor rows = Inr p"
  shows "set (pg_data p) \<subseteq> set rows \<and> length (pg_data p) \<le> page_limit lim"
  using assms set_take_subset
  by (fastforce simp: keyset_page_def buildPage_Inr_iff split: sum.splits)

lemma walk_after_skip:
  assumes "casts_read cs cat rid rows" and "distinct (map rid rows)" and lim: "0 < page_limit lim"
    and w: "walk fuel (\<lambda>c. keyset_page cs cat rid lim c rows) None = Some (p # ps)"
    and same: "to_js (cat r) = to_js (cat (last p))" and off: "to_js (cat r) * 1000 < cat r"
  shows "r \<notin> set (concat ps)"
proof (cases ps)
  case Nil
  then show ?thesis by simp
next
  case (Cons q qs)
  let ?get = "\<lambda>c. keyset_page cs cat rid lim c rows"
  let ?R = "remaining cat rid None rows"
  let ?n = "page_limit lim"
  have b0: "cursor_bound cs None = Inr None" by (simp add: cursor_bound_def)
  note page = keyset_page_bound [OF b0 lim, of cat rid rows]
  obtain m where fuel: "fuel = Suc m" using w by (cases fuel) auto
  define z where "z = ?R ! (?n - 1)"
  define c where "c = encodeCursor (to_js (cat z)) (rid z)"
  have n: "?n < length ?R"
    using w Cons fuel page by (auto simp: Let_def split: if_splits)
  then have p: "p = take ?n ?R" and rest: "walk m ?get (Some c) = Some ps"
    using w fuel page by (auto simp: Let_def z_def c_def)
  have "last p = z"
    using n lim by (simp add: p z_def last_take)
  have n1: "?n - 1 < length ?R" using n by simp
  have z: "z \<in> set rows" using n1 nth_mem by (fastforce simp: z_def set_remaining)
  have b: "cursor_bound cs (Some c) = Inr (Some (trunc_key cat rid z))"
    using cursor_bound_row [OF assms(1) z] by (simp add: c_def)
  let ?R' = "remaining cat rid (Some (trunc_key cat rid z)) rows"
  have "walk_ok cat rid ?n ?R' ps"
  proof -
    obtain pages where "walk (Suc (length ?R') + m) ?get (Some c) = Some pages"
      "walk_ok cat rid ?n ?R' pages"
      using walk_from [OF assms(1,2) lim b, of "Suc (length ?R') + m"] by auto
    with walk_more [OF rest, of "Suc (length ?R')"] show ?thesis by (simp add: add.commute)
  qed
  then have "set (concat ps) \<subseteq> set ?R'" by (simp add: walk_ok_def)
  moreover have "r \<notin> set ?R'"
    using off same \<open>last p = z\<close> by (simp add: set_remaining trunc_key_def)
  ultimately show ?thesis by blast
qed

section \<open>The interface of a list endpoint\<close>

text \<open>
  What \<open>TasksService.list\<close> and its siblings promise: a request that is refused fails with the
  reason, any other answers with a page of the rows in its scope.
\<close>

locale paged_feed =
  fixes cs :: casts
    and cat :: "'r \<Rightarrow> pg_time"
    and rid :: "'r \<Rightarrow> uuid"
    and inv :: "'s \<Rightarrow> bool"
    and refused :: "'s \<Rightarrow> 'q \<Rightarrow> http_error option"
    and scope :: "'s \<Rightarrow> 'q \<Rightarrow> 'r list"
    and fetch :: "'s \<Rightarrow> 'q \<Rightarrow> nat option \<Rightarrow> string option \<Rightarrow> 'r page res"
  assumes fetch_granted:
      "refused s q = None \<Longrightarrow> fetch s q lim c = keyset_page cs cat rid lim c (scope s q)"
    and fetch_refused: "refused s q = Some e \<Longrightarrow> fetch s q lim c = Inl e"
    and scope_ids: "inv s \<Longrightarrow> distinct (map rid (scope s q))"
begin

lemma page_in_scope:
  "fetch s q lim c = Inr p \<Longrightarrow>
     refused s q = None \<and> set (pg_data p) \<subseteq> set (scope s q) \<and> length (pg_data p) \<le> page_limit lim"
  by (cases "refused s q") (auto simp: fetch_granted fetch_refused dest!: keyset_page_within)

lemma feed_walk_ends:
  assumes "inv s" and "refused s q = None" and "casts_read cs cat rid (scope s q)"
    and "0 < page_limit lim"
  shows "\<exists>pages. walk (Suc (length (scope s q))) (fetch s q lim) None = Some pages \<and>
           walk_ok cat rid (page_limit lim) (scope s q) pages \<and>
           (ms_separated cat (scope s q) \<longrightarrow> concat pages = newest_first cat rid (scope s q))"
proof -
  have R: "remaining cat rid None (scope s q) = newest_first cat rid (scope s q)"
    by (simp add: remaining_def)
  have "fetch s q lim = (\<lambda>c. keyset_page cs cat rid lim c (scope s q))"
    using assms(2) by (intro ext fetch_granted)
  then show ?thesis
    using walk_from [OF assms(3) scope_ids [OF assms(1)] assms(4), of None None "Suc (length (scope s q))"]
    by (auto simp: cursor_bound_def R walk_ok_def)
qed

end

section \<open>Properties\<close>

text \<open>
  Following \<open>nextCursor\<close> from the first page ends after at most one request per row, never
  shows a row twice, shows only rows of the list, newest first across the page borders, and every
  page but the last is full.  When no two rows share a millisecond it shows every row.
\<close>

theorem keyset_walk:
  assumes "casts_read cs cat rid rows" and "distinct (map rid rows)" and "0 < page_limit lim"
  shows "\<exists>pages. walk (Suc (length rows)) (\<lambda>c. keyset_page cs cat rid lim c rows) None = Some pages \<and>
           walk_ok cat rid (page_limit lim) rows pages \<and>
           (ms_separated cat rows \<longrightarrow> concat pages = newest_first cat rid rows)"
proof -
  have R: "remaining cat rid None rows = newest_first cat rid rows"
    by (simp add: remaining_def)
  show ?thesis
    using walk_from [OF assms, of None None "Suc (length rows)"]
    by (auto simp: cursor_bound_def R walk_ok_def)
qed

text \<open>Two rows created in the epoch's first millisecond, and a database that casts their cursors.\<close>

definition epoch_casts :: casts where
  "epoch_casts = \<lparr>cast_ts = (\<lambda>s. if s = toISOString 0 then Some 0 else None), cast_uuid = Some\<rparr>"

definition epoch_rows :: "(pg_time \<times> uuid) list" where
  "epoch_rows = [(500, ''a''), (200, ''b'')]"

lemma epoch_casts_read: "casts_read epoch_casts fst snd epoch_rows"
  by (simp add: casts_read_def epoch_rows_def epoch_casts_def to_js_def code_of_def bar_def)

lemma epoch_rows_ids: "distinct (map snd epoch_rows)"
  by (simp add: epoch_rows_def)

theorem keyset_walk_witness:
  "\<exists>pages. walk (Suc (length epoch_rows)) (\<lambda>c. keyset_page epoch_casts fst snd (Some 1) c epoch_rows) None = Some pages \<and>
     walk_ok fst snd (page_limit (Some 1)) epoch_rows pages \<and>
     (ms_separated fst epoch_rows \<longrightarrow> concat pages = newest_first fst snd epoch_rows)"
  by (rule keyset_walk [OF epoch_casts_read epoch_rows_ids]) (simp add: page_limit_def)

text \<open>
  The cursor carries \<open>created_at\<close> without its microseconds, so a row that shares the
  millisecond of a first page's last row, but is not on that page, is on no later page either:
  the client never sees it.
\<close>

theorem same_millisecond_row_lost:
  assumes "casts_read cs cat rid rows" and "distinct (map rid rows)" and "0 < page_limit lim"
    and "walk fuel (\<lambda>c. keyset_page cs cat rid lim c rows) None = Some (p # ps)"
    and "to_js (cat r) = to_js (cat (last p))" and "to_js (cat r) * 1000 < cat r"
    and "r \<notin> set p"
  shows "r \<notin> set (concat (p # ps))"
  using walk_after_skip [OF assms(1-6)] assms(7) by simp

lemma epoch_walk:
  "walk 3 (\<lambda>c. keyset_page epoch_casts fst snd (Some 1) c epoch_rows) None = Some [[(500, ''a'')], []]"
proof -
  have b: "cursor_bound epoch_casts (Some (encodeCursor 0 ''a'')) = Inr (Some (0, ''a''))"
    using cursor_bound_row [OF epoch_casts_read, of "(500, ''a'')"]
    by (simp add: epoch_rows_def to_js_def trunc_key_def)
  have R: "newest_first fst snd epoch_rows = epoch_rows"
    by (simp add: newest_first_def epoch_rows_def less_list_code)
  have "keyset_page epoch_casts fst snd (Some 1) None epoch_rows =
      Inr \<lparr>pg_data = [(500, ''a'')],
        pg_meta = \<lparr>pm_limit = 1, pm_count = 1, pm_hasMore = True, pm_nextCursor = Some (encodeCursor 0 ''a'')\<rparr>\<rparr>"
    by (simp add: keyset_page_def cursor_bound_def R)
      (simp add: epoch_rows_def page_limit_def buildPage_def to_js_def)
  moreover have "keyset_page epoch_casts fst snd (Some 1) (Some (encodeCursor 0 ''a'')) epoch_rows =
      Inr \<lparr>pg_data = [],
        pg_meta = \<lparr>pm_limit = 1, pm_count = 0, pm_hasMore = False, pm_nextCursor = None\<rparr>\<rparr>"
    by (simp add: keyset_page_def b R) (simp add: epoch_rows_def page_limit_def buildPage_def)
  ultimately show ?thesis by (simp add: numeral_3_eq_3)
qed

theorem same_millisecond_row_lost_witness:
  "(200, ''b'') \<in> set epoch_rows \<and> (200, ''b'') \<notin> set (concat [[(500 :: int, ''a'')], []])"
proof (rule conjI)
  show "(200, ''b'') \<in> set epoch_rows" by (simp add: epoch_rows_def)
  show "(200, ''b'') \<notin> set (concat [[(500 :: int, ''a'')], []])"
    by (rule same_millisecond_row_lost [OF epoch_casts_read epoch_rows_ids _ epoch_walk])
      (simp_all add: page_limit_def to_js_def)
qed

text \<open>
  A cursor that is not one of the server's, but decodes into two parts, is not treated as
  malformed: it reaches the query, whose cast of the first part to a timestamp fails.
\<close>

theorem crafted_cursor_fails:
  assumes "plain x" and "x \<noteq> []" and "plain y" and "y \<noteq> []" and "cast_ts cs x = None"
  shows "keyset_page cs cat rid lim (Some (to_base64url (x @ [bar] @ y))) rows =
           Inl (QueryFailed (InvalidText ''cursor''))"
proof -
  have "decodeCursor (to_base64url (x @ [bar] @ y)) = Some (x, y)"
    using assms(1-4) by (rule decode_two_parts)
  moreover from this have "to_base64url (x @ [bar] @ y) \<noteq> []"
    by (metis decodeCursor_Nil option.distinct(1))
  ultimately show ?thesis
    using assms(5) by (simp add: keyset_page_def cursor_bound_def)
qed

theorem crafted_cursor_fails_witness:
  "keyset_page \<lparr>cast_ts = \<lambda>_. None, cast_uuid = Some\<rparr> fst snd None (Some (to_base64url (''x'' @ [bar] @ ''y''))) epoch_rows =
     Inl (QueryFailed (InvalidText ''cursor''))"
  by (rule crafted_cursor_fails)
    (simp_all add: code_of_def bar_def)

end
