(* ===== verification/Forest.thy ===== *)
theory Forest
  imports Prelude
begin

text \<open>
  Trees kept as rows with a parent pointer (subtasks, comment replies): the recursive queries
  that walk them (\<open>WITH RECURSIVE\<close>, downwards and upwards), the cascade of a delete, and the
  facts the components use: the queries end and return the rows they mean to, and moving a row
  under a row that is not below it leaves a forest.

  A table is given by its rows, the id of a row and its parent's id.  The query is computed level
  by level, as the database does; a level that is never empty means a statement that does not end,
  which is None for every fuel.
\<close>

section \<open>Climbing parent pointers\<close>

fun climb :: "(uuid \<Rightarrow> uuid option) \<Rightarrow> nat \<Rightarrow> uuid \<Rightarrow> uuid option" where
  "climb up 0 i = Some i"
| "climb up (Suc k) i = (case up i of None \<Rightarrow> None | Some p \<Rightarrow> climb up k p)"

definition loopfree :: "(uuid \<Rightarrow> uuid option) \<Rightarrow> bool" where
  "loopfree up \<longleftrightarrow> (\<forall>i k. climb up (Suc k) i \<noteq> Some i)"

definition under :: "(uuid \<Rightarrow> uuid option) \<Rightarrow> uuid \<Rightarrow> uuid \<Rightarrow> bool" where
  "under up a i \<longleftrightarrow> (\<exists>k. climb up k i = Some a)"

lemma climb_add: "climb up (j + k) i = Option.bind (climb up j i) (climb up k)"
  by (induction j arbitrary: i) (auto split: option.split)

lemma climb_SomeD: "climb up (j + k) i = Some y \<Longrightarrow> \<exists>x. climb up j i = Some x \<and> climb up k x = Some y"
  by (auto simp: climb_add bind_eq_Some_conv)

lemma climb_join: "climb up j i = Some x \<Longrightarrow> climb up k x = Some y \<Longrightarrow> climb up (j + k) i = Some y"
  by (simp add: climb_add)

lemma climb_last: "climb up (Suc k) i = Some y \<longleftrightarrow> (\<exists>x. climb up k i = Some x \<and> up x = Some y)"
  using climb_add [of up k 1 i] by (auto simp: bind_eq_Some_conv split: option.splits)

lemma under_refl [simp]: "under up a a"
  unfolding under_def by (rule exI [of _ 0]) simp

lemma under_trans: "under up a b \<Longrightarrow> under up b c \<Longrightarrow> under up a c"
  unfolding under_def by (blast dest: climb_join)

lemma under_step: "up i = Some p \<Longrightarrow> under up a p \<Longrightarrow> under up a i"
  unfolding under_def by (metis climb.simps(2) option.case(2))

lemma under_cases: "under up a i \<longleftrightarrow> i = a \<or> (\<exists>p. up i = Some p \<and> under up a p)"
proof
  assume "under up a i"
  then obtain k where "climb up k i = Some a" by (auto simp: under_def)
  then show "i = a \<or> (\<exists>p. up i = Some p \<and> under up a p)"
    by (cases k) (auto simp: under_def split: option.splits)
qed (auto intro: under_step)

lemma loopfreeD: "loopfree up \<Longrightarrow> climb up k i = Some i \<Longrightarrow> k = 0"
  by (cases k) (auto simp: loopfree_def simp del: climb.simps)

text \<open>Two ids on each other's way up are on a loop.\<close>

lemma loopfree_antisym:
  assumes "loopfree up" and "under up a i" and "under up i a"
  shows "i = a"
proof -
  from assms(2,3) obtain j k where jk: "climb up j i = Some a" "climb up k a = Some i"
    by (auto simp: under_def)
  then have "climb up (j + k) i = Some i" by (rule climb_join)
  with assms(1) have "j + k = 0" by (rule loopfreeD)
  with jk show ?thesis by simp
qed

lemma loopfree_level:
  assumes "loopfree up" and "climb up j i = Some a" and "climb up k i = Some a"
  shows "j = k"
proof -
  have "j' = k'" if "climb up j' i = Some a" "climb up k' i = Some a" "j' \<le> k'" for j' k'
  proof -
    have "climb up (k' - j') a = Some a"
      using that climb_SomeD [of up j' "k' - j'" i a] by auto
    with assms(1) have "k' - j' = 0" by (rule loopfreeD)
    with that(3) show ?thesis by simp
  qed
  with assms show ?thesis by (metis nat_le_linear)
qed

text \<open>Fewer pointers make no loop.\<close>

lemma climb_mono: "up' \<subseteq>\<^sub>m up \<Longrightarrow> climb up' k i = Some y \<Longrightarrow> climb up k i = Some y"
proof (induction k arbitrary: i)
  case (Suc k)
  then obtain p where "up' i = Some p" "climb up' k p = Some y" by (auto split: option.splits)
  moreover from Suc.prems(1) this(1) have "up i = Some p" by (metis map_le_def domI)
  ultimately show ?case using Suc by auto
qed simp

lemma loopfree_mono: "loopfree up \<Longrightarrow> up' \<subseteq>\<^sub>m up \<Longrightarrow> loopfree up'"
  unfolding loopfree_def by (metis climb_mono)

text \<open>A pointer changed at one id only matters to the climbs that pass through it.\<close>

lemma climb_agree:
  assumes "\<And>i. i \<noteq> a \<Longrightarrow> up' i = up i" and "climb up k i = Some y"
  shows "climb up' k i = Some y \<or> (\<exists>j\<le>k. climb up' j i = Some a)"
  using assms(2)
proof (induction k arbitrary: i)
  case (Suc k)
  show ?case
  proof (cases "i = a")
    case True
    then show ?thesis by (auto intro: exI [of _ 0])
  next
    case False
    from Suc.prems obtain p where p: "up i = Some p" "climb up k p = Some y" by (auto split: option.splits)
    with False have "up' i = Some p" by (simp add: assms(1))
    with Suc.IH [OF p(2)] show ?thesis by (auto intro: exI [of _ "Suc _"])
  qed
qed simp

lemma climb_agree_hit:
  assumes "\<And>i. i \<noteq> a \<Longrightarrow> up' i = up i" and "under up a i"
  shows "under up' a i"
  using assms climb_agree [of a up' up _ i a] unfolding under_def by metis

lemma under_upd [simp]: "under (up(a := x)) a i \<longleftrightarrow> under up a i"
proof
  show "under (up(a := x)) a i \<Longrightarrow> under up a i"
    by (rule climb_agree_hit [of a up "up(a := x)"]) simp_all
  show "under up a i \<Longrightarrow> under (up(a := x)) a i"
    by (rule climb_agree_hit [of a "up(a := x)" up]) simp_all
qed

lemma climb_upd_outside:
  assumes "\<not> under up a i"
  shows "climb (up(a := x)) k i = climb up k i"
  using assms
proof (induction k arbitrary: i)
  case (Suc k)
  then have "i \<noteq> a" by auto
  then show ?case using Suc under_step [of up i _ a] by (auto split: option.split)
qed simp

lemma loopfree_move:
  assumes free: "loopfree up" and out: "\<not> under up a p"
  shows "loopfree (up(a \<mapsto> p))"
  unfolding loopfree_def
proof (intro allI notI)
  fix i k
  let ?up = "up(a \<mapsto> p)"
  assume loop: "climb ?up (Suc k) i = Some i"
  show False
  proof (cases "under up a i")
    case False
    then show False using loop free by (simp add: climb_upd_outside loopfree_def del: climb.simps)
  next
    case True
    then have "under ?up a i" by simp
    then obtain j where j: "climb ?up j i = Some a" unfolding under_def by blast
    have "climb ?up (Suc k + j) i = Some a" using loop j by (rule climb_join)
    then have "climb ?up (j + Suc k) i = Some a" by (simp only: add.commute)
    with j have "climb ?up (Suc k) a = Some a" by (simp only: climb_add bind.bind_lunit)
    then have "under ?up a p" by (auto simp: under_def)
    with out show False by simp
  qed
qed

text \<open>A climb passes no id twice, so it is no longer than there are pointers.\<close>

lemma climb_bound:
  assumes free: "loopfree up" and fin: "finite (dom up)" and k: "climb up k i = Some y"
  shows "k \<le> card (dom up)"
proof -
  define f where "f j = the (climb up j i)" for j
  have f: "climb up j i = Some (f j) \<and> climb up (k - j) (f j) = Some y" if "j \<le> k" for j
    using climb_SomeD [of up j "k - j" i y] k that by (auto simp: f_def)
  have "f j \<in> dom up" if "j < k" for j
    using f [of j] that by (cases "k - j") (auto split: option.splits)
  then have sub: "f ` {..<k} \<subseteq> dom up" by auto
  have "j = j'" if "j < k" "j' < k" "f j = f j'" for j j'
    using loopfree_level [OF free, of j i "f j" j'] f [of j] f [of j'] that by auto
  then have "inj_on f {..<k}" by (auto intro: inj_onI)
  then have "card (f ` {..<k}) = k" by (simp add: card_image)
  with sub fin show ?thesis by (metis card_mono)
qed

text \<open>A measure that falls on every step up rules loops out.\<close>

lemma loopfree_rank:
  fixes rank :: "uuid \<Rightarrow> nat"
  assumes "\<And>i p. up i = Some p \<Longrightarrow> rank p < rank i"
  shows "loopfree up"
proof -
  have "rank y < rank i" if "climb up (Suc k) i = Some y" for i k y
    using that
  proof (induction k arbitrary: i)
    case 0
    then show ?case by (auto split: option.splits dest: assms)
  next
    case (Suc k)
    then obtain p where "up i = Some p" "climb up (Suc k) p = Some y"
      by (auto split: option.splits simp del: climb.simps(2) simp add: climb.simps(2) [of up "Suc k"])
    with Suc.IH assms show ?case by (meson less_trans)
  qed
  then show ?thesis unfolding loopfree_def by blast
qed

section \<open>Rows with a parent\<close>

definition parent_of :: "('r \<Rightarrow> uuid) \<Rightarrow> ('r \<Rightarrow> uuid option) \<Rightarrow> 'r list \<Rightarrow> uuid \<Rightarrow> uuid option" where
  "parent_of ident par t i =
     (case List.find (\<lambda>r. ident r = i) t of None \<Rightarrow> None | Some r \<Rightarrow> par r)"

text \<open>One level of a recursive query: the children, or the parents, of the rows found last.\<close>

definition join_down :: "('r \<Rightarrow> uuid) \<Rightarrow> ('r \<Rightarrow> uuid option) \<Rightarrow> 'r list \<Rightarrow> 'r list \<Rightarrow> 'r list" where
  "join_down ident par t level = concat (map (\<lambda>s. filter (\<lambda>c. par c = Some (ident s)) t) level)"

definition join_up :: "('r \<Rightarrow> uuid) \<Rightarrow> ('r \<Rightarrow> uuid option) \<Rightarrow> 'r list \<Rightarrow> 'r list \<Rightarrow> 'r list" where
  "join_up ident par t level = concat (map (\<lambda>a. filter (\<lambda>x. Some (ident x) = par a) t) level)"

text \<open>\<open>WITH RECURSIVE\<close>: the rows of each level with its depth, until a level is empty.\<close>

fun cte :: "('r list \<Rightarrow> 'r list) \<Rightarrow> nat \<Rightarrow> nat \<Rightarrow> 'r list \<Rightarrow> ('r \<times> nat) list option" where
  "cte step 0 d level = None"
| "cte step (Suc n) d level =
     (if level = [] then Some []
      else map_option (append (map (\<lambda>r. (r, d)) level)) (cte step n (Suc d) (step level)))"

text \<open>
  A delete of the rows whose id satisfies D, with \<open>ON DELETE CASCADE\<close> on the parent: the rows from
  which such an id is reached by climbing go too.  A climb of as many steps as there are rows
  meets every id above a row.
\<close>

fun reaches :: "(uuid \<Rightarrow> uuid option) \<Rightarrow> nat \<Rightarrow> (uuid \<Rightarrow> bool) \<Rightarrow> uuid \<Rightarrow> bool" where
  "reaches up 0 D i = D i"
| "reaches up (Suc n) D i =
     (D i \<or> (case up i of None \<Rightarrow> False | Some p \<Rightarrow> reaches up n D p))"

definition cascade ::
    "('r \<Rightarrow> uuid) \<Rightarrow> ('r \<Rightarrow> uuid option) \<Rightarrow> (uuid \<Rightarrow> bool) \<Rightarrow> 'r list \<Rightarrow> 'r list" where
  "cascade ident par D t =
     filter (\<lambda>r. \<not> reaches (parent_of ident par t) (length t) D (ident r)) t"

text \<open>A table whose parent pointers form a forest: keys, foreign keys, no loop.\<close>

definition forest :: "('r \<Rightarrow> uuid) \<Rightarrow> ('r \<Rightarrow> uuid option) \<Rightarrow> 'r list \<Rightarrow> bool" where
  "forest ident par t \<longleftrightarrow>
     distinct (map ident t) \<and>
     (\<forall>r \<in> set t. \<forall>p. par r = Some p \<longrightarrow> p \<in> ident ` set t) \<and>
     loopfree (parent_of ident par t)"

lemma parent_of_row:
  "distinct (map ident t) \<Longrightarrow> r \<in> set t \<Longrightarrow> parent_of ident par t (ident r) = par r"
  by (simp add: parent_of_def find_key)

lemma parent_of_Some_iff:
  assumes "distinct (map ident t)"
  shows "parent_of ident par t i = Some p \<longleftrightarrow> (\<exists>r \<in> set t. ident r = i \<and> par r = Some p)"
proof
  assume "parent_of ident par t i = Some p"
  then obtain r where "List.find (\<lambda>r. ident r = i) t = Some r" "par r = Some p"
    by (auto simp: parent_of_def split: option.splits)
  then show "\<exists>r \<in> set t. ident r = i \<and> par r = Some p" by (auto dest: find_SomeD)
qed (auto simp: parent_of_row [OF assms])

lemma dom_parent_of: "dom (parent_of ident par t) \<subseteq> ident ` set t"
  by (auto simp: parent_of_def split: option.splits dest!: find_SomeD)

lemma finite_dom_parent_of [simp]: "finite (dom (parent_of ident par t))"
  by (rule finite_subset [OF dom_parent_of]) simp

lemma card_dom_parent_of: "card (dom (parent_of ident par t)) \<le> length t"
proof -
  have "card (dom (parent_of ident par t)) \<le> card (ident ` set t)"
    by (rule card_mono [OF _ dom_parent_of]) simp
  also have "\<dots> \<le> length t" by (metis card_length list.set_map length_map)
  finally show ?thesis .
qed

lemma forest_climb_bound:
  "forest ident par t \<Longrightarrow> climb (parent_of ident par t) k i = Some y \<Longrightarrow> k \<le> length t"
  using climb_bound [of "parent_of ident par t" k i y] card_dom_parent_of [of ident par t]
  by (auto simp: forest_def)

text \<open>What is above a row is a row.\<close>

lemma climb_closed:
  assumes "forest ident par t" and "i \<in> ident ` set t" and "climb (parent_of ident par t) k i = Some y"
  shows "y \<in> ident ` set t"
  using assms(2,3)
proof (induction k arbitrary: i)
  case (Suc k)
  then obtain p where p: "parent_of ident par t i = Some p" "climb (parent_of ident par t) k p = Some y"
    by (auto split: option.splits)
  with assms(1) have "p \<in> ident ` set t" by (force simp: forest_def parent_of_Some_iff)
  with Suc.IH p(2) show ?case by blast
qed simp

section \<open>The recursive queries\<close>

lemma cte_None: "cte step n d level = None \<longleftrightarrow> (\<forall>k < n. (step ^^ k) level \<noteq> [])"
proof (induction n arbitrary: d level)
  case (Suc n)
  have "(\<forall>k < Suc n. (step ^^ k) level \<noteq> []) \<longleftrightarrow>
      level \<noteq> [] \<and> (\<forall>k < n. (step ^^ Suc k) level \<noteq> [])"
    by (auto simp: all_conj_distrib less_Suc_eq_0_disj)
  then show ?case by (simp add: Suc funpow_swap1)
qed simp

text \<open>Fuel that is enough is enough for good.\<close>

lemma cte_more: "cte step n d level = Some R \<Longrightarrow> n \<le> m \<Longrightarrow> cte step m d level = Some R"
proof (induction n arbitrary: d level R m)
  case (Suc n)
  then obtain j where m: "m = Suc j" "n \<le> j" by (cases m) auto
  from Suc.prems(1) m Suc.IH [OF _ m(2)] show ?case by (auto split: if_splits)
qed simp

lemma cte_set:
  assumes nil: "step [] = []"
  shows "cte step n d level = Some L \<Longrightarrow>
    (r, e) \<in> set L \<longleftrightarrow> d \<le> e \<and> r \<in> set ((step ^^ (e - d)) level)"
proof (induction n arbitrary: d level L)
  case (Suc n)
  show ?case
  proof (cases "level = []")
    case True
    have "(step ^^ k) [] = []" for k by (induction k) (simp_all add: nil)
    with True Suc.prems show ?thesis by simp
  next
    case False
    with Suc.prems obtain M where M: "cte step n (Suc d) (step level) = Some M"
      and L: "L = map (\<lambda>r. (r, d)) level @ M" by auto
    have "(r, e) \<in> set L \<longleftrightarrow> e = d \<and> r \<in> set level \<or> Suc d \<le> e \<and> r \<in> set ((step ^^ (e - Suc d)) (step level))"
      using Suc.IH [OF M] by (auto simp: L)
    also have "\<dots> \<longleftrightarrow> d \<le> e \<and> r \<in> set ((step ^^ (e - d)) level)"
    proof (cases "d < e")
      case True
      then have "e - d = Suc (e - Suc d)" by simp
      then show ?thesis using True by (simp only: funpow_Suc_right comp_apply) auto
    qed auto
    finally show ?thesis .
  qed
qed simp

lemma join_down_Nil [simp]: "join_down ident par t [] = []"
  and join_up_Nil [simp]: "join_up ident par t [] = []"
  by (simp_all add: join_down_def join_up_def)

lemma set_join_down: "set (join_down ident par t L) = {c \<in> set t. \<exists>s \<in> set L. par c = Some (ident s)}"
  by (auto simp: join_down_def)

lemma set_join_up: "set (join_up ident par t L) = {x \<in> set t. \<exists>s \<in> set L. par s = Some (ident x)}"
  by (auto simp: join_up_def)

lemma climb_from_row:
  "climb (parent_of ident par t) k i = Some y \<Longrightarrow> y \<in> ident ` set t \<Longrightarrow> i \<in> ident ` set t"
  using dom_parent_of [of ident par t] by (cases k) (auto split: option.splits)

text \<open>Level k of the downward query holds the rows from which k steps up lead to the first level.\<close>

lemma set_down_level:
  assumes d: "distinct (map ident t)" and F: "set F \<subseteq> set t"
  shows "set ((join_down ident par t ^^ k) F) =
           {r \<in> set t. \<exists>f \<in> set F. climb (parent_of ident par t) k (ident r) = Some (ident f)}"
proof (induction k)
  case 0
  show ?case using F by (auto dest: distinct_key_eq [OF d])
next
  case (Suc k)
  let ?up = "parent_of ident par t"
  have "(\<exists>s \<in> set t. (\<exists>f \<in> set F. climb ?up k (ident s) = Some (ident f)) \<and> par c = Some (ident s)) \<longleftrightarrow>
      (\<exists>f \<in> set F. climb ?up (Suc k) (ident c) = Some (ident f))" if c: "c \<in> set t" for c
  proof
    assume "\<exists>f \<in> set F. climb ?up (Suc k) (ident c) = Some (ident f)"
    then obtain f p where f: "f \<in> set F" "par c = Some p" "climb ?up k p = Some (ident f)"
      by (auto simp: parent_of_row [OF d c] split: option.splits)
    with F climb_from_row [of ident par t k p "ident f"] obtain s where "s \<in> set t" "ident s = p" by auto
    with f show "\<exists>s \<in> set t. (\<exists>f \<in> set F. climb ?up k (ident s) = Some (ident f)) \<and> par c = Some (ident s)"
      by auto
  qed (auto simp: parent_of_row [OF d c])
  then show ?case
    by (simp add: set_join_down Suc del: climb.simps cong: conj_cong) blast
qed

text \<open>Level k of the upward query from a row holds the row k steps above it.\<close>

lemma set_up_level:
  assumes d: "distinct (map ident t)" and a: "a \<in> set t"
    and fk: "\<forall>r \<in> set t. \<forall>p. par r = Some p \<longrightarrow> p \<in> ident ` set t"
  shows "set ((join_up ident par t ^^ k) [a]) =
           {x \<in> set t. climb (parent_of ident par t) k (ident a) = Some (ident x)}"
proof (induction k)
  case 0
  show ?case using a by (auto dest: distinct_key_eq [OF d])
next
  case (Suc k)
  let ?up = "parent_of ident par t"
  have "(\<exists>s \<in> set t. climb ?up k (ident a) = Some (ident s) \<and> par s = Some (ident x)) \<longleftrightarrow>
      climb ?up (Suc k) (ident a) = Some (ident x)" for x
    by (auto simp: climb_last parent_of_Some_iff [OF d] parent_of_row [OF d] simp del: climb.simps)
  then show ?case
    by (simp add: set_join_up Suc del: climb.simps cong: conj_cong) blast
qed

text \<open>On a forest the fuel of one more than the number of rows is enough.\<close>

lemma level_empty:
  assumes "forest ident par t" and "length t < k"
  shows "set F \<subseteq> set t \<Longrightarrow> (join_down ident par t ^^ k) F = []"
    and "a \<in> set t \<Longrightarrow> (join_up ident par t ^^ k) [a] = []"
proof -
  from assms have none: "climb (parent_of ident par t) k i = None" for i
    using forest_climb_bound [OF assms(1), of k i] by (cases "climb (parent_of ident par t) k i") auto
  show "set F \<subseteq> set t \<Longrightarrow> (join_down ident par t ^^ k) F = []"
    using assms(1) set_down_level [where k = k and F = F and t = t and ident = ident and par = par] by (simp add: forest_def none)
  show "a \<in> set t \<Longrightarrow> (join_up ident par t ^^ k) [a] = []"
    using assms(1) set_up_level [where k = k and a = a and t = t and ident = ident and par = par] by (simp add: forest_def none)
qed

definition cte_fuel :: "'r list \<Rightarrow> nat" where
  "cte_fuel t = Suc (Suc (length t))"

lemma cte_levels_distinct:
  assumes "\<And>k. distinct (map f ((step ^^ k) level))"
    and "\<And>j k. j < k \<Longrightarrow> f ` set ((step ^^ j) level) \<inter> f ` set ((step ^^ k) level) = {}"
    and nil: "step [] = []" and "cte step n d level = Some L"
  shows "distinct (map (f \<circ> fst) L)"
  using assms(1,2,4)
proof (induction n arbitrary: d level L)
  case (Suc n)
  show ?case
  proof (cases "level = []")
    case True
    with Suc.prems(3) show ?thesis by simp
  next
    case False
    with Suc.prems(3) obtain M where M: "cte step n (Suc d) (step level) = Some M"
      and L: "L = map (\<lambda>r. (r, d)) level @ M" by auto
    have shift: "(step ^^ k) (step level) = (step ^^ Suc k) level" for k
      by (simp add: funpow_swap1)
    have "distinct (map (f \<circ> fst) M)"
    proof (rule Suc.IH [OF _ _ M])
      show "distinct (map f ((step ^^ k) (step level)))" for k
        unfolding shift by (rule Suc.prems(1))
      show "f ` set ((step ^^ j) (step level)) \<inter> f ` set ((step ^^ k) (step level)) = {}"
        if "j < k" for j k
        unfolding shift using that by (intro Suc.prems(2)) simp
    qed
    moreover have "f ` set level \<inter> (f \<circ> fst) ` set M = {}"
    proof -
      have "f r \<noteq> f r'" if "r \<in> set level" "(r', e) \<in> set M" for r r' e
      proof -
        from that(2) have "r' \<in> set ((step ^^ (e - Suc d)) (step level))"
          using cte_set [OF nil M] by simp
        then have "r' \<in> set ((step ^^ Suc (e - Suc d)) level)" unfolding shift .
        with that(1) Suc.prems(2) [of 0 "Suc (e - Suc d)"] show ?thesis by auto
      qed
      then show ?thesis by (auto simp: image_iff)
    qed
    ultimately show ?thesis
      using Suc.prems(1) [of 0] by (auto simp: L comp_def)
  qed
qed simp

lemma distinct_join_down:
  assumes "distinct (map ident t)"
  shows "distinct (map ident F) \<Longrightarrow> distinct (map ident (join_down ident par t F))"
proof (induction F)
  case (Cons s F)
  have "ident ` set (filter (\<lambda>c. par c = Some (ident s)) t) \<inter> ident ` set (join_down ident par t F) = {}"
    using Cons.prems distinct_key_eq [OF assms] by (auto simp: set_join_down) (metis image_eqI option.inject)
  moreover have "distinct (map ident (join_down ident par t F))" using Cons by simp
  ultimately show ?case
    using distinct_map_filterI [OF assms] by (simp add: join_down_def)
qed simp

text \<open>The downward query on a forest: every row below the first one, once, with its depth.\<close>

lemma forest_cte_down:
  assumes F: "forest ident par t" and a: "a \<in> set t"
  obtains L where "cte (join_down ident par t) (cte_fuel t) 0 [a] = Some L"
    and "\<And>r e. (r, e) \<in> set L \<longleftrightarrow> r \<in> set t \<and> climb (parent_of ident par t) e (ident r) = Some (ident a)"
    and "distinct (map (ident \<circ> fst) L)"
proof -
  let ?step = "join_down ident par t"
  have d: "distinct (map ident t)" using F by (simp add: forest_def)
  have sub: "set [a] \<subseteq> set t" using a by simp
  have "(?step ^^ Suc (length t)) [a] = []"
    using level_empty(1) [OF F _ sub] by blast
  then have "cte ?step (cte_fuel t) 0 [a] \<noteq> None"
    unfolding cte_None cte_fuel_def by blast
  then obtain L where L: "cte ?step (cte_fuel t) 0 [a] = Some L" by blast
  have lev: "set ((?step ^^ k) [a]) = {r \<in> set t. climb (parent_of ident par t) k (ident r) = Some (ident a)}" for k
    using set_down_level [OF d sub, where k = k and par = par] by simp
  have mem: "(r, e) \<in> set L \<longleftrightarrow> r \<in> set t \<and> climb (parent_of ident par t) e (ident r) = Some (ident a)" for r e
    using cte_set [OF join_down_Nil L, of r e] by (simp add: lev)
  have dist: "distinct (map ident ((?step ^^ k) [a]))" for k
    by (induction k) (simp_all add: distinct_join_down [OF d])
  have "distinct (map (ident \<circ> fst) L)"
  proof (rule cte_levels_distinct [OF dist _ join_down_Nil L])
    fix j k :: nat assume "j < k"
    then show "ident ` set ((?step ^^ j) [a]) \<inter> ident ` set ((?step ^^ k) [a]) = {}"
      using F loopfree_level [of "parent_of ident par t" j _ "ident a" k] by (auto simp: lev forest_def)
  qed
  with L mem that show ?thesis by blast
qed

lemma forest_cte_up:
  assumes F: "forest ident par t" and a: "a \<in> set t"
  obtains L where "cte (join_up ident par t) (cte_fuel t) 0 [a] = Some L"
    and "\<And>r e. (r, e) \<in> set L \<longleftrightarrow> r \<in> set t \<and> climb (parent_of ident par t) e (ident a) = Some (ident r)"
proof -
  let ?step = "join_up ident par t"
  have d: "distinct (map ident t)" using F by (simp add: forest_def)
  have fk: "\<forall>r \<in> set t. \<forall>p. par r = Some p \<longrightarrow> p \<in> ident ` set t" using F by (simp add: forest_def)
  have "(?step ^^ Suc (length t)) [a] = []"
    using level_empty(2) [OF F _ a] by blast
  then have "cte ?step (cte_fuel t) 0 [a] \<noteq> None"
    unfolding cte_None cte_fuel_def by blast
  then obtain L where L: "cte ?step (cte_fuel t) 0 [a] = Some L" by blast
  have "(r, e) \<in> set L \<longleftrightarrow> r \<in> set t \<and> climb (parent_of ident par t) e (ident a) = Some (ident r)" for r e
    using cte_set [OF join_up_Nil L, of r e] set_up_level [OF d a fk, where k = e] by simp
  with L that show ?thesis by blast
qed

text \<open>
  Fuel that runs out is a query that runs forever: when one more than the number of rows is not
  enough, no fuel is.
\<close>

lemma climb_pump:
  assumes fin: "finite (dom up)" and big: "card (dom up) < k" and k: "climb up k i = Some y"
  shows "\<exists>i' k'. m \<le> k' \<and> climb up k' i' = Some y"
proof -
  define f where "f j = the (climb up j i)" for j
  have f: "climb up j i = Some (f j) \<and> climb up (k - j) (f j) = Some y" if "j \<le> k" for j
    using climb_SomeD [of up j "k - j" i y] k that by (auto simp: f_def)
  have "f j \<in> dom up" if "j < k" for j
    using f [of j] that by (cases "k - j") (auto split: option.splits)
  then have "f ` {..<k} \<subseteq> dom up" by auto
  then have "card (f ` {..<k}) \<le> card (dom up)" by (rule card_mono [OF fin])
  with big have "card (f ` {..<k}) < card {..<k}" by simp
  then have "\<not> inj_on f {..<k}" using pigeonhole by blast
  then obtain l h where xy: "l < k" "h < k" "l \<noteq> h" "f l = f h"
    by (auto simp: inj_on_def)
  define j j' where "j = min l h" and "j' = max l h"
  have j: "j < j'" "j' < k" "f j = f j'"
    using xy by (auto simp: j_def j'_def min_def max_def)
  have loop: "climb up (j' - j) (f j) = Some (f j)"
    using climb_add [of up j "j' - j" i] f [of j] f [of j'] j by simp
  have "climb up (m * (j' - j)) (f j) = Some (f j)"
    by (induction m) (use loop in \<open>auto simp: climb_add\<close>)
  then have "climb up (m * (j' - j) + (k - j)) (f j) = Some y"
    using f [of j] j by (intro climb_join) auto
  moreover have "m \<le> m * (j' - j) + (k - j)"
  proof -
    obtain c where "j' - j = Suc c" using j(1) by (cases "j' - j") auto
    then show ?thesis by simp
  qed
  ultimately show ?thesis by blast
qed

lemma cte_diverges:
  assumes d: "distinct (map ident t)" and a: "a \<in> set t"
    and none: "cte (join_down ident par t) (cte_fuel t) 0 [a] = None"
  shows "cte (join_down ident par t) n 0 [a] = None"
proof -
  let ?up = "parent_of ident par t"
  have sub: "set [a] \<subseteq> set t" using a by simp
  have lev: "set ((join_down ident par t ^^ k) [a]) = {r \<in> set t. climb ?up k (ident r) = Some (ident a)}" for k
    using set_down_level [OF d sub, where k = k and par = par] by simp
  from none have "(join_down ident par t ^^ Suc (length t)) [a] \<noteq> []"
    unfolding cte_None cte_fuel_def by blast
  then obtain i where i: "climb ?up (Suc (length t)) i = Some (ident a)"
    using lev [of "Suc (length t)"] by (metis (mono_tags, lifting) CollectD equals0I set_empty)
  have big: "card (dom ?up) < Suc (length t)"
    using card_dom_parent_of [of ident par t] by simp
  have "(join_down ident par t ^^ m) [a] \<noteq> []" for m
  proof -
    obtain i' k' where k': "m \<le> k'" "climb ?up k' i' = Some (ident a)"
      using climb_pump [OF finite_dom_parent_of big i] by blast
    then obtain x where x: "climb ?up m x = Some (ident a)"
      using climb_SomeD [of ?up "k' - m" m i' "ident a"] by auto
    then obtain r where "r \<in> set t" "ident r = x"
      using climb_from_row [OF x] a by auto
    with x lev [of m] show ?thesis by auto
  qed
  then show ?thesis by (simp add: cte_None)
qed

section \<open>Changing the rows\<close>

lemma reaches_iff: "reaches up n D i \<longleftrightarrow> (\<exists>k \<le> n. \<exists>a. D a \<and> climb up k i = Some a)"
proof (induction n arbitrary: i)
  case (Suc n)
  have "(\<exists>k \<le> Suc n. \<exists>a. D a \<and> climb up k i = Some a) \<longleftrightarrow>
      D i \<or> (\<exists>k \<le> n. \<exists>a. D a \<and> climb up (Suc k) i = Some a)"
    by (metis Suc_le_mono climb.simps(1) le0 not0_implies_Suc option.inject)
  then show ?case using Suc by (auto split: option.splits)
qed auto

lemma reaches_under:
  "forest ident par t \<Longrightarrow>
     reaches (parent_of ident par t) (length t) D i \<longleftrightarrow> (\<exists>a. D a \<and> under (parent_of ident par t) a i)"
  unfolding reaches_iff under_def using forest_climb_bound by metis

lemma set_cascade:
  "forest ident par t \<Longrightarrow>
     set (cascade ident par D t) =
       {r \<in> set t. \<not> (\<exists>a. D a \<and> under (parent_of ident par t) a (ident r))}"
  by (simp add: cascade_def reaches_under)

lemma set_cascade_subset: "set (cascade ident par D t) \<subseteq> set t"
  by (auto simp: cascade_def)

lemma parent_of_filter:
  assumes "distinct (map ident t)"
  shows "parent_of ident par (filter P t) \<subseteq>\<^sub>m parent_of ident par t"
proof -
  have "parent_of ident par t i = Some p" if "parent_of ident par (filter P t) i = Some p" for i p
    using that by (auto simp: parent_of_Some_iff [OF assms] parent_of_Some_iff [OF distinct_map_filterI [OF assms]])
  then show ?thesis by (auto simp: map_le_def dom_def)
qed

lemma forest_filter:
  assumes F: "forest ident par t"
    and P: "\<And>r p. r \<in> set t \<Longrightarrow> P r \<Longrightarrow> par r = Some p \<Longrightarrow> \<exists>x \<in> set t. P x \<and> ident x = p"
  shows "forest ident par (filter P t)"
  unfolding forest_def
proof (intro conjI ballI allI impI)
  have d: "distinct (map ident t)" using F by (simp add: forest_def)
  then show "distinct (map ident (filter P t))" by (rule distinct_map_filterI)
  show "loopfree (parent_of ident par (filter P t))"
    using F by (intro loopfree_mono [OF _ parent_of_filter [OF d]]) (simp add: forest_def)
  show "p \<in> ident ` set (filter P t)" if "r \<in> set (filter P t)" "par r = Some p" for r p
    using P [of r p] that by auto
qed

lemma cascade_parent:
  assumes F: "forest ident par t" and r: "r \<in> set (cascade ident par D t)" "par r = Some p"
  shows "\<exists>x \<in> set (cascade ident par D t). ident x = p"
proof -
  let ?up = "parent_of ident par t"
  from F r obtain x where x: "x \<in> set t" "ident x = p"
    by (auto simp: forest_def cascade_def)
  have "?up (ident r) = Some p"
    using F r by (simp add: forest_def parent_of_row cascade_def)
  then have "under ?up a p \<Longrightarrow> under ?up a (ident r)" for a by (rule under_step)
  with r x show ?thesis by (auto simp: set_cascade [OF F])
qed

lemma forest_cascade:
  assumes F: "forest ident par t"
  shows "forest ident par (cascade ident par D t)"
  unfolding cascade_def
  by (rule forest_filter [OF F])
    (use cascade_parent [OF F, of _ D] in \<open>auto simp: cascade_def\<close>)

text \<open>A row goes exactly when it, or a row above it, is deleted.\<close>

lemma cascade_keeps:
  "forest ident par t \<Longrightarrow> r \<in> set t \<Longrightarrow>
     r \<notin> set (cascade ident par D t) \<longleftrightarrow> (\<exists>a. D a \<and> under (parent_of ident par t) a (ident r))"
  by (simp add: set_cascade)

lemma parent_of_append:
  assumes d: "distinct (map ident (t @ [r]))"
  shows "parent_of ident par (t @ [r]) = (parent_of ident par t)(ident r := par r)"
proof (rule ext)
  fix i
  have dt: "distinct (map ident t)" and new: "ident r \<notin> ident ` set t" using d by auto
  show "parent_of ident par (t @ [r]) i = ((parent_of ident par t)(ident r := par r)) i"
  proof (cases "i \<in> ident ` set t")
    case True
    then obtain x where x: "x \<in> set t" "i = ident x" by blast
    moreover from x(1) have "ident x \<in> ident ` set t" by simp
    with new have "ident x \<noteq> ident r" by metis
    ultimately show ?thesis
      using parent_of_row [OF d, of x par] parent_of_row [OF dt, of x par] by auto
  next
    case False
    then have "parent_of ident par t i = None" using dom_parent_of [of ident par t] by blast
    moreover have "List.find (\<lambda>x. ident x = i) (t @ [r]) = (if ident r = i then Some r else None)"
      using False by (induction t) auto
    ultimately show ?thesis by (simp add: parent_of_def)
  qed
qed

lemma forest_append:
  assumes F: "forest ident par t" and new: "ident r \<notin> ident ` set t"
    and fk: "\<And>p. par r = Some p \<Longrightarrow> p \<in> ident ` set t"
  shows "forest ident par (t @ [r])"
proof -
  let ?up = "parent_of ident par t"
  have d: "distinct (map ident (t @ [r]))" using F new by (simp add: forest_def)
  note up = parent_of_append [OF d, of par]
  have "loopfree (?up(ident r := par r))"
  proof (cases "par r")
    case None
    then have "?up(ident r := par r) \<subseteq>\<^sub>m ?up" by (auto simp: map_le_def)
    then show ?thesis using F by (auto simp: forest_def intro: loopfree_mono)
  next
    case (Some p)
    have "\<not> under ?up (ident r) p"
      using climb_closed [OF F fk [OF Some]] new by (auto simp: under_def)
    then show ?thesis using F Some by (simp add: forest_def loopfree_move)
  qed
  then show ?thesis
    using F d fk by (auto simp: forest_def up)
qed

lemma parent_of_update_row:
  assumes d: "distinct (map ident t)" and r: "ident r \<in> ident ` set t"
  shows "parent_of ident par (update_row ident r t) = (parent_of ident par t)(ident r := par r)"
proof (rule ext)
  fix i
  have d': "distinct (map ident (update_row ident r t))" using d by simp
  show "parent_of ident par (update_row ident r t) i = ((parent_of ident par t)(ident r := par r)) i"
  proof (cases "i \<in> ident ` set t")
    case True
    then obtain x where x: "x \<in> set t" "i = ident x" by blast
    show ?thesis
    proof (cases "i = ident r")
      case True
      then show ?thesis
        using r parent_of_row [OF d', of r par] by (simp add: set_update_row)
    next
      case False
      then show ?thesis
        using r x parent_of_row [OF d', of x par] parent_of_row [OF d x(1), of par]
        by (simp add: set_update_row)
    qed
  next
    case False
    have "ident ` set (update_row ident r t) = ident ` set t"
      by (metis list.set_map map_key_update_row)
    with False have "i \<notin> dom (parent_of ident par (update_row ident r t))"
      using dom_parent_of [of ident par "update_row ident r t"] by auto
    moreover have "i \<notin> dom (parent_of ident par t)"
      using False dom_parent_of [of ident par t] by auto
    moreover have "i \<noteq> ident r" using False r by auto
    ultimately show ?thesis by (simp add: domIff)
  qed
qed

text \<open>A row written back with its parent unchanged, with no parent, or under a row not below it.\<close>

lemma forest_update_row:
  assumes F: "forest ident par t" and r: "ident r \<in> ident ` set t"
    and ok: "par r = parent_of ident par t (ident r) \<or> par r = None \<or>
      (\<exists>p \<in> ident ` set t. par r = Some p \<and> \<not> under (parent_of ident par t) (ident r) p)"
  shows "forest ident par (update_row ident r t)"
proof -
  let ?up = "parent_of ident par t"
  have d: "distinct (map ident t)" using F by (simp add: forest_def)
  have ids: "ident ` set (update_row ident r t) = ident ` set t"
    by (metis list.set_map map_key_update_row)
  have old: "p \<in> ident ` set t" if "?up i = Some p" for i p
    using F that by (auto simp: forest_def parent_of_Some_iff [OF d])
  have "p \<in> ident ` set t" if "x \<in> set (update_row ident r t)" "par x = Some p" for x p
  proof (cases "x = r")
    case True
    with ok that show ?thesis by (auto dest: old [OF sym])
  next
    case False
    with that F show ?thesis by (auto simp: forest_def dest!: in_update_rowD)
  qed
  moreover have "loopfree (?up(ident r := par r))"
  proof (cases "par r = ?up (ident r) \<or> par r = None")
    case True
    then have "?up(ident r := par r) \<subseteq>\<^sub>m ?up" by (auto simp: map_le_def)
    then show ?thesis using F by (auto simp: forest_def intro: loopfree_mono)
  next
    case False
    with ok F show ?thesis by (auto simp: forest_def intro: loopfree_move)
  qed
  ultimately show ?thesis
    using d by (simp add: forest_def ids parent_of_update_row [OF d r])
qed

text \<open>Only the ids and the parents matter.\<close>

lemma forest_cong:
  assumes "forest ident par t" and "map ident t' = map ident t" and "map par t' = map par t"
  shows "forest ident par t'"
proof -
  have "parent_of ident par u i = Option.bind (map_of (zip (map ident u) (map par u)) i) (\<lambda>x. x)" for u i
    by (induction u) (auto simp: parent_of_def)
  then have "parent_of ident par t' = parent_of ident par t"
    using assms(2,3) by (intro ext) simp
  moreover have ids: "ident ` set t' = ident ` set t" using assms(2) by (metis list.set_map)
  moreover have "par ` set t' = par ` set t" using assms(3) by (metis list.set_map)
  then have "\<forall>v \<in> par ` set t'. \<forall>p. v = Some p \<longrightarrow> p \<in> ident ` set t"
    using assms(1) by (simp add: forest_def)
  moreover have "distinct (map ident t')" using assms by (simp add: forest_def)
  ultimately show ?thesis using assms(1) by (simp add: forest_def)
qed

section \<open>Depth after a move\<close>

text \<open>
  When a row whose subtree is at most h high goes under a row at depth at most d, every row of the
  subtree ends up at depth at most h + 1 + d.
\<close>

lemma climb_after_move:
  assumes out: "\<not> under up a p"
    and high: "\<And>i k. climb up k i = Some a \<Longrightarrow> k \<le> h"
    and deep: "\<And>k y. climb up k p = Some y \<Longrightarrow> k \<le> d"
    and i: "under up a i" and e: "climb (up(a \<mapsto> p)) e i = Some y"
  shows "e \<le> h + 1 + d"
proof -
  let ?up = "up(a \<mapsto> p)"
  from i obtain k where k: "climb up k i = Some a" by (auto simp: under_def)
  have "\<exists>j \<le> k. climb ?up j i = Some a"
    using climb_agree [of a ?up up k i a] k by auto
  then obtain j where j: "j \<le> k" "climb ?up j i = Some a" by blast
  with high [OF k] have "j \<le> h" by simp
  show ?thesis
  proof (cases "e \<le> j")
    case True
    with \<open>j \<le> h\<close> show ?thesis by simp
  next
    case False
    then have "e = j + Suc (e - j - 1)" by simp
    with e j have "climb ?up (Suc (e - j - 1)) a = Some y"
      by (metis bind.bind_lunit climb_add)
    then have "climb ?up (e - j - 1) p = Some y" by simp
    then have "climb up (e - j - 1) p = Some y" by (simp add: climb_upd_outside [OF out])
    from deep [OF this] \<open>j \<le> h\<close> False show ?thesis by simp
  qed
qed

text \<open>How deep an id is, and how high what is below it.\<close>

definition depth_of :: "(uuid \<Rightarrow> uuid option) \<Rightarrow> uuid \<Rightarrow> nat" where
  "depth_of up i = Max {k. climb up k i \<noteq> None}"

definition height_of :: "(uuid \<Rightarrow> uuid option) \<Rightarrow> uuid \<Rightarrow> nat" where
  "height_of up a = Max {k. \<exists>i. climb up k i = Some a}"

lemma finite_climbs:
  assumes "forest ident par t"
  shows "finite {k. climb (parent_of ident par t) k i \<noteq> None}"
    and "finite {k. \<exists>i. climb (parent_of ident par t) k i = Some a}"
proof -
  have "{k. climb (parent_of ident par t) k i \<noteq> None} \<subseteq> {..length t}"
    "{k. \<exists>i. climb (parent_of ident par t) k i = Some a} \<subseteq> {..length t}"
    using forest_climb_bound [OF assms] by auto
  then show "finite {k. climb (parent_of ident par t) k i \<noteq> None}"
    "finite {k. \<exists>i. climb (parent_of ident par t) k i = Some a}"
    by (auto intro: finite_subset)
qed

lemma climb_le_depth:
  "forest ident par t \<Longrightarrow> climb (parent_of ident par t) k i = Some y \<Longrightarrow> k \<le> depth_of (parent_of ident par t) i"
  unfolding depth_of_def by (intro Max_ge finite_climbs(1)) auto

lemma climb_le_height:
  "forest ident par t \<Longrightarrow> climb (parent_of ident par t) k i = Some a \<Longrightarrow> k \<le> height_of (parent_of ident par t) a"
  unfolding height_of_def by (intro Max_ge finite_climbs(2)) auto

text \<open>A new row is one level below its parent.\<close>

lemma depth_of_new:
  assumes F: "forest ident par t" and new: "ident r \<notin> ident ` set t"
    and p: "par r = Some p" "p \<in> ident ` set t"
  shows "depth_of (parent_of ident par (t @ [r])) (ident r) = Suc (depth_of (parent_of ident par t) p)"
proof -
  let ?up = "parent_of ident par t"
  have d: "distinct (map ident (t @ [r]))" using F new by (simp add: forest_def)
  have out: "\<not> under ?up (ident r) p"
    using climb_closed [OF F p(2)] new by (auto simp: under_def)
  have "climb (?up(ident r \<mapsto> p)) k (ident r) \<noteq> None \<longleftrightarrow> k \<in> insert 0 (Suc ` {k. climb ?up k p \<noteq> None})" for k
    by (cases k) (auto simp: climb_upd_outside [OF out])
  then have "{k. climb (?up(ident r \<mapsto> p)) k (ident r) \<noteq> None} = insert 0 (Suc ` {k. climb ?up k p \<noteq> None})"
    by blast
  moreover have ne: "{k. climb ?up k p \<noteq> None} \<noteq> {}"
    by (metis (mono_tags) climb.simps(1) empty_iff mem_Collect_eq option.distinct(1))
  then have "Max (Suc ` {k. climb ?up k p \<noteq> None}) = Suc (Max {k. climb ?up k p \<noteq> None})"
    using finite_climbs(1) [OF F] by (intro mono_Max_commute [symmetric]) (auto simp: mono_Suc)
  ultimately show ?thesis
    using finite_climbs(1) [OF F] ne
    by (simp add: depth_of_def parent_of_append [OF d] p(1) del: climb.simps)
qed

section \<open>The interface of a table of trees\<close>

text \<open>
  A service that keeps its rows a forest: its invariant gives the clients that walk the trees
  queries that end, and the rows they return.
\<close>

locale forest_store =
  fixes inv :: "'s \<Rightarrow> bool"
    and rows :: "'s \<Rightarrow> 'r list"
    and ident :: "'r \<Rightarrow> uuid"
    and par :: "'r \<Rightarrow> uuid option"
  assumes rows_forest: "inv s \<Longrightarrow> forest ident par (rows s)"
begin

lemma row_by_id: "inv s \<Longrightarrow> r \<in> set (rows s) \<Longrightarrow> List.find (\<lambda>x. ident x = ident r) (rows s) = Some r"
  using rows_forest [of s] by (simp add: forest_def find_key)

lemma subtree_query:
  assumes "inv s" and "a \<in> set (rows s)"
  obtains L where "cte (join_down ident par (rows s)) (cte_fuel (rows s)) 0 [a] = Some L"
    and "\<And>r e. (r, e) \<in> set L \<longleftrightarrow>
      r \<in> set (rows s) \<and> climb (parent_of ident par (rows s)) e (ident r) = Some (ident a)"
    and "distinct (map (ident \<circ> fst) L)"
  using forest_cte_down [OF rows_forest [OF assms(1)] assms(2)] by blast

lemma ancestors_query:
  assumes "inv s" and "a \<in> set (rows s)"
  obtains L where "cte (join_up ident par (rows s)) (cte_fuel (rows s)) 0 [a] = Some L"
    and "\<And>r e. (r, e) \<in> set L \<longleftrightarrow>
      r \<in> set (rows s) \<and> climb (parent_of ident par (rows s)) e (ident a) = Some (ident r)"
  using forest_cte_up [OF rows_forest [OF assms(1)] assms(2)] by blast

lemma delete_query:
  "inv s \<Longrightarrow> set (cascade ident par D (rows s)) =
     {r \<in> set (rows s). \<not> (\<exists>a. D a \<and> under (parent_of ident par (rows s)) a (ident r))}"
  by (rule set_cascade [OF rows_forest])

end

end
