(* ===== verification/Entities.thy ===== *)
theory Entities
  imports Prelude
begin

text \<open>
  The rows of the database's tables (the entity classes under \<open>src/modules\<close>), their enums, and
  the domain events the services emit.  A column that is nullable is an \<open>option\<close>; a column the
  program writes from a \<open>Date\<close> is a \<open>js_date\<close>, one the database fills with \<open>now()\<close> is a
  \<open>pg_time\<close>.  Relations (\<open>project?: Project\<close>) are not columns and are left out.
\<close>

section \<open>Enums\<close>

datatype task_status = TODO | IN_PROGRESS | BLOCKED | DONE | CANCELLED

datatype task_priority = LOW | MEDIUM | HIGH | URGENT

datatype project_status = ACTIVE | ARCHIVED

datatype workspace_role = ADMIN | MEMBER

datatype invitation_status = INV_PENDING | INV_ACCEPTED | INV_EXPIRED | INV_REVOKED

datatype reminder_type = DUE_SOON | OVERDUE

datatype reminder_status = REM_PENDING | REM_SENT | REM_FAILED

datatype activity_action =
  CREATED | ASSIGNED | UNASSIGNED | STATUS_CHANGED | COMPLETED | COMMENTED | REPLIED

datatype notification_type =
  TASK_ASSIGNED | TASK_DUE_SOON | TASK_OVERDUE | TASK_COMPLETED | COMMENT_ADDED | COMMENT_REPLY |
  WORKSPACE_INVITE

text \<open>The string a status has in a response or in an activity's metadata.\<close>

fun status_text :: "task_status \<Rightarrow> string" where
  "status_text TODO = ''TODO''"
| "status_text IN_PROGRESS = ''IN_PROGRESS''"
| "status_text BLOCKED = ''BLOCKED''"
| "status_text DONE = ''DONE''"
| "status_text CANCELLED = ''CANCELLED''"

fun notification_type_text :: "notification_type \<Rightarrow> string" where
  "notification_type_text TASK_ASSIGNED = ''TASK_ASSIGNED''"
| "notification_type_text TASK_DUE_SOON = ''TASK_DUE_SOON''"
| "notification_type_text TASK_OVERDUE = ''TASK_OVERDUE''"
| "notification_type_text TASK_COMPLETED = ''TASK_COMPLETED''"
| "notification_type_text COMMENT_ADDED = ''COMMENT_ADDED''"
| "notification_type_text COMMENT_REPLY = ''COMMENT_REPLY''"
| "notification_type_text WORKSPACE_INVITE = ''WORKSPACE_INVITE''"

section \<open>Rows\<close>

record user =
  u_id :: uuid
  u_email :: string
  u_passwordHash :: string
  u_name :: string
  u_isActive :: bool
  u_createdAt :: pg_time
  u_updatedAt :: pg_time

record refresh_token =
  rt_id :: uuid
  rt_userId :: uuid
  rt_tokenHash :: string
  rt_familyId :: uuid
  rt_expiresAt :: js_date
  rt_revokedAt :: "js_date option"
  rt_userAgent :: "string option"
  rt_ip :: "string option"
  rt_createdAt :: pg_time

record workspace =
  w_id :: uuid
  w_name :: string
  w_slug :: string
  w_ownerId :: uuid
  w_createdAt :: pg_time
  w_updatedAt :: pg_time

record member =
  m_id :: uuid
  m_workspaceId :: uuid
  m_userId :: uuid
  m_role :: workspace_role
  m_joinedAt :: pg_time

record invitation =
  i_id :: uuid
  i_workspaceId :: uuid
  i_email :: string
  i_role :: workspace_role
  i_token :: string
  i_status :: invitation_status
  i_invitedBy :: uuid
  i_expiresAt :: js_date
  i_createdAt :: pg_time

record project =
  p_id :: uuid
  p_workspaceId :: uuid
  p_name :: string
  p_description :: "string option"
  p_status :: project_status
  p_createdBy :: uuid
  p_createdAt :: pg_time
  p_updatedAt :: pg_time

record task =
  t_id :: uuid
  t_projectId :: uuid
  t_parentTaskId :: "uuid option"
  t_title :: string
  t_description :: "string option"
  t_status :: task_status
  t_priority :: task_priority
  t_assigneeId :: "uuid option"
  t_createdBy :: uuid
  t_dueDate :: "js_date option"
  t_completedAt :: "js_date option"
  t_createdAt :: pg_time
  t_updatedAt :: pg_time

record comment =
  c_id :: uuid
  c_taskId :: uuid
  c_authorId :: uuid
  c_parentCommentId :: "uuid option"
  c_body :: string
  c_editedAt :: "js_date option"
  c_createdAt :: pg_time
  c_updatedAt :: pg_time

record task_activity =
  a_id :: uuid
  a_taskId :: uuid
  a_actorId :: "uuid option"
  a_action :: activity_action
  a_metadata :: "(string \<times> string) list"
  a_createdAt :: pg_time

record notification =
  n_id :: uuid
  n_recipientId :: uuid
  n_type :: notification_type
  n_title :: string
  n_body :: "string option"
  n_entityType :: "string option"
  n_entityId :: "uuid option"
  n_workspaceId :: "uuid option"
  n_isRead :: bool
  n_readAt :: "js_date option"
  n_createdAt :: pg_time

record reminder =
  r_id :: uuid
  r_taskId :: uuid
  r_type :: reminder_type
  r_scheduledFor :: js_date
  r_status :: reminder_status
  r_attempts :: nat
  r_sentAt :: "js_date option"
  r_createdAt :: pg_time

section \<open>Domain events\<close>

text \<open>
  \<open>TASK_ASSIGNED\<close> carries an assignee, \<open>TASK_COMPLETED\<close> the task's creator, a comment event the
  task's assignee: the emitters set them for the notification listeners.
\<close>

datatype domain_event =
    TaskCreated (ev_task: uuid) uuid uuid
  | TaskAssigned (ev_task: uuid) uuid uuid
  | TaskStatusChanged (ev_task: uuid) task_status task_status uuid
  | TaskCompleted (ev_task: uuid) uuid "uuid option"
  | CommentCreated uuid (ev_task: uuid) uuid "uuid option" "uuid option"
  | CommentReplied uuid (ev_task: uuid) uuid uuid uuid
  | NotificationCreated notification

end
