(* ===== verification/Database.thy ===== *)
theory Database
  imports Entities Forest JsText
begin

text \<open>
  The database: its tables (the migrations under \<open>src/database/migrations\<close>), what an insert or an
  update checks, what a delete takes with it, and the invariant of the program's data.  The
  invariant holds the schema's keys and references, and what the services keep beyond them.
\<close>

section \<open>Tables\<close>

text \<open>\<open>bus\<close> holds the domain events that were emitted and not yet handled by the listeners.\<close>

record app =
  users :: "user list"
  tokens :: "refresh_token list"
  workspaces :: "workspace list"
  members :: "member list"
  invitations :: "invitation list"
  projects :: "project list"
  tasks :: "task list"
  comments :: "comment list"
  activities :: "task_activity list"
  notifications :: "notification list"
  reminders :: "reminder list"
  bus :: "domain_event list"

definition empty_app :: app where
  "empty_app = \<lparr>users = [], tokens = [], workspaces = [], members = [], invitations = [],
     projects = [], tasks = [], comments = [], activities = [], notifications = [],
     reminders = [], bus = []\<rparr>"

definition emit :: "domain_event \<Rightarrow> app \<Rightarrow> app" where
  "emit e s = s\<lparr>bus := bus s @ [e]\<rparr>"

text \<open>Equality of \<open>citext\<close> values.\<close>

definition ci_eq :: "string \<Rightarrow> string \<Rightarrow> bool" where
  "ci_eq a b \<longleftrightarrow> toLowerCase a = toLowerCase b"

definition has_id :: "('r \<Rightarrow> uuid) \<Rightarrow> 'r list \<Rightarrow> uuid \<Rightarrow> bool" where
  "has_id ident t i \<longleftrightarrow> i \<in> set (map ident t)"

text \<open>A reference that may be null.\<close>

definition has_id_opt :: "('r \<Rightarrow> uuid) \<Rightarrow> 'r list \<Rightarrow> uuid option \<Rightarrow> bool" where
  "has_id_opt ident t i = (case i of None \<Rightarrow> True | Some x \<Rightarrow> has_id ident t x)"

section \<open>Writes\<close>

definition insert_user :: "user \<Rightarrow> app \<Rightarrow> db_error + app" where
  "insert_user r s = enforce
     [(length (u_passwordHash r) \<le> 255, ValueTooLong ''password_hash''),
      (length (u_name r) \<le> 255, ValueTooLong ''name''),
      (\<not> has_id u_id (users s) (u_id r), UniqueViolation ''users_pkey''),
      (\<not> exists_row (\<lambda>u. ci_eq (u_email u) (u_email r)) (users s), UniqueViolation ''UQ_users_email'')]
     (s\<lparr>users := users s @ [r]\<rparr>)"

definition insert_token :: "refresh_token \<Rightarrow> app \<Rightarrow> db_error + app" where
  "insert_token r s = enforce
     [(length (rt_tokenHash r) \<le> 64, ValueTooLong ''token_hash''),
      (case rt_userAgent r of None \<Rightarrow> True | Some a \<Rightarrow> length a \<le> 512, ValueTooLong ''user_agent''),
      (\<not> has_id rt_id (tokens s) (rt_id r), UniqueViolation ''refresh_tokens_pkey''),
      (\<not> exists_row (\<lambda>t. rt_tokenHash t = rt_tokenHash r) (tokens s),
         UniqueViolation ''UQ_refresh_tokens_token_hash''),
      (has_id u_id (users s) (rt_userId r), ForeignKeyViolation ''FK_refresh_tokens_user'')]
     (s\<lparr>tokens := tokens s @ [r]\<rparr>)"

definition insert_workspace :: "workspace \<Rightarrow> app \<Rightarrow> db_error + app" where
  "insert_workspace r s = enforce
     [(length (w_name r) \<le> 160, ValueTooLong ''name''),
      (\<not> has_id w_id (workspaces s) (w_id r), UniqueViolation ''workspaces_pkey''),
      (\<not> exists_row (\<lambda>w. ci_eq (w_slug w) (w_slug r)) (workspaces s),
         UniqueViolation ''UQ_workspaces_slug''),
      (has_id u_id (users s) (w_ownerId r), ForeignKeyViolation ''FK_workspaces_owner'')]
     (s\<lparr>workspaces := workspaces s @ [r]\<rparr>)"

definition insert_member :: "member \<Rightarrow> app \<Rightarrow> db_error + app" where
  "insert_member r s = enforce
     [(\<not> has_id m_id (members s) (m_id r), UniqueViolation ''workspace_members_pkey''),
      (\<not> exists_row (\<lambda>m. m_workspaceId m = m_workspaceId r \<and> m_userId m = m_userId r) (members s),
         UniqueViolation ''UQ_workspace_members_ws_user''),
      (has_id w_id (workspaces s) (m_workspaceId r), ForeignKeyViolation ''FK_workspace_members_workspace''),
      (has_id u_id (users s) (m_userId r), ForeignKeyViolation ''FK_workspace_members_user'')]
     (s\<lparr>members := members s @ [r]\<rparr>)"

definition insert_invitation :: "invitation \<Rightarrow> app \<Rightarrow> db_error + app" where
  "insert_invitation r s = enforce
     [(length (i_token r) \<le> 64, ValueTooLong ''token''),
      (\<not> has_id i_id (invitations s) (i_id r), UniqueViolation ''workspace_invitations_pkey''),
      (\<not> exists_row (\<lambda>i. i_token i = i_token r) (invitations s),
         UniqueViolation ''UQ_workspace_invitations_token''),
      (i_status r \<noteq> INV_PENDING \<or>
         \<not> exists_row (\<lambda>i. i_workspaceId i = i_workspaceId r \<and> ci_eq (i_email i) (i_email r) \<and>
             i_status i = INV_PENDING) (invitations s),
         UniqueViolation ''UQ_workspace_invitations_pending_email''),
      (has_id w_id (workspaces s) (i_workspaceId r),
         ForeignKeyViolation ''FK_workspace_invitations_workspace''),
      (has_id u_id (users s) (i_invitedBy r), ForeignKeyViolation ''FK_workspace_invitations_inviter'')]
     (s\<lparr>invitations := invitations s @ [r]\<rparr>)"

definition project_checks :: "project \<Rightarrow> app \<Rightarrow> (bool \<times> db_error) list" where
  "project_checks r s =
     [(length (p_name r) \<le> 160, ValueTooLong ''name''),
      (has_id w_id (workspaces s) (p_workspaceId r), ForeignKeyViolation ''FK_projects_workspace''),
      (has_id u_id (users s) (p_createdBy r), ForeignKeyViolation ''FK_projects_creator'')]"

definition insert_project :: "project \<Rightarrow> app \<Rightarrow> db_error + app" where
  "insert_project r s = enforce
     ((\<not> has_id p_id (projects s) (p_id r), UniqueViolation ''projects_pkey'') # project_checks r s)
     (s\<lparr>projects := projects s @ [r]\<rparr>)"

definition update_project :: "project \<Rightarrow> app \<Rightarrow> db_error + app" where
  "update_project r s = enforce (project_checks r s) (s\<lparr>projects := update_row p_id r (projects s)\<rparr>)"

definition task_checks :: "task \<Rightarrow> app \<Rightarrow> (bool \<times> db_error) list" where
  "task_checks r s =
     [(length (t_title r) \<le> 200, ValueTooLong ''title''),
      (t_parentTaskId r \<noteq> Some (t_id r), CheckViolation ''CHK_tasks_no_self_parent''),
      (has_id p_id (projects s) (t_projectId r), ForeignKeyViolation ''FK_tasks_project''),
      (has_id_opt t_id (tasks s) (t_parentTaskId r), ForeignKeyViolation ''FK_tasks_parent''),
      (has_id_opt u_id (users s) (t_assigneeId r), ForeignKeyViolation ''FK_tasks_assignee''),
      (has_id u_id (users s) (t_createdBy r), ForeignKeyViolation ''FK_tasks_creator'')]"

definition insert_task :: "task \<Rightarrow> app \<Rightarrow> db_error + app" where
  "insert_task r s = enforce
     ((\<not> has_id t_id (tasks s) (t_id r), UniqueViolation ''tasks_pkey'') # task_checks r s)
     (s\<lparr>tasks := tasks s @ [r]\<rparr>)"

definition update_task :: "task \<Rightarrow> app \<Rightarrow> db_error + app" where
  "update_task r s = enforce (task_checks r s) (s\<lparr>tasks := update_row t_id r (tasks s)\<rparr>)"

definition insert_comment :: "comment \<Rightarrow> app \<Rightarrow> db_error + app" where
  "insert_comment r s = enforce
     [(\<not> has_id c_id (comments s) (c_id r), UniqueViolation ''comments_pkey''),
      (c_parentCommentId r \<noteq> Some (c_id r), CheckViolation ''CHK_comments_no_self_parent''),
      (has_id t_id (tasks s) (c_taskId r), ForeignKeyViolation ''FK_comments_task''),
      (has_id u_id (users s) (c_authorId r), ForeignKeyViolation ''FK_comments_author''),
      (has_id_opt c_id (comments s) (c_parentCommentId r), ForeignKeyViolation ''FK_comments_parent'')]
     (s\<lparr>comments := comments s @ [r]\<rparr>)"

definition insert_activity :: "task_activity \<Rightarrow> app \<Rightarrow> db_error + app" where
  "insert_activity r s = enforce
     [(\<not> has_id a_id (activities s) (a_id r), UniqueViolation ''task_activity_pkey''),
      (has_id t_id (tasks s) (a_taskId r), ForeignKeyViolation ''FK_task_activity_task''),
      (has_id_opt u_id (users s) (a_actorId r), ForeignKeyViolation ''FK_task_activity_actor'')]
     (s\<lparr>activities := activities s @ [r]\<rparr>)"

definition insert_notification :: "notification \<Rightarrow> app \<Rightarrow> db_error + app" where
  "insert_notification r s = enforce
     [(length (n_title r) \<le> 200, ValueTooLong ''title''),
      (case n_entityType r of None \<Rightarrow> True | Some e \<Rightarrow> length e \<le> 40, ValueTooLong ''entity_type''),
      (\<not> has_id n_id (notifications s) (n_id r), UniqueViolation ''notifications_pkey''),
      (has_id u_id (users s) (n_recipientId r), ForeignKeyViolation ''FK_notifications_recipient''),
      (has_id_opt w_id (workspaces s) (n_workspaceId r), ForeignKeyViolation ''FK_notifications_workspace'')]
     (s\<lparr>notifications := notifications s @ [r]\<rparr>)"

text \<open>
  \<open>INSERT ... ON CONFLICT DO NOTHING RETURNING id\<close>: a row that conflicts with a unique constraint
  is not inserted and nothing is returned.
\<close>

definition insert_reminder_or_ignore :: "reminder \<Rightarrow> app \<Rightarrow> db_error + (uuid option \<times> app)" where
  "insert_reminder_or_ignore r s =
     (if has_id r_id (reminders s) (r_id r) \<or>
         exists_row (\<lambda>x. r_taskId x = r_taskId r \<and> r_type x = r_type r \<and>
           r_scheduledFor x = r_scheduledFor r) (reminders s)
      then Inr (None, s)
      else enforce
        [(has_id t_id (tasks s) (r_taskId r), ForeignKeyViolation ''FK_reminders_task'')]
        (Some (r_id r), s\<lparr>reminders := reminders s @ [r]\<rparr>))"

text \<open>Deletes, with what they cascade to.  Nothing refers to a comment but its replies.\<close>

definition delete_tasks :: "(uuid \<Rightarrow> bool) \<Rightarrow> app \<Rightarrow> app" where
  "delete_tasks D s =
     (let alive = cascade t_id t_parentTaskId D (tasks s);
          gone = (\<lambda>i. \<not> has_id t_id alive i)
      in s\<lparr>tasks := alive,
           comments := cascade c_id c_parentCommentId
             (\<lambda>i. exists_row (\<lambda>c. c_id c = i \<and> gone (c_taskId c)) (comments s)) (comments s),
           activities := filter (\<lambda>a. \<not> gone (a_taskId a)) (activities s),
           reminders := filter (\<lambda>r. \<not> gone (r_taskId r)) (reminders s)\<rparr>)"

definition delete_project :: "uuid \<Rightarrow> app \<Rightarrow> app" where
  "delete_project i s =
     delete_tasks (\<lambda>j. exists_row (\<lambda>t. t_id t = j \<and> t_projectId t = i) (tasks s))
       (s\<lparr>projects := filter (\<lambda>p. p_id p \<noteq> i) (projects s)\<rparr>)"

definition delete_comment :: "uuid \<Rightarrow> app \<Rightarrow> app" where
  "delete_comment i s =
     s\<lparr>comments := cascade c_id c_parentCommentId (\<lambda>j. j = i) (comments s)\<rparr>"

definition delete_member :: "uuid \<Rightarrow> app \<Rightarrow> app" where
  "delete_member i s = s\<lparr>members := filter (\<lambda>m. m_id m \<noteq> i) (members s)\<rparr>"

section \<open>The invariant of the data\<close>

definition users_ok :: "user list \<Rightarrow> bool" where
  "users_ok us \<longleftrightarrow> distinct (map u_id us) \<and> distinct (map (\<lambda>u. toLowerCase (u_email u)) us)"

text \<open>
  A refresh token that is not revoked is the only such token of its family; a family belongs to
  one user.
\<close>

definition live :: "refresh_token \<Rightarrow> bool" where
  "live t \<longleftrightarrow> rt_revokedAt t = None"

definition tokens_ok :: "user list \<Rightarrow> refresh_token list \<Rightarrow> bool" where
  "tokens_ok us ts \<longleftrightarrow>
     distinct (map rt_id ts) \<and> distinct (map rt_tokenHash ts) \<and>
     (\<forall>t \<in> set ts. has_id u_id us (rt_userId t)) \<and>
     (\<forall>t \<in> set ts. \<forall>t' \<in> set ts. rt_familyId t = rt_familyId t' \<longrightarrow>
        rt_userId t = rt_userId t' \<and> (live t \<longrightarrow> live t' \<longrightarrow> t = t'))"

definition workspaces_ok :: "user list \<Rightarrow> workspace list \<Rightarrow> bool" where
  "workspaces_ok us ws \<longleftrightarrow>
     distinct (map w_id ws) \<and> distinct (map (\<lambda>w. toLowerCase (w_slug w)) ws) \<and>
     (\<forall>w \<in> set ws. has_id u_id us (w_ownerId w))"

text \<open>Beyond the keys: the owner of a workspace is one of its members, and an ADMIN.\<close>

definition owner_is_admin :: "member list \<Rightarrow> workspace \<Rightarrow> bool" where
  "owner_is_admin ms w \<longleftrightarrow>
     exists_row (\<lambda>m. m_workspaceId m = w_id w \<and> m_userId m = w_ownerId w \<and> m_role m = ADMIN) ms"

definition members_ok :: "user list \<Rightarrow> workspace list \<Rightarrow> member list \<Rightarrow> bool" where
  "members_ok us ws ms \<longleftrightarrow>
     distinct (map m_id ms) \<and> distinct (map (\<lambda>m. (m_workspaceId m, m_userId m)) ms) \<and>
     (\<forall>m \<in> set ms. has_id w_id ws (m_workspaceId m) \<and> has_id u_id us (m_userId m)) \<and>
     (\<forall>w \<in> set ws. owner_is_admin ms w)"

definition pending_key :: "invitation \<Rightarrow> uuid \<times> string" where
  "pending_key i = (i_workspaceId i, toLowerCase (i_email i))"

definition invitations_ok :: "user list \<Rightarrow> workspace list \<Rightarrow> invitation list \<Rightarrow> bool" where
  "invitations_ok us ws is \<longleftrightarrow>
     distinct (map i_id is) \<and> distinct (map i_token is) \<and>
     distinct (map pending_key (filter (\<lambda>i. i_status i = INV_PENDING) is)) \<and>
     (\<forall>i \<in> set is. has_id w_id ws (i_workspaceId i) \<and> has_id u_id us (i_invitedBy i))"

definition projects_ok :: "user list \<Rightarrow> workspace list \<Rightarrow> project list \<Rightarrow> bool" where
  "projects_ok us ws ps \<longleftrightarrow>
     distinct (map p_id ps) \<and>
     (\<forall>p \<in> set ps. length (p_name p) \<le> 160 \<and> has_id w_id ws (p_workspaceId p) \<and>
        has_id u_id us (p_createdBy p))"

text \<open>
  Beyond the keys: subtasks form a forest, a subtask is in its parent's project, and a task has a
  completion date exactly when it is DONE.
\<close>

definition same_project :: "task list \<Rightarrow> bool" where
  "same_project ts \<longleftrightarrow>
     (\<forall>t \<in> set ts. \<forall>t' \<in> set ts. t_parentTaskId t = Some (t_id t') \<longrightarrow> t_projectId t = t_projectId t')"

definition completed_iff_done :: "task \<Rightarrow> bool" where
  "completed_iff_done t \<longleftrightarrow> (t_completedAt t \<noteq> None \<longleftrightarrow> t_status t = DONE)"

definition tasks_ok :: "user list \<Rightarrow> project list \<Rightarrow> task list \<Rightarrow> bool" where
  "tasks_ok us ps ts \<longleftrightarrow>
     forest t_id t_parentTaskId ts \<and> same_project ts \<and>
     (\<forall>t \<in> set ts. completed_iff_done t \<and> length (t_title t) \<le> 200 \<and> has_id p_id ps (t_projectId t) \<and>
        has_id_opt u_id us (t_assigneeId t) \<and> has_id u_id us (t_createdBy t))"

text \<open>Beyond the keys: replies form a forest, and a reply is on its parent's task.\<close>

definition same_task :: "comment list \<Rightarrow> bool" where
  "same_task cs \<longleftrightarrow>
     (\<forall>c \<in> set cs. \<forall>c' \<in> set cs. c_parentCommentId c = Some (c_id c') \<longrightarrow> c_taskId c = c_taskId c')"

definition comments_ok :: "user list \<Rightarrow> task list \<Rightarrow> comment list \<Rightarrow> bool" where
  "comments_ok us ts cs \<longleftrightarrow>
     forest c_id c_parentCommentId cs \<and> same_task cs \<and>
     (\<forall>c \<in> set cs. has_id t_id ts (c_taskId c) \<and> has_id u_id us (c_authorId c))"

definition activities_ok :: "user list \<Rightarrow> task list \<Rightarrow> task_activity list \<Rightarrow> bool" where
  "activities_ok us ts as \<longleftrightarrow>
     distinct (map a_id as) \<and>
     (\<forall>a \<in> set as. has_id t_id ts (a_taskId a) \<and> has_id_opt u_id us (a_actorId a))"

text \<open>Beyond the keys: a notification has a reading date exactly when it is read.\<close>

definition notifications_ok :: "user list \<Rightarrow> workspace list \<Rightarrow> notification list \<Rightarrow> bool" where
  "notifications_ok us ws ns \<longleftrightarrow>
     distinct (map n_id ns) \<and>
     (\<forall>n \<in> set ns. has_id u_id us (n_recipientId n) \<and> has_id_opt w_id ws (n_workspaceId n) \<and>
        (n_isRead n \<longleftrightarrow> n_readAt n \<noteq> None))"

text \<open>Beyond the keys: a reminder that was sent has a sending date, a pending one has none.\<close>

definition sent_dated :: "reminder \<Rightarrow> bool" where
  "sent_dated r \<longleftrightarrow>
     (r_status r = REM_SENT \<longrightarrow> r_sentAt r \<noteq> None) \<and> (r_status r = REM_PENDING \<longrightarrow> r_sentAt r = None)"

definition reminder_key :: "reminder \<Rightarrow> uuid \<times> reminder_type \<times> js_date" where
  "reminder_key r = (r_taskId r, r_type r, r_scheduledFor r)"

definition reminders_ok :: "task list \<Rightarrow> reminder list \<Rightarrow> bool" where
  "reminders_ok ts rs \<longleftrightarrow>
     distinct (map r_id rs) \<and> distinct (map reminder_key rs) \<and>
     (\<forall>r \<in> set rs. has_id t_id ts (r_taskId r) \<and> sent_dated r)"

definition app_ok :: "app \<Rightarrow> bool" where
  "app_ok s \<longleftrightarrow>
     users_ok (users s) \<and> tokens_ok (users s) (tokens s) \<and>
     workspaces_ok (users s) (workspaces s) \<and> members_ok (users s) (workspaces s) (members s) \<and>
     invitations_ok (users s) (workspaces s) (invitations s) \<and>
     projects_ok (users s) (workspaces s) (projects s) \<and>
     tasks_ok (users s) (projects s) (tasks s) \<and> comments_ok (users s) (tasks s) (comments s) \<and>
     activities_ok (users s) (tasks s) (activities s) \<and>
     notifications_ok (users s) (workspaces s) (notifications s) \<and>
     reminders_ok (tasks s) (reminders s)"

interpretation task_tree: forest_store app_ok tasks t_id t_parentTaskId
  by unfold_locales (simp add: app_ok_def tasks_ok_def)

interpretation comment_tree: forest_store app_ok comments c_id c_parentCommentId
  by unfold_locales (simp add: app_ok_def comments_ok_def)

lemma app_ok_empty: "app_ok empty_app"
  by (simp add: app_ok_def empty_app_def users_ok_def tokens_ok_def workspaces_ok_def members_ok_def
      invitations_ok_def projects_ok_def tasks_ok_def forest_def same_project_def comments_ok_def
      same_task_def activities_ok_def notifications_ok_def reminders_ok_def loopfree_def parent_of_def)

section \<open>Writes keep the invariant\<close>

lemma has_id_append [simp]: "has_id ident (t @ [r]) i \<longleftrightarrow> has_id ident t i \<or> i = ident r"
  by (auto simp: has_id_def)

lemma has_id_update_row [simp]: "has_id ident (update_row ident r t) i \<longleftrightarrow> has_id ident t i"
  by (simp only: has_id_def map_key_update_row)

lemma has_id_row [simp, intro]: "r \<in> set t \<Longrightarrow> has_id ident t (ident r)"
  by (simp add: has_id_def)

lemma has_id_image: "has_id ident t i \<longleftrightarrow> i \<in> ident ` set t"
  by (simp add: has_id_def)

lemma has_id_find: "has_id ident t i \<longleftrightarrow> List.find (\<lambda>r. ident r = i) t \<noteq> None"
  by (induction t) (auto simp: has_id_def)

lemma has_id_exists: "has_id ident t i \<longleftrightarrow> exists_row (\<lambda>r. ident r = i) t"
  by (auto simp: has_id_def exists_row_def)

lemma has_id_opt_mono:
  "has_id_opt ident t i \<Longrightarrow> (\<And>j. has_id ident t j \<Longrightarrow> has_id ident t' j) \<Longrightarrow> has_id_opt ident t' i"
  by (auto simp: has_id_opt_def split: option.splits)

lemma has_id_opt_Some [simp]: "has_id_opt ident t (Some i) = has_id ident t i"
  and has_id_opt_None [simp]: "has_id_opt ident t None"
  by (simp_all add: has_id_opt_def)

text \<open>References stay valid while the table they point to only grows.\<close>

lemma ok_mono_users:
  assumes "\<And>i. has_id u_id us i \<Longrightarrow> has_id u_id us' i"
  shows "tokens_ok us ts \<Longrightarrow> tokens_ok us' ts"
    and "workspaces_ok us ws \<Longrightarrow> workspaces_ok us' ws"
    and "members_ok us ws ms \<Longrightarrow> members_ok us' ws ms"
    and "invitations_ok us ws is \<Longrightarrow> invitations_ok us' ws is"
    and "projects_ok us ws ps \<Longrightarrow> projects_ok us' ws ps"
    and "tasks_ok us ps tks \<Longrightarrow> tasks_ok us' ps tks"
    and "comments_ok us tks cs \<Longrightarrow> comments_ok us' tks cs"
    and "activities_ok us tks as \<Longrightarrow> activities_ok us' tks as"
    and "notifications_ok us ws ns \<Longrightarrow> notifications_ok us' ws ns"
proof -
  note opt = has_id_opt_mono [OF _ assms]
  show "tokens_ok us ts \<Longrightarrow> tokens_ok us' ts" using assms unfolding tokens_ok_def by blast
  show "workspaces_ok us ws \<Longrightarrow> workspaces_ok us' ws" using assms unfolding workspaces_ok_def by blast
  show "members_ok us ws ms \<Longrightarrow> members_ok us' ws ms" using assms unfolding members_ok_def by blast
  show "invitations_ok us ws is \<Longrightarrow> invitations_ok us' ws is"
    using assms unfolding invitations_ok_def by blast
  show "projects_ok us ws ps \<Longrightarrow> projects_ok us' ws ps" using assms unfolding projects_ok_def by blast
  show "tasks_ok us ps tks \<Longrightarrow> tasks_ok us' ps tks" using assms opt unfolding tasks_ok_def by blast
  show "comments_ok us tks cs \<Longrightarrow> comments_ok us' tks cs" using assms unfolding comments_ok_def by blast
  show "activities_ok us tks as \<Longrightarrow> activities_ok us' tks as"
    using opt unfolding activities_ok_def by blast
  show "notifications_ok us ws ns \<Longrightarrow> notifications_ok us' ws ns"
    using assms unfolding notifications_ok_def by blast
qed

lemma ok_mono_workspaces:
  assumes "\<And>i. has_id w_id ws i \<Longrightarrow> has_id w_id ws' i"
  shows "invitations_ok us ws is \<Longrightarrow> invitations_ok us ws' is"
    and "projects_ok us ws ps \<Longrightarrow> projects_ok us ws' ps"
    and "notifications_ok us ws ns \<Longrightarrow> notifications_ok us ws' ns"
  using assms
  by (auto simp: invitations_ok_def projects_ok_def notifications_ok_def intro: has_id_opt_mono)

lemma ok_mono_projects:
  "(\<And>i. has_id p_id ps i \<Longrightarrow> has_id p_id ps' i) \<Longrightarrow> tasks_ok us ps tks \<Longrightarrow> tasks_ok us ps' tks"
  by (auto simp: tasks_ok_def)

lemma ok_mono_tasks:
  assumes "\<And>i. has_id t_id tks i \<Longrightarrow> has_id t_id tks' i"
  shows "comments_ok us tks cs \<Longrightarrow> comments_ok us tks' cs"
    and "activities_ok us tks as \<Longrightarrow> activities_ok us tks' as"
    and "reminders_ok tks rs \<Longrightarrow> reminders_ok tks' rs"
  using assms by (auto simp: comments_ok_def activities_ok_def reminders_ok_def)

lemma emit_ok [simp]: "app_ok (emit e s) = app_ok s"
  by (simp add: emit_def app_ok_def)

lemma emit_tables [simp]:
  "users (emit e s) = users s" "tokens (emit e s) = tokens s" "workspaces (emit e s) = workspaces s"
  "members (emit e s) = members s" "invitations (emit e s) = invitations s"
  "projects (emit e s) = projects s" "tasks (emit e s) = tasks s" "comments (emit e s) = comments s"
  "activities (emit e s) = activities s" "notifications (emit e s) = notifications s"
  "reminders (emit e s) = reminders s" "bus (emit e s) = bus s @ [e]"
  by (simp_all add: emit_def)

lemma emit_all_ok [simp]: "app_ok (fold emit es s) = app_ok s"
  by (induction es arbitrary: s) simp_all

lemma emit_all_tables [simp]:
  "tasks (fold emit es s) = tasks s" "bus (fold emit es s) = bus s @ es"
  "users (fold emit es s) = users s" "projects (fold emit es s) = projects s"
  by (induction es arbitrary: s) simp_all

lemma insert_user_ok:
  assumes "app_ok s" and "insert_user r s = Inr s'"
  shows "app_ok s'"
proof -
  have s': "s' = s\<lparr>users := users s @ [r]\<rparr>" and "users_ok (users s @ [r])"
    using assms
    by (simp_all add: insert_user_def has_id_exists ci_eq_def app_ok_def users_ok_def distinct_snoc del: map_append)
  moreover have "has_id u_id (users s) i \<Longrightarrow> has_id u_id (users s @ [r]) i" for i by simp
  note ok_mono_users [OF this]
  ultimately show ?thesis
    using assms(1) by (simp add: app_ok_def)
qed

text \<open>A token may be inserted live when no token of its family is live.\<close>

lemma insert_token_ok:
  assumes "app_ok s" and "insert_token r s = Inr s'"
    and fam: "\<And>t. t \<in> set (tokens s) \<Longrightarrow> rt_familyId t = rt_familyId r \<Longrightarrow>
      rt_userId t = rt_userId r \<and> \<not> live t"
  shows "app_ok s'"
proof -
  have old: "tokens_ok (users s) (tokens s)" using assms(1) by (simp add: app_ok_def)
  have s': "s' = s\<lparr>tokens := tokens s @ [r]\<rparr>"
    and keys: "distinct (map rt_id (tokens s @ [r]))" "distinct (map rt_tokenHash (tokens s @ [r]))"
    and fk: "has_id u_id (users s) (rt_userId r)"
    using assms(2) old by (simp_all add: insert_token_def tokens_ok_def has_id_exists distinct_snoc del: map_append)
  have "tokens_ok (users s) (tokens s @ [r])"
    unfolding tokens_ok_def
  proof (intro conjI ballI impI keys)
    show "has_id u_id (users s) (rt_userId t)" if "t \<in> set (tokens s @ [r])" for t
      using old fk that by (auto simp: tokens_ok_def)
    have pair: "rt_userId t = rt_userId t' \<and> (live t \<longrightarrow> live t' \<longrightarrow> t = t')"
      if "t \<in> set (tokens s)" "t' \<in> set (tokens s)" "rt_familyId t = rt_familyId t'" for t t'
      using old that unfolding tokens_ok_def by blast
    fix t t' assume t: "t \<in> set (tokens s @ [r])" "t' \<in> set (tokens s @ [r])" "rt_familyId t = rt_familyId t'"
    then have mem: "t = r \<or> t \<in> set (tokens s)" "t' = r \<or> t' \<in> set (tokens s)" by auto
    show "rt_userId t = rt_userId t'"
      using mem t(3) pair [of t t'] fam [of t] fam [of t'] by metis
    show "t = t'" if "live t" "live t'"
      using mem t(3) that pair [of t t'] fam [of t] fam [of t'] by metis
  qed
  then show ?thesis using assms(1) by (simp add: app_ok_def s')
qed

lemma insert_member_ok:
  assumes "app_ok s" and "insert_member r s = Inr s'"
  shows "app_ok s'"
proof -
  have old: "members_ok (users s) (workspaces s) (members s)" using assms(1) by (simp add: app_ok_def)
  have s': "s' = s\<lparr>members := members s @ [r]\<rparr>"
    and "distinct (map m_id (members s @ [r]))"
    and "distinct (map (\<lambda>m. (m_workspaceId m, m_userId m)) (members s @ [r]))"
    and fk: "has_id w_id (workspaces s) (m_workspaceId r)" "has_id u_id (users s) (m_userId r)"
    using assms(2) old
    by (simp_all add: insert_member_def members_ok_def has_id_exists distinct_snoc del: map_append)
  moreover have "owner_is_admin (members s) w \<Longrightarrow> owner_is_admin (members s @ [r]) w" for w
    by (auto simp: owner_is_admin_def exists_row_def)
  ultimately have "members_ok (users s) (workspaces s) (members s @ [r])"
    using old unfolding members_ok_def by (metis Un_iff set_append set_ConsD empty_set empty_iff)
  then show ?thesis using assms(1) by (simp add: app_ok_def s')
qed

lemma insert_invitation_ok:
  assumes "app_ok s" and "insert_invitation r s = Inr s'"
  shows "app_ok s'"
proof -
  have old: "invitations_ok (users s) (workspaces s) (invitations s)" using assms(1) by (simp add: app_ok_def)
  have s': "s' = s\<lparr>invitations := invitations s @ [r]\<rparr>"
    and keys: "distinct (map i_id (invitations s @ [r]))" "distinct (map i_token (invitations s @ [r]))"
    and fk: "has_id w_id (workspaces s) (i_workspaceId r)" "has_id u_id (users s) (i_invitedBy r)"
    and pend: "i_status r = INV_PENDING \<longrightarrow>
      \<not> exists_row (\<lambda>i. i_workspaceId i = i_workspaceId r \<and> ci_eq (i_email i) (i_email r) \<and>
             i_status i = INV_PENDING) (invitations s)"
    using assms(2) old
    by (simp_all add: insert_invitation_def invitations_ok_def has_id_exists distinct_snoc del: map_append)
  from pend old have "distinct (map pending_key (filter (\<lambda>i. i_status i = INV_PENDING) (invitations s @ [r])))"
    by (auto simp: invitations_ok_def exists_row_def pending_key_def ci_eq_def)
  with keys fk old have "invitations_ok (users s) (workspaces s) (invitations s @ [r])"
    by (auto simp: invitations_ok_def simp del: map_append filter_append)
  then show ?thesis using assms(1) by (simp add: app_ok_def s')
qed

lemma insert_project_ok:
  assumes "app_ok s" and "insert_project r s = Inr s'"
  shows "app_ok s'"
proof -
  have old: "projects_ok (users s) (workspaces s) (projects s)" using assms(1) by (simp add: app_ok_def)
  have s': "s' = s\<lparr>projects := projects s @ [r]\<rparr>" and "distinct (map p_id (projects s @ [r]))"
    and "has_id w_id (workspaces s) (p_workspaceId r)" "has_id u_id (users s) (p_createdBy r)"
      "length (p_name r) \<le> 160"
    using assms(2) old
    by (simp_all add: insert_project_def project_checks_def projects_ok_def has_id_exists distinct_snoc del: map_append)
  with old have "projects_ok (users s) (workspaces s) (projects s @ [r])"
    by (auto simp: projects_ok_def simp del: map_append)
  moreover have "has_id p_id (projects s) i \<Longrightarrow> has_id p_id (projects s @ [r]) i" for i by simp
  ultimately show ?thesis
    using assms(1) ok_mono_projects [of "projects s" "projects s @ [r]"] by (simp add: app_ok_def s')
qed

lemma update_project_ok:
  assumes "app_ok s" and "update_project r s = Inr s'"
  shows "app_ok s'"
proof -
  have old: "projects_ok (users s) (workspaces s) (projects s)" using assms(1) by (simp add: app_ok_def)
  let ?ps = "update_row p_id r (projects s)"
  have s': "s' = s\<lparr>projects := ?ps\<rparr>"
    and "has_id w_id (workspaces s) (p_workspaceId r)" "has_id u_id (users s) (p_createdBy r)"
      "length (p_name r) \<le> 160"
    using assms(2) by (simp_all add: update_project_def project_checks_def)
  with old have "projects_ok (users s) (workspaces s) ?ps"
    by (auto simp: projects_ok_def dest!: in_update_rowD)
  then show ?thesis
    using assms(1) ok_mono_projects [of "projects s" ?ps] by (simp add: app_ok_def s')
qed

lemma forest_parent_row:
  "forest ident par t \<Longrightarrow> r \<in> set t \<Longrightarrow> par r = Some p \<Longrightarrow> has_id ident t p"
  by (auto simp: forest_def has_id_def)

text \<open>
  Rows of one group (a project's tasks, a task's comments) and their parents: a new row whose
  parent is in its group keeps every parent in its child's group.
\<close>

lemma same_group_append:
  assumes F: "forest ident par t" and new: "\<not> has_id ident t (ident r)" "par r \<noteq> Some (ident r)"
    and old: "\<forall>x \<in> set t. \<forall>y \<in> set t. par x = Some (ident y) \<longrightarrow> grp x = grp y"
    and par: "\<And>y. y \<in> set t \<Longrightarrow> par r = Some (ident y) \<Longrightarrow> grp r = grp y"
  shows "\<forall>x \<in> set (t @ [r]). \<forall>y \<in> set (t @ [r]). par x = Some (ident y) \<longrightarrow> grp x = grp y"
proof (intro ballI impI)
  fix x y assume x: "x \<in> set (t @ [r])" and y: "y \<in> set (t @ [r])" and xy: "par x = Some (ident y)"
  have "x \<in> set t \<Longrightarrow> y \<noteq> r" using forest_parent_row [OF F, of x "ident y"] xy new(1) by auto
  then show "grp x = grp y" using x y xy old par new(2) by auto
qed

lemma same_group_update:
  assumes d: "distinct (map ident t)"
    and old: "\<forall>x \<in> set t. \<forall>y \<in> set t. par x = Some (ident y) \<longrightarrow> grp x = grp y"
    and o: "o' \<in> set t" "ident o' = ident r" "grp r = grp o'"
    and par: "\<And>y. y \<in> set t \<Longrightarrow> par r = Some (ident y) \<Longrightarrow> grp r = grp y"
  shows "\<forall>x \<in> set (update_row ident r t). \<forall>y \<in> set (update_row ident r t).
    par x = Some (ident y) \<longrightarrow> grp x = grp y"
proof (intro ballI impI)
  fix x y
  assume x: "x \<in> set (update_row ident r t)" and y: "y \<in> set (update_row ident r t)"
    and xy: "par x = Some (ident y)"
  obtain y' where y': "y' \<in> set t" "ident y' = ident y" "grp y' = grp y"
    using in_update_rowD [OF y] o by auto
  have "grp x = grp y'"
    using in_update_rowD [OF x] old par y' xy by auto
  with y' show "grp x = grp y" by simp
qed

lemma insert_task_ok:
  assumes ok: "app_ok s" and ins: "insert_task r s = Inr s'" and compl: "completed_iff_done r"
    and proj: "\<And>p. p \<in> set (tasks s) \<Longrightarrow> t_parentTaskId r = Some (t_id p) \<Longrightarrow> t_projectId r = t_projectId p"
  shows "app_ok s'"
proof -
  let ?ts = "tasks s @ [r]"
  have old: "tasks_ok (users s) (projects s) (tasks s)" using ok by (simp add: app_ok_def)
  have s': "s' = s\<lparr>tasks := ?ts\<rparr>" and new: "\<not> has_id t_id (tasks s) (t_id r)"
    and self: "t_parentTaskId r \<noteq> Some (t_id r)"
    and fk: "has_id p_id (projects s) (t_projectId r)" "has_id_opt t_id (tasks s) (t_parentTaskId r)"
      "has_id_opt u_id (users s) (t_assigneeId r)" "has_id u_id (users s) (t_createdBy r)"
      "length (t_title r) \<le> 200"
    using ins by (simp_all add: insert_task_def task_checks_def)
  have F: "forest t_id t_parentTaskId (tasks s)" using old by (simp add: tasks_ok_def)
  have "forest t_id t_parentTaskId ?ts"
    using new fk by (intro forest_append [OF F]) (auto simp: has_id_image)
  moreover have "same_project ?ts"
    unfolding same_project_def
    by (rule same_group_append [OF F new self]) (use old proj in \<open>simp_all add: same_project_def tasks_ok_def\<close>)
  ultimately have "tasks_ok (users s) (projects s) ?ts"
    using old fk compl by (simp add: tasks_ok_def)
  moreover have "has_id t_id (tasks s) i \<Longrightarrow> has_id t_id ?ts i" for i by simp
  note ok_mono_tasks [OF this]
  ultimately show ?thesis using ok by (simp add: app_ok_def s')
qed

lemma update_task_ok:
  assumes ok: "app_ok s" and upd: "update_task r s = Inr s'" and compl: "completed_iff_done r"
    and o: "o' \<in> set (tasks s)" "t_id o' = t_id r" "t_projectId o' = t_projectId r"
    and par: "t_parentTaskId r = t_parentTaskId o' \<or> t_parentTaskId r = None \<or>
      (\<exists>p \<in> set (tasks s). t_parentTaskId r = Some (t_id p) \<and> t_projectId p = t_projectId r \<and>
        \<not> under (parent_of t_id t_parentTaskId (tasks s)) (t_id r) (t_id p))"
  shows "app_ok s'"
proof -
  let ?ts = "update_row t_id r (tasks s)"
  have old: "tasks_ok (users s) (projects s) (tasks s)" using ok by (simp add: app_ok_def)
  have s': "s' = s\<lparr>tasks := ?ts\<rparr>"
    and fk: "has_id p_id (projects s) (t_projectId r)" "has_id_opt t_id (tasks s) (t_parentTaskId r)"
      "has_id_opt u_id (users s) (t_assigneeId r)" "has_id u_id (users s) (t_createdBy r)"
      "length (t_title r) \<le> 200"
    using upd by (simp_all add: update_task_def task_checks_def)
  have F: "forest t_id t_parentTaskId (tasks s)" using old by (simp add: tasks_ok_def)
  then have d: "distinct (map t_id (tasks s))" by (simp add: forest_def)
  have up: "parent_of t_id t_parentTaskId (tasks s) (t_id r) = t_parentTaskId o'"
    using parent_of_row [OF d o(1)] o(2) by simp
  have "forest t_id t_parentTaskId ?ts"
  proof (rule forest_update_row [OF F])
    show "t_id r \<in> t_id ` set (tasks s)" using o(1) by (metis image_eqI o(2))
    show "t_parentTaskId r = parent_of t_id t_parentTaskId (tasks s) (t_id r) \<or> t_parentTaskId r = None \<or>
      (\<exists>p \<in> t_id ` set (tasks s). t_parentTaskId r = Some p \<and>
        \<not> under (parent_of t_id t_parentTaskId (tasks s)) (t_id r) p)"
      using par unfolding up by blast
  qed
  moreover have "same_project ?ts"
    unfolding same_project_def
  proof (rule same_group_update [OF d _ o(1,2)])
    show grp: "\<forall>x \<in> set (tasks s). \<forall>y \<in> set (tasks s).
        t_parentTaskId x = Some (t_id y) \<longrightarrow> t_projectId x = t_projectId y"
      using old by (simp add: tasks_ok_def same_project_def)
    show "t_projectId r = t_projectId y" if "y \<in> set (tasks s)" "t_parentTaskId r = Some (t_id y)" for y
      using par that grp o distinct_key_eq [OF d that(1)] by (metis option.distinct(1) option.inject)
  qed (simp add: o)
  ultimately have "tasks_ok (users s) (projects s) ?ts"
    using old fk compl by (auto simp: tasks_ok_def dest!: in_update_rowD)
  moreover have "has_id t_id (tasks s) i \<Longrightarrow> has_id t_id ?ts i" for i by simp
  note ok_mono_tasks [OF this]
  ultimately show ?thesis using ok by (simp add: app_ok_def s')
qed

lemma insert_comment_ok:
  assumes ok: "app_ok s" and ins: "insert_comment r s = Inr s'"
    and grp: "\<And>p. p \<in> set (comments s) \<Longrightarrow> c_parentCommentId r = Some (c_id p) \<Longrightarrow> c_taskId r = c_taskId p"
  shows "app_ok s'"
proof -
  let ?cs = "comments s @ [r]"
  have old: "comments_ok (users s) (tasks s) (comments s)" using ok by (simp add: app_ok_def)
  have s': "s' = s\<lparr>comments := ?cs\<rparr>" and new: "\<not> has_id c_id (comments s) (c_id r)"
    and self: "c_parentCommentId r \<noteq> Some (c_id r)"
    and fk: "has_id t_id (tasks s) (c_taskId r)" "has_id u_id (users s) (c_authorId r)"
      "has_id_opt c_id (comments s) (c_parentCommentId r)"
    using ins by (simp_all add: insert_comment_def)
  have F: "forest c_id c_parentCommentId (comments s)" using old by (simp add: comments_ok_def)
  have "forest c_id c_parentCommentId ?cs"
    using new fk by (intro forest_append [OF F]) (auto simp: has_id_image)
  moreover have "same_task ?cs"
    unfolding same_task_def
    by (rule same_group_append [OF F new self]) (use old grp in \<open>simp_all add: same_task_def comments_ok_def\<close>)
  ultimately have "comments_ok (users s) (tasks s) ?cs"
    using old fk by (simp add: comments_ok_def)
  then show ?thesis using ok by (simp add: app_ok_def s')
qed

text \<open>A comment whose text changes keeps its place.\<close>

lemma update_comment_ok:
  assumes ok: "app_ok s" and o: "o' \<in> set (comments s)"
    and r: "c_id r = c_id o'" "c_taskId r = c_taskId o'" "c_authorId r = c_authorId o'"
      "c_parentCommentId r = c_parentCommentId o'"
  shows "app_ok (s\<lparr>comments := update_row c_id r (comments s)\<rparr>)"
proof -
  let ?cs = "update_row c_id r (comments s)"
  have old: "comments_ok (users s) (tasks s) (comments s)" using ok by (simp add: app_ok_def)
  then have F: "forest c_id c_parentCommentId (comments s)" by (simp add: comments_ok_def)
  then have d: "distinct (map c_id (comments s))" by (simp add: forest_def)
  have same: "x = o'" if "x \<in> set (comments s)" "c_id x = c_id r" for x
    using distinct_key_eq [OF d that(1) o] that(2) r by simp
  have "map c_parentCommentId ?cs = map c_parentCommentId (comments s)"
    by (rule map_update_row) (metis same r(4))
  with F have F': "forest c_id c_parentCommentId ?cs" by (intro forest_cong [OF F]) simp_all
  have grp: "\<forall>x \<in> set (comments s). \<forall>y \<in> set (comments s).
      c_parentCommentId x = Some (c_id y) \<longrightarrow> c_taskId x = c_taskId y"
    using old by (simp add: comments_ok_def same_task_def)
  have "same_task ?cs"
    unfolding same_task_def
    by (rule same_group_update [OF d grp o]) (use r grp o in simp_all)
  with F' old have "comments_ok (users s) (tasks s) ?cs"
    using o r by (auto simp: comments_ok_def dest!: in_update_rowD)
  then show ?thesis using ok by (simp add: app_ok_def)
qed

lemma insert_activity_ok:
  assumes ok: "app_ok s" and ins: "insert_activity r s = Inr s'"
  shows "app_ok s'"
proof -
  have old: "activities_ok (users s) (tasks s) (activities s)" using ok by (simp add: app_ok_def)
  have s': "s' = s\<lparr>activities := activities s @ [r]\<rparr>" and "distinct (map a_id (activities s @ [r]))"
    and "has_id t_id (tasks s) (a_taskId r)" "has_id_opt u_id (users s) (a_actorId r)"
    using ins old
    by (simp_all add: insert_activity_def activities_ok_def has_id_exists distinct_snoc del: map_append)
  with old have "activities_ok (users s) (tasks s) (activities s @ [r])"
    by (auto simp: activities_ok_def simp del: map_append)
  then show ?thesis using ok by (simp add: app_ok_def s')
qed

lemma insert_notification_ok:
  assumes ok: "app_ok s" and ins: "insert_notification r s = Inr s'"
    and rd: "n_isRead r \<longleftrightarrow> n_readAt r \<noteq> None"
  shows "app_ok s'"
proof -
  have old: "notifications_ok (users s) (workspaces s) (notifications s)" using ok by (simp add: app_ok_def)
  have s': "s' = s\<lparr>notifications := notifications s @ [r]\<rparr>" and "distinct (map n_id (notifications s @ [r]))"
    and "has_id u_id (users s) (n_recipientId r)" "has_id_opt w_id (workspaces s) (n_workspaceId r)"
    using ins old
    by (simp_all add: insert_notification_def notifications_ok_def has_id_exists distinct_snoc del: map_append)
  with old rd have "notifications_ok (users s) (workspaces s) (notifications s @ [r])"
    by (auto simp: notifications_ok_def simp del: map_append)
  then show ?thesis using ok by (simp add: app_ok_def s')
qed

lemma insert_reminder_ok:
  assumes ok: "app_ok s" and ins: "insert_reminder_or_ignore r s = Inr (i, s')" and dated: "sent_dated r"
  shows "app_ok s'"
proof (cases "s' = s")
  case False
  have old: "reminders_ok (tasks s) (reminders s)" using ok by (simp add: app_ok_def)
  have s': "s' = s\<lparr>reminders := reminders s @ [r]\<rparr>"
    and "distinct (map r_id (reminders s @ [r]))"
    and "distinct (map reminder_key (reminders s @ [r]))"
    and "has_id t_id (tasks s) (r_taskId r)"
    using ins old False
    by (simp_all add: insert_reminder_or_ignore_def reminders_ok_def has_id_exists distinct_snoc
        reminder_key_def del: map_append split: if_splits)
  with old dated have "reminders_ok (tasks s) (reminders s @ [r])"
    by (auto simp: reminders_ok_def simp del: map_append)
  then show ?thesis using ok by (simp add: app_ok_def s')
qed (use ok in simp)

lemma delete_comment_ok: "app_ok s \<Longrightarrow> app_ok (delete_comment i s)"
proof -
  assume ok: "app_ok s"
  then have old: "comments_ok (users s) (tasks s) (comments s)" by (simp add: app_ok_def)
  let ?cs = "cascade c_id c_parentCommentId (\<lambda>j. j = i) (comments s)"
  have sub: "set ?cs \<subseteq> set (comments s)" by (rule set_cascade_subset)
  have "forest c_id c_parentCommentId ?cs"
    using old by (intro forest_cascade) (simp add: comments_ok_def)
  moreover have "same_task ?cs" using old sub unfolding comments_ok_def same_task_def by blast
  ultimately have "comments_ok (users s) (tasks s) ?cs"
    using old sub unfolding comments_ok_def by blast
  then show "app_ok (delete_comment i s)" using ok by (simp add: app_ok_def delete_comment_def)
qed

text \<open>
  Deleting tasks: what is left refers to tasks that are left.  The projects may already be fewer,
  as long as no task that is left belongs to one that is gone.
\<close>

lemma delete_tasks_ok:
  assumes ok: "app_ok s" and ps: "projects_ok (users s) (workspaces s) ps"
    and alive: "\<And>t. t \<in> set (cascade t_id t_parentTaskId D (tasks s)) \<Longrightarrow> has_id p_id ps (t_projectId t)"
  shows "app_ok (delete_tasks D (s\<lparr>projects := ps\<rparr>))"
proof -
  let ?ts = "cascade t_id t_parentTaskId D (tasks s)"
  let ?s = "delete_tasks D (s\<lparr>projects := ps\<rparr>)"
  let ?D = "\<lambda>i. exists_row (\<lambda>c. c_id c = i \<and> \<not> has_id t_id ?ts (c_taskId c)) (comments s)"
  let ?cs = "cascade c_id c_parentCommentId ?D (comments s)"
  have T: "tasks_ok (users s) (projects s) (tasks s)" and C: "comments_ok (users s) (tasks s) (comments s)"
    using ok by (simp_all add: app_ok_def)
  have tsub: "set ?ts \<subseteq> set (tasks s)" and csub: "set ?cs \<subseteq> set (comments s)"
    by (rule set_cascade_subset)+
  have "forest t_id t_parentTaskId ?ts" using T by (intro forest_cascade) (simp add: tasks_ok_def)
  moreover have "same_project ?ts" using T tsub unfolding tasks_ok_def same_project_def by blast
  ultimately have T': "tasks_ok (users s) ps ?ts" using T tsub alive unfolding tasks_ok_def by blast
  have CF: "forest c_id c_parentCommentId (comments s)" using C by (simp add: comments_ok_def)
  have ctask: "has_id t_id ?ts (c_taskId c)" if "c \<in> set ?cs" for c
  proof (rule ccontr)
    assume "\<not> has_id t_id ?ts (c_taskId c)"
    with that csub have "?D (c_id c)" by (auto simp: exists_row_def)
    with that show False by (auto simp: set_cascade [OF CF])
  qed
  have "forest c_id c_parentCommentId ?cs" by (rule forest_cascade [OF CF])
  moreover have "same_task ?cs" using C csub unfolding comments_ok_def same_task_def by blast
  ultimately have C': "comments_ok (users s) ?ts ?cs" using C csub ctask unfolding comments_ok_def by blast
  have A': "activities_ok (users s) ?ts (filter (\<lambda>a. has_id t_id ?ts (a_taskId a)) (activities s))"
    using ok by (simp add: app_ok_def activities_ok_def distinct_map_filterI)
  have R': "reminders_ok ?ts (filter (\<lambda>r. has_id t_id ?ts (r_taskId r)) (reminders s))"
    using ok by (simp add: app_ok_def reminders_ok_def distinct_map_filterI)
  show ?thesis using ok ps T' C' A' R' by (simp add: app_ok_def delete_tasks_def Let_def)
qed

lemma delete_task_rows_ok: "app_ok s \<Longrightarrow> app_ok (delete_tasks D s)"
  using delete_tasks_ok [of s "projects s" D] set_cascade_subset [of t_id t_parentTaskId D "tasks s"]
  by (auto simp: app_ok_def tasks_ok_def)

lemma delete_project_ok: "app_ok s \<Longrightarrow> app_ok (delete_project i s)"
proof -
  assume ok: "app_ok s"
  let ?ps = "filter (\<lambda>p. p_id p \<noteq> i) (projects s)"
  let ?D = "\<lambda>j. exists_row (\<lambda>t. t_id t = j \<and> t_projectId t = i) (tasks s)"
  have F: "forest t_id t_parentTaskId (tasks s)" using ok by (simp add: app_ok_def tasks_ok_def)
  have "app_ok (delete_tasks ?D (s\<lparr>projects := ?ps\<rparr>))"
  proof (rule delete_tasks_ok [OF ok])
    show "projects_ok (users s) (workspaces s) ?ps"
      using ok by (simp add: app_ok_def projects_ok_def distinct_map_filterI)
    fix t assume t: "t \<in> set (cascade t_id t_parentTaskId ?D (tasks s))"
    then have "t \<in> set (tasks s)" and nD: "\<not> ?D (t_id t)" by (auto simp: set_cascade [OF F])
    then have "t_projectId t \<noteq> i" by (auto simp: exists_row_def)
    moreover have "has_id p_id (projects s) (t_projectId t)"
      using ok \<open>t \<in> set (tasks s)\<close> by (simp add: app_ok_def tasks_ok_def)
    ultimately show "has_id p_id ?ps (t_projectId t)" by (auto simp: has_id_def)
  qed
  then show "app_ok (delete_project i s)" by (simp add: delete_project_def)
qed

section \<open>What a delete takes with it\<close>

lemma group_climb:
  assumes F: "forest ident par t"
    and grp: "\<forall>x \<in> set t. \<forall>y \<in> set t. par x = Some (ident y) \<longrightarrow> grp x = grp y"
  shows "x \<in> set t \<Longrightarrow> y \<in> set t \<Longrightarrow> climb (parent_of ident par t) k (ident x) = Some (ident y) \<Longrightarrow> grp x = grp y"
proof (induction k arbitrary: x)
  case 0
  then show ?case using distinct_key_eq [of ident t x y] F by (simp add: forest_def)
next
  case (Suc k)
  have d: "distinct (map ident t)" using F by (simp add: forest_def)
  from Suc.prems obtain p where p: "par x = Some p" "climb (parent_of ident par t) k p = Some (ident y)"
    by (auto simp: parent_of_row [OF d] split: option.splits)
  from forest_parent_row [OF F Suc.prems(1) p(1)] obtain z where z: "z \<in> set t" "ident z = p"
    by (auto simp: has_id_def)
  with p grp Suc.prems(1) have "grp x = grp z" by auto
  with Suc.IH [OF z(1) Suc.prems(2)] p(2) z show ?case by simp
qed

text \<open>The deleted task, its subtasks, and exactly the comments on them.\<close>

lemma set_delete_tasks:
  assumes ok: "app_ok s"
  shows "set (tasks (delete_tasks D s)) =
      {t \<in> set (tasks s). \<not> (\<exists>a. D a \<and> under (parent_of t_id t_parentTaskId (tasks s)) a (t_id t))}"
    and "set (comments (delete_tasks D s)) =
      {c \<in> set (comments s). has_id t_id (tasks (delete_tasks D s)) (c_taskId c)}"
    and "set (activities (delete_tasks D s)) =
      {a \<in> set (activities s). has_id t_id (tasks (delete_tasks D s)) (a_taskId a)}"
    and "set (reminders (delete_tasks D s)) =
      {r \<in> set (reminders s). has_id t_id (tasks (delete_tasks D s)) (r_taskId r)}"
proof -
  let ?ts = "cascade t_id t_parentTaskId D (tasks s)"
  let ?up = "parent_of c_id c_parentCommentId (comments s)"
  let ?D = "\<lambda>i. exists_row (\<lambda>c. c_id c = i \<and> \<not> has_id t_id ?ts (c_taskId c)) (comments s)"
  have CF: "forest c_id c_parentCommentId (comments s)" and ct: "same_task (comments s)"
    using ok by (simp_all add: app_ok_def comments_ok_def)
  show "set (tasks (delete_tasks D s)) =
      {t \<in> set (tasks s). \<not> (\<exists>a. D a \<and> under (parent_of t_id t_parentTaskId (tasks s)) a (t_id t))}"
    by (simp add: delete_tasks_def Let_def task_tree.delete_query [OF ok])
  have "(\<exists>a. ?D a \<and> under ?up a (c_id c)) \<longleftrightarrow> \<not> has_id t_id ?ts (c_taskId c)" if c: "c \<in> set (comments s)" for c
  proof
    assume "\<exists>a. ?D a \<and> under ?up a (c_id c)"
    then obtain a where a: "a \<in> set (comments s)" "\<not> has_id t_id ?ts (c_taskId a)" "under ?up (c_id a) (c_id c)"
      by (auto simp: exists_row_def)
    then have "c_taskId c = c_taskId a"
      using group_climb [OF CF _ c a(1)] ct by (auto simp: under_def same_task_def)
    with a show "\<not> has_id t_id ?ts (c_taskId c)" by simp
  qed (use c in \<open>auto simp: exists_row_def intro!: exI [of _ "c_id c"]\<close>)
  then show "set (comments (delete_tasks D s)) =
      {c \<in> set (comments s). has_id t_id (tasks (delete_tasks D s)) (c_taskId c)}"
    by (auto simp: delete_tasks_def Let_def comment_tree.delete_query [OF ok])
qed (auto simp: delete_tasks_def Let_def)

lemma delete_tasks_other [simp]:
  "users (delete_tasks D s) = users s" "tokens (delete_tasks D s) = tokens s"
  "workspaces (delete_tasks D s) = workspaces s" "members (delete_tasks D s) = members s"
  "invitations (delete_tasks D s) = invitations s" "projects (delete_tasks D s) = projects s"
  "notifications (delete_tasks D s) = notifications s" "bus (delete_tasks D s) = bus s"
  by (simp_all add: delete_tasks_def Let_def)

text \<open>Deleting a project deletes its tasks and no other.\<close>

lemma set_delete_project:
  assumes ok: "app_ok s"
  shows "set (projects (delete_project i s)) = {p \<in> set (projects s). p_id p \<noteq> i}"
    and "set (tasks (delete_project i s)) = {t \<in> set (tasks s). t_projectId t \<noteq> i}"
proof -
  have F: "forest t_id t_parentTaskId (tasks s)" and sp: "same_project (tasks s)"
    using ok by (simp_all add: app_ok_def tasks_ok_def)
  let ?up = "parent_of t_id t_parentTaskId (tasks s)"
  let ?D = "\<lambda>j. exists_row (\<lambda>t. t_id t = j \<and> t_projectId t = i) (tasks s)"
  show "set (projects (delete_project i s)) = {p \<in> set (projects s). p_id p \<noteq> i}"
    by (simp add: delete_project_def)
  have "(\<exists>a. ?D a \<and> under ?up a (t_id t)) \<longleftrightarrow> t_projectId t = i" if t: "t \<in> set (tasks s)" for t
  proof
    assume "\<exists>a. ?D a \<and> under ?up a (t_id t)"
    then obtain a where a: "a \<in> set (tasks s)" "t_projectId a = i" "under ?up (t_id a) (t_id t)"
      by (auto simp: exists_row_def)
    then show "t_projectId t = i"
      using group_climb [OF F _ t a(1)] sp by (auto simp: under_def same_project_def)
  qed (use t in \<open>auto simp: exists_row_def intro!: exI [of _ "t_id t"]\<close>)
  then show "set (tasks (delete_project i s)) = {t \<in> set (tasks s). t_projectId t \<noteq> i}"
    by (auto simp: delete_project_def delete_tasks_def Let_def set_cascade [OF F])
qed

end
