(* ===== verification/Example.thy ===== *)
theory Example
  imports Database
begin

text \<open>
  A small database that satisfies the invariant, at which the properties are applied: two users, a
  workspace owned by the first, a project with three tasks (\<open>t2\<close> is a subtask of \<open>t1\<close>, \<open>t3\<close> is
  assigned to the second user), a comment and its reply, a session, an invitation and an inbox.
\<close>

definition ex_task :: "uuid \<Rightarrow> uuid option \<Rightarrow> uuid option \<Rightarrow> task" where
  "ex_task i par assignee =
     \<lparr>t_id = i, t_projectId = ''p1'', t_parentTaskId = par, t_title = ''task'', t_description = None,
      t_status = TODO, t_priority = MEDIUM, t_assigneeId = assignee, t_createdBy = ''u1'',
      t_dueDate = None, t_completedAt = None, t_createdAt = 0, t_updatedAt = 0\<rparr>"

definition ex_comment :: "uuid \<Rightarrow> uuid option \<Rightarrow> comment" where
  "ex_comment i par =
     \<lparr>c_id = i, c_taskId = ''t1'', c_authorId = ''u2'', c_parentCommentId = par, c_body = ''ok'',
      c_editedAt = None, c_createdAt = 0, c_updatedAt = 0\<rparr>"

definition ex_token :: refresh_token where
  "ex_token = \<lparr>rt_id = ''k1'', rt_userId = ''u1'', rt_tokenHash = ''secret'', rt_familyId = ''f1'',
     rt_expiresAt = 1000, rt_revokedAt = None, rt_userAgent = None, rt_ip = None, rt_createdAt = 0\<rparr>"

definition ex_invitation :: invitation where
  "ex_invitation = \<lparr>i_id = ''i1'', i_workspaceId = ''w1'', i_email = ''c@x'', i_role = MEMBER,
     i_token = ''tok'', i_status = INV_PENDING, i_invitedBy = ''u1'', i_expiresAt = 1000, i_createdAt = 0\<rparr>"

definition ex_notification :: notification where
  "ex_notification = \<lparr>n_id = ''n1'', n_recipientId = ''u2'', n_type = TASK_ASSIGNED, n_title = ''hi'',
     n_body = None, n_entityType = Some ''task'', n_entityId = Some ''t3'', n_workspaceId = None,
     n_isRead = False, n_readAt = None, n_createdAt = 0\<rparr>"

definition ex_user :: "uuid \<Rightarrow> string \<Rightarrow> user" where
  "ex_user i email = \<lparr>u_id = i, u_email = email, u_passwordHash = ''pw'', u_name = ''name'',
     u_isActive = True, u_createdAt = 0, u_updatedAt = 0\<rparr>"

definition ex_app :: app where
  "ex_app = empty_app\<lparr>
     users := [ex_user ''u1'' ''a@x'', ex_user ''u2'' ''b@x'', ex_user ''u3'' ''c@x''],
     tokens := [ex_token],
     workspaces := [\<lparr>w_id = ''w1'', w_name = ''W'', w_slug = ''w'', w_ownerId = ''u1'',
                     w_createdAt = 0, w_updatedAt = 0\<rparr>],
     members := [\<lparr>m_id = ''m1'', m_workspaceId = ''w1'', m_userId = ''u1'', m_role = ADMIN, m_joinedAt = 0\<rparr>,
                 \<lparr>m_id = ''m2'', m_workspaceId = ''w1'', m_userId = ''u2'', m_role = MEMBER, m_joinedAt = 0\<rparr>],
     invitations := [ex_invitation],
     projects := [\<lparr>p_id = ''p1'', p_workspaceId = ''w1'', p_name = ''P'', p_description = None,
                   p_status = ACTIVE, p_createdBy = ''u1'', p_createdAt = 0, p_updatedAt = 0\<rparr>],
     tasks := [ex_task ''t1'' None None, ex_task ''t2'' (Some ''t1'') None, ex_task ''t3'' None (Some ''u2'')],
     comments := [ex_comment ''c1'' None, ex_comment ''c2'' (Some ''c1'')],
     notifications := [ex_notification]\<rparr>"

lemmas ex_defs = ex_task_def ex_comment_def ex_token_def ex_invitation_def ex_notification_def ex_user_def

lemma ex_app_tables [simp]:
  "users ex_app = [ex_user ''u1'' ''a@x'', ex_user ''u2'' ''b@x'', ex_user ''u3'' ''c@x'']"
  "tokens ex_app = [ex_token]"
  "tasks ex_app = [ex_task ''t1'' None None, ex_task ''t2'' (Some ''t1'') None, ex_task ''t3'' None (Some ''u2'')]"
  "comments ex_app = [ex_comment ''c1'' None, ex_comment ''c2'' (Some ''c1'')]"
  "notifications ex_app = [ex_notification]" "activities ex_app = []" "reminders ex_app = []"
  "invitations ex_app = [ex_invitation]" "bus ex_app = []"
  by (simp_all add: ex_app_def empty_app_def)

text \<open>Rows listed parents first form a forest.\<close>

lemma forest_rank:
  fixes rank :: "uuid \<Rightarrow> nat"
  assumes "distinct (map ident t)"
    and "\<And>r p. r \<in> set t \<Longrightarrow> par r = Some p \<Longrightarrow> p \<in> ident ` set t \<and> rank p < rank (ident r)"
  shows "forest ident par t"
  unfolding forest_def
proof (intro conjI ballI allI impI assms(1))
  show "loopfree (parent_of ident par t)"
    using assms by (intro loopfree_rank [of _ rank]) (auto simp: parent_of_Some_iff)
qed (use assms(2) in blast)

lemma ex_app_ok: "app_ok ex_app"
proof -
  have "forest t_id t_parentTaskId (tasks ex_app)"
    by (rule forest_rank [of _ _ _ "\<lambda>i. if i = ''t2'' then 1 else 0"]) (auto simp: ex_defs)
  moreover have "forest c_id c_parentCommentId (comments ex_app)"
    by (rule forest_rank [of _ _ _ "\<lambda>i. if i = ''c2'' then 1 else 0"]) (auto simp: ex_defs)
  ultimately show ?thesis
    by (simp add: app_ok_def ex_app_def empty_app_def users_ok_def tokens_ok_def workspaces_ok_def
        members_ok_def owner_is_admin_def exists_row_def invitations_ok_def projects_ok_def tasks_ok_def
        same_project_def completed_iff_done_def comments_ok_def same_task_def activities_ok_def
        notifications_ok_def reminders_ok_def ex_defs has_id_def has_id_opt_def toLowerCase_def
        lower_char_def is_upper_char_def code_of_def)
qed

end
