(* ===== verification/Projects.thy ===== *)
theory Projects
  imports Example Pagination
begin

text \<open>
  \<open>ProjectsService\<close> (\<open>src/modules/projects/projects.service.ts\<close>): the projects of a workspace.  Every
  operation but \<open>create\<close> and \<open>list\<close> goes through \<open>findOneOrFail\<close>, which looks the project up in the
  workspace of the route.
\<close>

record create_project_dto =
  cp_name :: string
  cp_description :: "string option"

record update_project_dto =
  up_name :: "string patch"
  up_description :: "string patch"
  up_status :: "project_status patch"

section \<open>Operations\<close>

text \<open>\<open>nid\<close> is the id the database generates, \<open>now\<close> the time of the request.\<close>

definition ProjectsService_create ::
    "uuid \<Rightarrow> uuid \<Rightarrow> create_project_dto \<Rightarrow> uuid \<Rightarrow> pg_time \<Rightarrow> (app, project) svc" where
  "ProjectsService_create workspaceId createdBy dto nid now =
     (let project = \<lparr>p_id = nid, p_workspaceId = workspaceId, p_name = cp_name dto,
                     p_description = cp_description dto, p_status = ACTIVE, p_createdBy = createdBy,
                     p_createdAt = now, p_updatedAt = now\<rparr>
      in bindM (writes (insert_project project)) (\<lambda>_. ret project))"

definition projects_scope :: "uuid \<Rightarrow> project_status option \<Rightarrow> app \<Rightarrow> project list" where
  "projects_scope workspaceId status s =
     filter (\<lambda>p. p_workspaceId p = workspaceId \<and> (case status of None \<Rightarrow> True | Some st \<Rightarrow> p_status p = st))
       (projects s)"

definition ProjectsService_list ::
    "casts \<Rightarrow> uuid \<Rightarrow> project_status option \<Rightarrow> nat option \<Rightarrow> string option \<Rightarrow> (app, project page) svc" where
  "ProjectsService_list cs workspaceId status lim cursor =
     reads (\<lambda>s. keyset_page cs p_createdAt p_id lim cursor (projects_scope workspaceId status s))"

definition ProjectsService_findOneOrFail :: "uuid \<Rightarrow> uuid \<Rightarrow> (app, project) svc" where
  "ProjectsService_findOneOrFail workspaceId projectId =
     reads (\<lambda>s. case List.find (\<lambda>p. p_id p = projectId \<and> p_workspaceId p = workspaceId) (projects s) of
                  None \<Rightarrow> Inl (NotFound ''Project not found'')
                | Some p \<Rightarrow> Inr p)"

text \<open>\<open>save\<close> of a loaded row writes it only when a column changed, and then renews \<open>updated_at\<close>.\<close>

definition save_project :: "pg_time \<Rightarrow> project \<Rightarrow> project \<Rightarrow> (app, project) svc" where
  "save_project now old new =
     (if new = old then ret old
      else let r = new\<lparr>p_updatedAt := now\<rparr> in bindM (writes (update_project r)) (\<lambda>_. ret r))"

definition ProjectsService_update ::
    "uuid \<Rightarrow> uuid \<Rightarrow> update_project_dto \<Rightarrow> pg_time \<Rightarrow> (app, project) svc" where
  "ProjectsService_update workspaceId projectId dto now =
     bindM (ProjectsService_findOneOrFail workspaceId projectId) (\<lambda>project.
     bindM (writes (enforce [null_check (up_name dto) ''name'', null_check (up_status dto) ''status''])) (\<lambda>_.
     save_project now project
       (project\<lparr>p_name := assign (up_name dto) (p_name project),
                p_description := assign_opt (up_description dto) (p_description project),
                p_status := assign (up_status dto) (p_status project)\<rparr>)))"

definition ProjectsService_remove :: "uuid \<Rightarrow> uuid \<Rightarrow> (app, unit) svc" where
  "ProjectsService_remove workspaceId projectId =
     bindM (ProjectsService_findOneOrFail workspaceId projectId) (\<lambda>project. modifies (delete_project (p_id project)))"

section \<open>Lemmas\<close>

named_theorems svc_ok \<open>service calls that keep the invariant of the data\<close>

lemma ProjectsService_findOneOrFail_Inr:
  "ProjectsService_findOneOrFail w i s = (Inr p, s') \<longleftrightarrow>
     s' = s \<and> List.find (\<lambda>p. p_id p = i \<and> p_workspaceId p = w) (projects s) = Some p"
  by (auto simp: ProjectsService_findOneOrFail_def split: option.splits)

lemma ProjectsService_findOneOrFail_Inl:
  "ProjectsService_findOneOrFail w i s = (Inl e, s') \<longleftrightarrow>
     s' = s \<and> e = NotFound ''Project not found'' \<and>
     (\<forall>p \<in> set (projects s). \<not> (p_id p = i \<and> p_workspaceId p = w))"
  by (auto simp: ProjectsService_findOneOrFail_def find_None_iff2 split: option.splits dest!: find_SomeD)

lemma ProjectsService_findOneOrFail_row:
  "ProjectsService_findOneOrFail w i s = (Inr p, s') \<Longrightarrow>
     s' = s \<and> p \<in> set (projects s) \<and> p_id p = i \<and> p_workspaceId p = w"
  by (auto simp: ProjectsService_findOneOrFail_Inr dest: find_SomeD)

lemma ProjectsService_findOneOrFail_ok [svc_ok]: "keeps app_ok (ProjectsService_findOneOrFail w i)"
  unfolding ProjectsService_findOneOrFail_def by (rule keeps_reads)

lemma save_project_ok [svc_ok]: "keeps app_ok (save_project now old new)"
  unfolding save_project_def Let_def
  by (intro keeps_intros keeps_writes) (rule update_project_ok)

lemma ProjectsService_create_ok [svc_ok]: "keeps app_ok (ProjectsService_create w u dto nid now)"
  unfolding ProjectsService_create_def Let_def
  by (intro keeps_intros keeps_writes) (rule insert_project_ok)

lemma ProjectsService_update_ok [svc_ok]: "keeps app_ok (ProjectsService_update w i dto now)"
  unfolding ProjectsService_update_def
  by (intro keeps_intros svc_ok keeps_writes) auto

lemma ProjectsService_remove_ok [svc_ok]: "keeps app_ok (ProjectsService_remove w i)"
  unfolding ProjectsService_remove_def
  by (intro keeps_intros svc_ok keeps_modifies) (rule delete_project_ok)

interpretation project_feed: paged_feed cs p_createdAt p_id app_ok "\<lambda>_ _. None"
    "\<lambda>s (w, status). projects_scope w status s"
    "\<lambda>s (w, status) lim c. fst (ProjectsService_list cs w status lim c s)"
  for cs
proof
  fix s :: app and q
  assume "app_ok s"
  then show "distinct (map p_id (case q of (w, status) \<Rightarrow> projects_scope w status s))"
    by (auto simp: projects_scope_def app_ok_def projects_ok_def distinct_map_filterI split: prod.split)
qed (auto simp: ProjectsService_list_def reads_def)

section \<open>Properties\<close>

text \<open>
  Deleting a project deletes that project, its tasks at every level and what hangs on them, and
  nothing of another project: no task, comment or activity entry of another project is lost to the
  cascades.
\<close>

theorem ProjectsService_remove_exact:
  assumes "app_ok s" and "ProjectsService_remove w i s = (Inr (), s')"
  shows "set (projects s') = {p \<in> set (projects s). p_id p \<noteq> i} \<and>
    set (tasks s') = {t \<in> set (tasks s). t_projectId t \<noteq> i} \<and>
    set (comments s') = {c \<in> set (comments s). has_id t_id (tasks s') (c_taskId c)} \<and>
    set (activities s') = {a \<in> set (activities s). has_id t_id (tasks s') (a_taskId a)}"
proof -
  have s': "s' = delete_project i s"
    using assms(2) by (auto simp: ProjectsService_remove_def bindM_Inr_iff dest!: ProjectsService_findOneOrFail_row)
  let ?D = "\<lambda>j. exists_row (\<lambda>t. t_id t = j \<and> t_projectId t = i) (tasks s)"
  have same: "comments s' = comments (delete_tasks ?D s)" "activities s' = activities (delete_tasks ?D s)"
    "tasks s' = tasks (delete_tasks ?D s)"
    by (simp_all add: s' delete_project_def delete_tasks_def Let_def)
  show ?thesis
    using set_delete_project [OF assms(1), of i] set_delete_tasks(2,3) [OF assms(1), of ?D]
    by (simp add: s' [symmetric] same [symmetric])
qed

lemma ex_project_remove: "ProjectsService_remove ''w1'' ''p1'' ex_app = (Inr (), delete_project ''p1'' ex_app)"
  by (simp add: ProjectsService_remove_def ProjectsService_findOneOrFail_def bindM_def reads_def modifies_def ex_app_def)

theorem ProjectsService_remove_exact_witness:
  "set (projects (delete_project ''p1'' ex_app)) = {p \<in> set (projects ex_app). p_id p \<noteq> ''p1''} \<and>
    set (tasks (delete_project ''p1'' ex_app)) = {t \<in> set (tasks ex_app). t_projectId t \<noteq> ''p1''} \<and>
    set (comments (delete_project ''p1'' ex_app)) =
      {c \<in> set (comments ex_app). has_id t_id (tasks (delete_project ''p1'' ex_app)) (c_taskId c)} \<and>
    set (activities (delete_project ''p1'' ex_app)) =
      {a \<in> set (activities ex_app). has_id t_id (tasks (delete_project ''p1'' ex_app)) (a_taskId a)}"
  by (rule ProjectsService_remove_exact [OF ex_app_ok ex_project_remove])

text \<open>How an update of a project may end.\<close>

definition project_update_outcome ::
    "uuid \<Rightarrow> uuid \<Rightarrow> update_project_dto \<Rightarrow> app \<Rightarrow> project res \<times> app \<Rightarrow> bool" where
  "project_update_outcome w i dto s out =
     (case out of
        (Inl (NotFound _), s') \<Rightarrow>
          s' = s \<and> \<not> exists_row (\<lambda>p. p_id p = i \<and> p_workspaceId p = w) (projects s)
      | (Inl e, s') \<Rightarrow> s' = s \<and> (\<exists>d. e = QueryFailed d) \<and>
          (up_name dto = Null \<or> up_status dto = Null \<or> (\<exists>n. up_name dto = Val n \<and> 160 < length n))
      | (Inr r, s') \<Rightarrow> s' = s\<lparr>projects := update_row p_id r (projects s)\<rparr> \<and>
          (\<exists>p \<in> set (projects s). p_id p = i \<and> p_workspaceId p = w \<and>
             r = p\<lparr>p_name := assign (up_name dto) (p_name p),
                   p_description := assign_opt (up_description dto) (p_description p),
                   p_status := assign (up_status dto) (p_status p), p_updatedAt := p_updatedAt r\<rparr>))"

text \<open>
  An update of a project changes the columns it was given and no other row or column, fails with
  404 and changes nothing when the project is not in the workspace, and when a name or status of
  \<open>null\<close>, which the validator lets through, meets the column that may not be null, fails in the
  database (a 500) and changes nothing.
\<close>

theorem ProjectsService_update_outcome:
  assumes "app_ok s"
  shows "project_update_outcome w i dto s (ProjectsService_update w i dto now s)"
proof (cases "List.find (\<lambda>p. p_id p = i \<and> p_workspaceId p = w) (projects s)")
  case None
  then show ?thesis
    by (simp add: ProjectsService_update_def ProjectsService_findOneOrFail_def bindM_def reads_def exists_row_find project_update_outcome_def)
next
  case (Some p)
  then have p: "p \<in> set (projects s)" "p_id p = i" "p_workspaceId p = w" by (auto dest: find_SomeD)
  note found = ProjectsService_update_def ProjectsService_findOneOrFail_def bindM_def reads_def Some
  let ?new = "p\<lparr>p_name := assign (up_name dto) (p_name p),
      p_description := assign_opt (up_description dto) (p_description p),
      p_status := assign (up_status dto) (p_status p)\<rparr>"
  show ?thesis
  proof (cases "up_name dto = Null \<or> up_status dto = Null")
    case True
    then show ?thesis by (auto simp: project_update_outcome_def found writes_def null_check_def enforce.simps)
  next
    case False
    then have upd: "ProjectsService_update w i dto now s = save_project now p ?new s"
      by (simp add: found writes_def null_check_def enforce.simps)
    show ?thesis
    proof (cases "?new = p")
      case True
      moreover have "update_row p_id p (projects s) = projects s"
        using assms p(1) by (intro update_row_id distinct_key_eq [of p_id "projects s"]) (simp_all add: app_ok_def projects_ok_def)
      ultimately show ?thesis
        using p by (auto simp: project_update_outcome_def upd save_project_def ret_def)
    next
      case changed: False
      let ?r = "?new\<lparr>p_updatedAt := now\<rparr>"
      have fk: "has_id w_id (workspaces s) (p_workspaceId p)" "has_id u_id (users s) (p_createdBy p)"
          "length (p_name p) \<le> 160"
        using assms p(1) by (auto simp: app_ok_def projects_ok_def)
      have run: "ProjectsService_update w i dto now s =
          (case update_project ?r s of Inl e \<Rightarrow> (Inl (QueryFailed e), s) | Inr s' \<Rightarrow> (Inr ?r, s'))"
        using changed by (simp add: upd save_project_def Let_def bindM_def writes_def ret_def split: sum.split)
      show ?thesis
      proof (cases "160 < length (p_name ?r)")
        case True
        then show ?thesis
          using fk by (cases "up_name dto") (auto simp: project_update_outcome_def run update_project_def project_checks_def enforce.simps)
      next
        case False
        then have "update_project ?r s = Inr (s\<lparr>projects := update_row p_id ?r (projects s)\<rparr>)"
          using fk by (simp add: update_project_def project_checks_def)
        then show ?thesis using p by (auto simp: project_update_outcome_def run)
      qed
    qed
  qed
qed

theorem ProjectsService_update_outcome_witness:
  "project_update_outcome ''w1'' ''p1'' \<lparr>up_name = Val ''New'', up_description = Null, up_status = Undef\<rparr> ex_app
     (ProjectsService_update ''w1'' ''p1'' \<lparr>up_name = Val ''New'', up_description = Null, up_status = Undef\<rparr> 5 ex_app)"
  by (rule ProjectsService_update_outcome [OF ex_app_ok])

end
