(* ===== verification/Tasks.thy ===== *)
theory Tasks
  imports Projects
begin

text \<open>
  \<open>TasksService\<close> (\<open>src/modules/tasks/tasks.service.ts\<close>): the tasks of a project and their subtasks.
  The two recursive queries are \<open>cte\<close> over the table's rows; \<open>getSubtree\<close> is modelled with the
  objects it links, held in a store addressed by the keys of its \<open>Map\<close>.
\<close>

record create_task_dto =
  ct_title :: string
  ct_description :: "string option"
  ct_priority :: "task_priority option"
  ct_assigneeId :: "uuid option"
  ct_dueDate :: "js_date option"
  ct_parentTaskId :: "uuid option"

record update_task_dto =
  ut_title :: "string patch"
  ut_description :: "string patch"
  ut_status :: "task_status patch"
  ut_priority :: "task_priority patch"
  ut_assigneeId :: "uuid patch"
  ut_dueDate :: "js_date patch"

record list_tasks_query =
  lt_status :: "task_status option"
  lt_priority :: "task_priority option"
  lt_assigneeId :: "uuid option"
  lt_parentTaskId :: "uuid option"
  lt_topLevel :: bool

definition MAX_DEPTH :: nat where
  "MAX_DEPTH = 5"

section \<open>Create, list, find\<close>

definition tasks_find_in_project :: "uuid \<Rightarrow> uuid \<Rightarrow> http_error \<Rightarrow> (app, task) svc" where
  "tasks_find_in_project projectId taskId e =
     reads (\<lambda>s. case List.find (\<lambda>t. t_id t = taskId \<and> t_projectId t = projectId) (tasks s) of
                  None \<Rightarrow> Inl e | Some t \<Rightarrow> Inr t)"

definition TasksService_create ::
    "uuid \<Rightarrow> uuid \<Rightarrow> uuid \<Rightarrow> create_task_dto \<Rightarrow> uuid \<Rightarrow> pg_time \<Rightarrow> (app, task) svc" where
  "TasksService_create workspaceId projectId createdBy dto nid now =
     bindM (ProjectsService_findOneOrFail workspaceId projectId) (\<lambda>_.
     bindM (if truthy (ct_parentTaskId dto)
            then bindM (tasks_find_in_project projectId (the (ct_parentTaskId dto))
                   (BadRequest ''Parent task not found in this project'')) (\<lambda>_. ret ())
            else ret ()) (\<lambda>_.
     let task = \<lparr>t_id = nid, t_projectId = projectId, t_parentTaskId = ct_parentTaskId dto,
                  t_title = ct_title dto, t_description = ct_description dto, t_status = TODO,
                  t_priority = (case ct_priority dto of None \<Rightarrow> MEDIUM | Some p \<Rightarrow> p),
                  t_assigneeId = ct_assigneeId dto, t_createdBy = createdBy,
                  t_dueDate = ct_dueDate dto, t_completedAt = None, t_createdAt = now, t_updatedAt = now\<rparr>
     in bindM (writes (insert_task task)) (\<lambda>_.
        bindM (modifies (emit (TaskCreated (t_id task) projectId createdBy))) (\<lambda>_.
        bindM (if truthy (t_assigneeId task)
               then modifies (emit (TaskAssigned (t_id task) (the (t_assigneeId task)) createdBy))
               else ret ()) (\<lambda>_.
        ret task)))))"

definition tasks_scope :: "uuid \<Rightarrow> list_tasks_query \<Rightarrow> app \<Rightarrow> task list" where
  "tasks_scope projectId q s =
     filter (\<lambda>t. t_projectId t = projectId \<and>
       (case lt_status q of None \<Rightarrow> True | Some st \<Rightarrow> t_status t = st) \<and>
       (case lt_priority q of None \<Rightarrow> True | Some pr \<Rightarrow> t_priority t = pr) \<and>
       (truthy (lt_assigneeId q) \<longrightarrow> t_assigneeId t = lt_assigneeId q) \<and>
       (if truthy (lt_parentTaskId q) then t_parentTaskId t = lt_parentTaskId q
        else lt_topLevel q \<longrightarrow> t_parentTaskId t = None)) (tasks s)"

definition TasksService_list ::
    "casts \<Rightarrow> uuid \<Rightarrow> uuid \<Rightarrow> list_tasks_query \<Rightarrow> nat option \<Rightarrow> string option \<Rightarrow> (app, task page) svc" where
  "TasksService_list cs workspaceId projectId q lim cursor =
     bindM (ProjectsService_findOneOrFail workspaceId projectId) (\<lambda>_.
     reads (\<lambda>s. keyset_page cs t_createdAt t_id lim cursor (tasks_scope projectId q s)))"

definition TasksService_findOneOrFail :: "uuid \<Rightarrow> uuid \<Rightarrow> uuid \<Rightarrow> (app, task) svc" where
  "TasksService_findOneOrFail workspaceId projectId taskId =
     bindM (ProjectsService_findOneOrFail workspaceId projectId) (\<lambda>_.
     tasks_find_in_project projectId taskId (NotFound ''Task not found''))"

section \<open>Update and remove\<close>

definition save_task :: "pg_time \<Rightarrow> task \<Rightarrow> task \<Rightarrow> (app, task) svc" where
  "save_task now old new =
     (if new = old then ret old
      else let r = new\<lparr>t_updatedAt := now\<rparr> in bindM (writes (update_task r)) (\<lambda>_. ret r))"

text \<open>The columns an update changes; \<open>completedAt\<close> follows a status that is given.\<close>

definition apply_update :: "update_task_dto \<Rightarrow> js_date \<Rightarrow> task \<Rightarrow> task" where
  "apply_update dto date task =
     task\<lparr>t_title := assign (ut_title dto) (t_title task),
          t_description := assign_opt (ut_description dto) (t_description task),
          t_priority := assign (ut_priority dto) (t_priority task),
          t_assigneeId := assign_opt (ut_assigneeId dto) (t_assigneeId task),
          t_dueDate := assign_opt (ut_dueDate dto) (t_dueDate task),
          t_status := assign (ut_status dto) (t_status task),
          t_completedAt := (if ut_status dto = Undef then t_completedAt task
                            else if ut_status dto = Val DONE then Some date else None)\<rparr>"

definition update_events :: "update_task_dto \<Rightarrow> uuid \<Rightarrow> task \<Rightarrow> task \<Rightarrow> domain_event list" where
  "update_events dto actorId task saved =
     (if ut_assigneeId dto \<noteq> Undef \<and> patch_opt (ut_assigneeId dto) \<noteq> t_assigneeId task \<and> truthy (t_assigneeId saved)
      then [TaskAssigned (t_id saved) (the (t_assigneeId saved)) actorId] else []) @
     (if ut_status dto \<noteq> Undef \<and> ut_status dto \<noteq> Val (t_status task)
      then TaskStatusChanged (t_id saved) (t_status task) (t_status saved) actorId #
           (if t_status saved = DONE
            then [TaskCompleted (t_id saved) actorId (Some (t_createdBy saved))] else [])
      else [])"

definition TasksService_update ::
    "uuid \<Rightarrow> uuid \<Rightarrow> uuid \<Rightarrow> uuid \<Rightarrow> update_task_dto \<Rightarrow> pg_time \<Rightarrow> (app, task) svc" where
  "TasksService_update workspaceId projectId taskId actorId dto now =
     bindM (TasksService_findOneOrFail workspaceId projectId taskId) (\<lambda>task.
     bindM (writes (enforce [null_check (ut_title dto) ''title'', null_check (ut_status dto) ''status'',
                             null_check (ut_priority dto) ''priority''])) (\<lambda>_.
     bindM (save_task now task (apply_update dto (to_js now) task)) (\<lambda>saved.
     bindM (modifies (fold emit (update_events dto actorId task saved))) (\<lambda>_.
     ret saved))))"

definition TasksService_remove :: "uuid \<Rightarrow> uuid \<Rightarrow> uuid \<Rightarrow> (app, unit) svc" where
  "TasksService_remove workspaceId projectId taskId =
     bindM (TasksService_findOneOrFail workspaceId projectId taskId) (\<lambda>task.
     modifies (delete_tasks (\<lambda>i. i = t_id task)))"

section \<open>The recursive queries\<close>

text \<open>A query that does not end is cut off by the database.\<close>

definition run_cte :: "(app \<Rightarrow> (task \<times> nat) list option) \<Rightarrow> (app, (task \<times> nat) list) svc" where
  "run_cte query = reads (\<lambda>s. case query s of None \<Rightarrow> Inl (QueryFailed StatementTimeout) | Some rows \<Rightarrow> Inr rows)"

definition cte_descendants :: "uuid \<Rightarrow> app \<Rightarrow> (task \<times> nat) list option" where
  "cte_descendants taskId s =
     cte (join_down t_id t_parentTaskId (tasks s)) (cte_fuel (tasks s)) 0
       (filter (\<lambda>t. t_id t = taskId) (tasks s))"

definition cte_ancestors :: "uuid \<Rightarrow> app \<Rightarrow> (task \<times> nat) list option" where
  "cte_ancestors taskId s =
     cte (join_up t_id t_parentTaskId (tasks s)) (cte_fuel (tasks s)) 0
       (filter (\<lambda>t. t_id t = taskId) (tasks s))"

definition max_depth :: "(task \<times> nat) list \<Rightarrow> nat" where
  "max_depth rows = foldl max 0 (map snd rows)"

definition TasksService_depthOf :: "uuid \<Rightarrow> (app, nat) svc" where
  "TasksService_depthOf taskId = bindM (run_cte (cte_ancestors taskId)) (\<lambda>rows. ret (max_depth rows))"

section \<open>moveTask\<close>

definition TasksService_moveTask :: "uuid \<Rightarrow> uuid \<Rightarrow> uuid \<Rightarrow> uuid option \<Rightarrow> pg_time \<Rightarrow> (app, task) svc" where
  "TasksService_moveTask workspaceId projectId taskId newParent now =
     bindM (TasksService_findOneOrFail workspaceId projectId taskId) (\<lambda>task.
     case newParent of
       None \<Rightarrow> save_task now task (task\<lparr>t_parentTaskId := None\<rparr>)
     | Some newParentId \<Rightarrow>
         bindM (guardM (newParentId \<noteq> taskId) (BadRequest ''A task cannot be its own parent'')) (\<lambda>_.
         bindM (tasks_find_in_project projectId newParentId
                  (BadRequest ''New parent task not found in this project'')) (\<lambda>_.
         bindM (run_cte (cte_descendants taskId)) (\<lambda>descendants.
         bindM (guardM (\<not> list_ex (\<lambda>d. t_id (fst d) = newParentId) descendants)
                  (BadRequest ''Cannot move a task underneath its own descendant (would create a cycle)'')) (\<lambda>_.
         let subtreeHeight = max_depth descendants in
         bindM (TasksService_depthOf newParentId) (\<lambda>parentDepth.
         bindM (guardM (\<not> MAX_DEPTH < parentDepth + 1 + subtreeHeight)
                  (BadRequest ''Maximum nesting depth of 5 would be exceeded'')) (\<lambda>_.
         save_task now task (task\<lparr>t_parentTaskId := Some newParentId\<rparr>))))))))"

section \<open>getSubtree\<close>

text \<open>
  A node object of the \<open>Map\<close>: its children are references, which the keys of the \<open>Map\<close> stand for.
  \<open>subtree\<close> is the nested value the response is made of.
\<close>

record node =
  nd_id :: uuid
  nd_title :: string
  nd_status :: task_status
  nd_priority :: task_priority
  nd_assigneeId :: "uuid option"
  nd_dueDate :: "js_date option"
  nd_depth :: nat
  nd_children :: "uuid list"

type_synonym heap = "uuid \<Rightarrow> node option"

datatype subtree = Subtree (st_node: node) (st_children: "subtree list")

definition new_node :: "task \<times> nat \<Rightarrow> node" where
  "new_node rd = (case rd of (r, d) \<Rightarrow>
     \<lparr>nd_id = t_id r, nd_title = t_title r, nd_status = t_status r, nd_priority = t_priority r,
      nd_assigneeId = t_assigneeId r, nd_dueDate = t_dueDate r, nd_depth = d, nd_children = []\<rparr>)"

definition create_nodes :: "(task \<times> nat) list \<Rightarrow> heap" where
  "create_nodes rows = foldl (\<lambda>h rd. h(t_id (fst rd) \<mapsto> new_node rd)) Map.empty rows"

definition push_child :: "heap \<Rightarrow> uuid \<Rightarrow> uuid \<Rightarrow> heap" where
  "push_child h p i =
     (case h p of None \<Rightarrow> h | Some n \<Rightarrow> h(p \<mapsto> n\<lparr>nd_children := nd_children n @ [i]\<rparr>))"

definition link_node :: "uuid \<Rightarrow> heap \<times> uuid option \<Rightarrow> task \<times> nat \<Rightarrow> heap \<times> uuid option" where
  "link_node taskId st rd =
     (case st of (h, root) \<Rightarrow>
        if t_id (fst rd) = taskId then (h, Some (t_id (fst rd)))
        else if truthy (t_parentTaskId (fst rd))
        then (push_child h (the (t_parentTaskId (fst rd))) (t_id (fst rd)), root)
        else (h, root))"

text \<open>Reading the objects off the store, from a node down; the fuel bounds the depth, and no node is
  deeper than the deepest row.\<close>

fun materialise :: "nat \<Rightarrow> heap \<Rightarrow> uuid \<Rightarrow> subtree option" where
  "materialise 0 h i = None"
| "materialise (Suc n) h i =
     (case h i of
        None \<Rightarrow> None
      | Some nd \<Rightarrow> map_option (Subtree nd) (those (map (materialise n h) (nd_children nd))))"

definition cte_subtree :: "uuid \<Rightarrow> uuid \<Rightarrow> app \<Rightarrow> (task \<times> nat) list option" where
  "cte_subtree projectId taskId s =
     map_option (sort_key (\<lambda>rd. (snd rd, t_id (fst rd))))
       (cte (join_down t_id t_parentTaskId (tasks s)) (cte_fuel (tasks s)) 0
         (filter (\<lambda>t. t_id t = taskId \<and> t_projectId t = projectId) (tasks s)))"

definition TasksService_getSubtree :: "uuid \<Rightarrow> uuid \<Rightarrow> uuid \<Rightarrow> (app, subtree option) svc" where
  "TasksService_getSubtree workspaceId projectId taskId =
     bindM (TasksService_findOneOrFail workspaceId projectId taskId) (\<lambda>_.
     bindM (run_cte (cte_subtree projectId taskId)) (\<lambda>rows.
     let (h, root) = foldl (link_node taskId) (create_nodes rows, None) rows
     in ret (Option.bind root (materialise (Suc (max_depth rows)) h))))"

section \<open>What the queries return\<close>

abbreviation task_up :: "app \<Rightarrow> uuid \<Rightarrow> uuid option" where
  "task_up s \<equiv> parent_of t_id t_parentTaskId (tasks s)"

lemma app_ok_tasks:
  assumes "app_ok s"
  shows "forest t_id t_parentTaskId (tasks s)" "distinct (map t_id (tasks s))" "same_project (tasks s)"
    "t \<in> set (tasks s) \<Longrightarrow> completed_iff_done t"
  using assms by (auto simp: app_ok_def tasks_ok_def forest_def)

lemma filter_by_id: "distinct (map ident t) \<Longrightarrow> r \<in> set t \<Longrightarrow> filter (\<lambda>x. ident x = ident r) t = [r]"
  by (induction t) (auto simp: filter_empty_conv rev_image_eqI)

lemma max_depth_Max: "rows \<noteq> [] \<Longrightarrow> max_depth rows = Max (snd ` set rows)"
proof -
  have "(\<lambda>x y. max y x) = (max :: nat \<Rightarrow> nat \<Rightarrow> nat)" by (intro ext) (rule max.commute)
  then have *: "foldl max m xs = Max (insert m (set xs))" for m :: nat and xs
    using Max.set_eq_fold [of m xs] by (simp add: foldl_conv_fold)
  show "rows \<noteq> [] \<Longrightarrow> max_depth rows = Max (snd ` set rows)"
    by (simp add: max_depth_def *)
qed

text \<open>The descendants of a task: every task under it, and the height of its subtree.\<close>

lemma cte_descendants_spec:
  assumes ok: "app_ok s" and a: "a \<in> set (tasks s)"
  obtains L where "cte_descendants (t_id a) s = Some L"
    and "\<And>q. list_ex (\<lambda>d. t_id (fst d) = q) L \<longleftrightarrow> has_id t_id (tasks s) q \<and> under (task_up s) (t_id a) q"
    and "max_depth L = height_of (task_up s) (t_id a)"
proof -
  obtain L where L: "cte (join_down t_id t_parentTaskId (tasks s)) (cte_fuel (tasks s)) 0 [a] = Some L"
    and mem: "\<And>r e. (r, e) \<in> set L \<longleftrightarrow> r \<in> set (tasks s) \<and> climb (task_up s) e (t_id r) = Some (t_id a)"
    by (rule task_tree.subtree_query [OF ok a]) (rule that)
  have "cte_descendants (t_id a) s = Some L"
    using L by (simp add: cte_descendants_def filter_by_id [OF app_ok_tasks(2) [OF ok] a])
  moreover have "list_ex (\<lambda>d. t_id (fst d) = q) L \<longleftrightarrow> has_id t_id (tasks s) q \<and> under (task_up s) (t_id a) q" for q
    by (auto simp: list_ex_iff Bex_def mem under_def has_id_def)
  moreover have "snd ` set L = {k. \<exists>i. climb (task_up s) k i = Some (t_id a)}"
  proof -
    have "k \<in> snd ` set L" if c: "climb (task_up s) k i = Some (t_id a)" for k i
    proof -
      obtain r where "(r, k) \<in> set L" using climb_from_row [OF c] a c by (auto simp: mem)
      then show ?thesis by force
    qed
    then show ?thesis by (auto simp: mem)
  qed
  moreover have "L \<noteq> []" using a mem [of a 0] by auto
  ultimately show ?thesis
    using that max_depth_Max [of L] by (simp add: height_of_def)
qed

lemma cte_ancestors_spec:
  assumes ok: "app_ok s" and a: "a \<in> set (tasks s)"
  obtains L where "cte_ancestors (t_id a) s = Some L"
    and "max_depth L = depth_of (task_up s) (t_id a)"
proof -
  obtain L where L: "cte (join_up t_id t_parentTaskId (tasks s)) (cte_fuel (tasks s)) 0 [a] = Some L"
    and mem: "\<And>r e. (r, e) \<in> set L \<longleftrightarrow> r \<in> set (tasks s) \<and> climb (task_up s) e (t_id a) = Some (t_id r)"
    by (rule task_tree.ancestors_query [OF ok a]) (rule that)
  have "cte_ancestors (t_id a) s = Some L"
    using L by (simp add: cte_ancestors_def filter_by_id [OF app_ok_tasks(2) [OF ok] a])
  moreover have "snd ` set L = {k. climb (task_up s) k (t_id a) \<noteq> None}"
  proof -
    have "k \<in> snd ` set L" if c: "climb (task_up s) k (t_id a) = Some y" for k y
    proof -
      obtain r where "(r, k) \<in> set L"
        using climb_closed [OF app_ok_tasks(1) [OF ok] _ c] a c by (auto simp: mem)
      then show ?thesis by force
    qed
    then show ?thesis by (auto simp: mem)
  qed
  moreover have "L \<noteq> []" using a mem [of a 0] by auto
  ultimately show ?thesis
    using that max_depth_Max [of L] by (simp add: depth_of_def)
qed

section \<open>Finding a task\<close>

lemma tasks_find_in_project_Inr:
  "tasks_find_in_project p i e s = (Inr t, s') \<longleftrightarrow>
     s' = s \<and> List.find (\<lambda>t. t_id t = i \<and> t_projectId t = p) (tasks s) = Some t"
  by (auto simp: tasks_find_in_project_def split: option.splits)

lemma tasks_find_in_project_Inl:
  "tasks_find_in_project p i e s = (Inl e', s') \<longleftrightarrow>
     s' = s \<and> e' = e \<and> (\<forall>t \<in> set (tasks s). \<not> (t_id t = i \<and> t_projectId t = p))"
  by (auto simp: tasks_find_in_project_def find_None_iff2 split: option.splits dest!: find_SomeD)

lemma TasksService_findOneOrFail_row:
  "TasksService_findOneOrFail w p i s = (Inr t, s') \<Longrightarrow>
     s' = s \<and> t \<in> set (tasks s) \<and> t_id t = i \<and> t_projectId t = p \<and>
     (\<exists>q \<in> set (projects s). p_id q = p \<and> p_workspaceId q = w)"
  by (auto simp: TasksService_findOneOrFail_def bindM_Inr_iff tasks_find_in_project_Inr
      dest!: ProjectsService_findOneOrFail_row find_SomeD)

lemma find_two:
  "distinct (map ident t) \<Longrightarrow> r \<in> set t \<Longrightarrow> P r \<Longrightarrow> List.find (\<lambda>x. ident x = ident r \<and> P x) t = Some r"
  by (induction t) (auto simp: rev_image_eqI)

text \<open>A task is found through its project, and its project through its workspace.\<close>

definition reachable_task :: "uuid \<Rightarrow> uuid \<Rightarrow> task \<Rightarrow> app \<Rightarrow> bool" where
  "reachable_task w p t s \<longleftrightarrow>
     t \<in> set (tasks s) \<and> t_projectId t = p \<and>
     exists_row (\<lambda>q. p_id q = p \<and> p_workspaceId q = w) (projects s)"

lemma projects_find_exists:
  assumes "exists_row (\<lambda>q. p_id q = p \<and> p_workspaceId q = w) (projects s)"
  obtains q where "ProjectsService_findOneOrFail w p s = (Inr q, s)"
  using assms that
  by (auto simp: ProjectsService_findOneOrFail_Inr exists_row_find)

lemma TasksService_findOneOrFail_keyed:
  assumes d: "distinct (map t_id (tasks s))"
  shows "TasksService_findOneOrFail w p i s = (Inr t, s') \<longleftrightarrow> s' = s \<and> t_id t = i \<and> reachable_task w p t s"
proof
  assume "s' = s \<and> t_id t = i \<and> reachable_task w p t s"
  then have s': "s' = s" and i: "t_id t = i" and t: "t \<in> set (tasks s)" "t_projectId t = p"
    and ex: "exists_row (\<lambda>q. p_id q = p \<and> p_workspaceId q = w) (projects s)"
    by (auto simp: reachable_task_def)
  obtain q where "ProjectsService_findOneOrFail w p s = (Inr q, s)"
    by (rule projects_find_exists [OF ex])
  moreover have "List.find (\<lambda>x. t_id x = i \<and> t_projectId x = p) (tasks s) = Some t"
    using find_two [OF d t(1), of "\<lambda>x. t_projectId x = p"] t i by simp
  ultimately show "TasksService_findOneOrFail w p i s = (Inr t, s')"
    by (auto simp: TasksService_findOneOrFail_def bindM_Inr_iff tasks_find_in_project_Inr s')
qed (auto simp: reachable_task_def exists_row_def dest!: TasksService_findOneOrFail_row)

lemmas TasksService_findOneOrFail_found = TasksService_findOneOrFail_keyed [OF app_ok_tasks(2)]

section \<open>The outcome of a move\<close>

text \<open>Why a move is refused, in terms of the tree alone.\<close>

definition move_refusal :: "app \<Rightarrow> uuid \<Rightarrow> uuid \<Rightarrow> uuid option \<Rightarrow> string option" where
  "move_refusal s projectId taskId newParent =
     (case newParent of
        None \<Rightarrow> None
      | Some q \<Rightarrow>
          if q = taskId then Some ''A task cannot be its own parent''
          else if \<not> exists_row (\<lambda>t. t_id t = q \<and> t_projectId t = projectId) (tasks s)
          then Some ''New parent task not found in this project''
          else if under (task_up s) taskId q
          then Some ''Cannot move a task underneath its own descendant (would create a cycle)''
          else if MAX_DEPTH < depth_of (task_up s) q + 1 + height_of (task_up s) taskId
          then Some ''Maximum nesting depth of 5 would be exceeded''
          else None)"

lemma run_cte_Some: "query s = Some rows \<Longrightarrow> run_cte query s = (Inr rows, s)"
  by (simp add: run_cte_def reads_def)

lemma moveTask_cases:
  assumes ok: "app_ok s" and t: "reachable_task w p t s" and i: "t_id t = i"
  shows "TasksService_moveTask w p i np now s =
    (case move_refusal s p i np of
       Some msg \<Rightarrow> (Inl (BadRequest msg), s)
     | None \<Rightarrow> save_task now t (t\<lparr>t_parentTaskId := np\<rparr>) s)"
proof -
  have found: "TasksService_findOneOrFail w p i s = (Inr t, s)"
    using t i by (simp add: TasksService_findOneOrFail_found [OF ok])
  note step = TasksService_moveTask_def bindM_def found
  have tin: "t \<in> set (tasks s)" using t by (simp add: reachable_task_def)
  show ?thesis
  proof (cases np)
    case None
    then show ?thesis by (simp add: step move_refusal_def)
  next
    case (Some q)
    show ?thesis
    proof (cases "q = i \<or> \<not> exists_row (\<lambda>t. t_id t = q \<and> t_projectId t = p) (tasks s)")
      case True
      then show ?thesis
      proof (cases "q = i")
        case False
        with True have "List.find (\<lambda>t. t_id t = q \<and> t_projectId t = p) (tasks s) = None"
          by (simp add: exists_row_find)
        with False Some True show ?thesis
          by (simp add: step move_refusal_def guardM_def ret_def tasks_find_in_project_def reads_def)
      qed (simp add: Some step move_refusal_def guardM_def throw_def)
    next
      case False
      then obtain n where n: "List.find (\<lambda>t. t_id t = q \<and> t_projectId t = p) (tasks s) = Some n"
        by (auto simp: exists_row_find)
      then have nin: "n \<in> set (tasks s)" "t_id n = q" by (auto dest: find_SomeD)
      obtain D where D: "cte_descendants i s = Some D"
        and desc: "\<And>q. list_ex (\<lambda>d. t_id (fst d) = q) D \<longleftrightarrow> has_id t_id (tasks s) q \<and> under (task_up s) i q"
        and hgt: "max_depth D = height_of (task_up s) i"
        using cte_descendants_spec [OF ok tin] i by metis
      obtain A where A: "cte_ancestors q s = Some A" and dep: "max_depth A = depth_of (task_up s) q"
        using cte_ancestors_spec [OF ok nin(1)] nin(2) by metis
      have q: "has_id t_id (tasks s) q" using nin by auto
      have find: "tasks_find_in_project p q e s = (Inr n, s)" for e
        using n by (simp add: tasks_find_in_project_def reads_def)
      have depth: "TasksService_depthOf q s = (Inr (depth_of (task_up s) q), s)"
        by (simp add: TasksService_depthOf_def bindM_def run_cte_Some A ret_def dep)
      show ?thesis
        using False q
        by (simp add: Some step move_refusal_def guardM_def ret_def throw_def find
            run_cte_Some D desc depth hgt Let_def)
    qed
  qed
qed

text \<open>Where a saved task may hang: where it was, at the top, or under a task not below it.\<close>

definition parent_allowed :: "app \<Rightarrow> task \<Rightarrow> task \<Rightarrow> bool" where
  "parent_allowed s old new \<longleftrightarrow>
     t_parentTaskId new = t_parentTaskId old \<or> t_parentTaskId new = None \<or>
     (\<exists>p \<in> set (tasks s). t_parentTaskId new = Some (t_id p) \<and> t_projectId p = t_projectId new \<and>
        \<not> under (task_up s) (t_id new) (t_id p))"

lemma save_task_ok:
  assumes ok: "app_ok s" and old: "old \<in> set (tasks s)"
    and new: "t_id new = t_id old" "t_projectId new = t_projectId old" "completed_iff_done new"
    and par: "parent_allowed s old new"
    and run: "save_task now old new s = (r, s')"
  shows "app_ok s'"
proof -
  have "app_ok s1" if "update_task (new\<lparr>t_updatedAt := now\<rparr>) s = Inr s1" for s1
    by (rule update_task_ok [OF ok that _ old])
      (use new par in \<open>auto simp: completed_iff_done_def parent_allowed_def\<close>)
  then show ?thesis
    using ok run
    by (auto simp: save_task_def Let_def bindM_def writes_def ret_def split: if_splits sum.splits)
qed

text \<open>A task that only changes its place is written wherever the place is a task, other than itself.\<close>

lemma save_task_placed:
  assumes ok: "app_ok s" and old: "old \<in> set (tasks s)"
    and place: "np \<noteq> Some (t_id old)" "has_id_opt t_id (tasks s) np"
  shows "\<exists>r. save_task now old (old\<lparr>t_parentTaskId := np\<rparr>) s = (Inr r, s\<lparr>tasks := update_row t_id r (tasks s)\<rparr>) \<and>
    r = old\<lparr>t_parentTaskId := np, t_updatedAt := t_updatedAt r\<rparr>"
proof (cases "t_parentTaskId old = np")
  case True
  have same: "old\<lparr>t_parentTaskId := np\<rparr> = old" using True by simp
  have "update_row t_id old (tasks s) = tasks s"
    by (rule update_row_id) (rule distinct_key_eq [OF app_ok_tasks(2) [OF ok] _ old])
  then show ?thesis by (intro exI [of _ old]) (use True in \<open>simp add: same save_task_def ret_def\<close>)
next
  case False
  let ?r = "old\<lparr>t_parentTaskId := np, t_updatedAt := now\<rparr>"
  have row: "length (t_title old) \<le> 200" "has_id p_id (projects s) (t_projectId old)"
      "has_id_opt u_id (users s) (t_assigneeId old)" "has_id u_id (users s) (t_createdBy old)"
    using ok old by (auto simp: app_ok_def tasks_ok_def)
  with place have "update_task ?r s = Inr (s\<lparr>tasks := update_row t_id ?r (tasks s)\<rparr>)"
    by (simp add: update_task_def task_checks_def)
  moreover have "old\<lparr>t_parentTaskId := np\<rparr> \<noteq> old" using False by (metis task.select_convs(3) task.surjective task.update_convs(3))
  ultimately show ?thesis
    by (intro exI [of _ ?r]) (simp add: save_task_def Let_def bindM_def writes_def ret_def)
qed

lemma no_self_parent:
  assumes ok: "app_ok s" and old: "old \<in> set (tasks s)"
  shows "t_parentTaskId old \<noteq> Some (t_id old)"
proof
  assume "t_parentTaskId old = Some (t_id old)"
  then have "climb (task_up s) 1 (t_id old) = Some (t_id old)"
    using parent_of_row [OF app_ok_tasks(2) [OF ok] old, of t_parentTaskId] by simp
  with app_ok_tasks(1) [OF ok] have "1 = (0::nat)" unfolding forest_def by (metis loopfreeD)
  then show False by simp
qed

lemma save_task_moved:
  assumes ok: "app_ok s" and old: "old \<in> set (tasks s)" and par: "parent_allowed s old (old\<lparr>t_parentTaskId := np\<rparr>)"
  obtains r where "save_task now old (old\<lparr>t_parentTaskId := np\<rparr>) s =
      (Inr r, s\<lparr>tasks := update_row t_id r (tasks s)\<rparr>)"
    and "t_id r = t_id old" and "t_parentTaskId r = np"
    and "r = old\<lparr>t_parentTaskId := np, t_updatedAt := t_updatedAt r\<rparr>"
proof -
  have F: "forest t_id t_parentTaskId (tasks s)" by (rule app_ok_tasks(1) [OF ok])
  have "np \<noteq> Some (t_id old)"
  proof
    assume np: "np = Some (t_id old)"
    have "under (task_up s) (t_id old) (t_id old)" by (auto simp: under_def intro: exI [of _ 0])
    with par np have "t_parentTaskId old = Some (t_id old)" by (auto simp: parent_allowed_def)
    with no_self_parent [OF ok old] show False by simp
  qed
  moreover have "has_id_opt t_id (tasks s) np"
    using par forest_parent_row [OF F old] by (cases np) (auto simp: parent_allowed_def)
  ultimately obtain r where r: "save_task now old (old\<lparr>t_parentTaskId := np\<rparr>) s = (Inr r, s\<lparr>tasks := update_row t_id r (tasks s)\<rparr>)"
      "r = old\<lparr>t_parentTaskId := np, t_updatedAt := t_updatedAt r\<rparr>"
    using save_task_placed [OF ok old] by blast
  moreover from r(2) have "t_id r = t_id old" "t_parentTaskId r = np"
    by (metis task.select_convs(1) task.surjective task.update_convs(3,13), metis task.select_convs(3) task.surjective task.update_convs(3,13))
  ultimately show ?thesis by (intro that)
qed

lemma move_refusal_allowed:
  assumes "move_refusal s p i np = None" and "t_projectId t = p" and "t_id t = i"
  shows "parent_allowed s t (t\<lparr>t_parentTaskId := np\<rparr>)"
  using assms
  by (auto simp: move_refusal_def parent_allowed_def exists_row_def split: option.splits if_splits)

lemma TasksService_moveTask_keeps: "keeps app_ok (TasksService_moveTask w p i np now)"
proof (rule keepsI)
  fix s r s' assume ok: "app_ok s" and run: "TasksService_moveTask w p i np now s = (r, s')"
  show "app_ok s'"
  proof (cases "TasksService_findOneOrFail w p i s")
    case (Pair x s1)
    then show ?thesis
    proof (cases x)
      case (Inl e)
      with Pair have "s1 = s"
        by (auto simp: TasksService_findOneOrFail_def bindM_Inl_iff ProjectsService_findOneOrFail_Inr
            ProjectsService_findOneOrFail_Inl tasks_find_in_project_Inl)
      with ok run Pair Inl show ?thesis by (simp add: TasksService_moveTask_def bindM_def)
    next
      case (Inr t)
      with Pair have t: "reachable_task w p t s" "t_id t = i" and s1: "s1 = s"
        by (auto simp: TasksService_findOneOrFail_found [OF ok])
      have tin: "t \<in> set (tasks s)" "t_projectId t = p" using t by (simp_all add: reachable_task_def)
      note cases = moveTask_cases [OF ok t, of np now]
      show ?thesis
      proof (cases "move_refusal s p i np")
        case None
        have "completed_iff_done (t\<lparr>t_parentTaskId := np\<rparr>)"
          using app_ok_tasks(4) [OF ok tin(1)] by (simp add: completed_iff_done_def)
        then show ?thesis
          using run cases None save_task_ok [OF ok tin(1) _ _ _ move_refusal_allowed [OF None tin(2) t(2)]]
          by (simp add: tin)
      qed (use run cases ok in simp)
    qed
  qed
qed

section \<open>Every operation keeps the invariant\<close>

lemma TasksService_findOneOrFail_keeps [svc_ok]: "keeps app_ok (TasksService_findOneOrFail w p i)"
  unfolding TasksService_findOneOrFail_def tasks_find_in_project_def
  by (intro keeps_intros svc_ok)

lemma TasksService_findOneOrFail_ensures:
  "ensures app_ok (TasksService_findOneOrFail w p i)
     (\<lambda>t s. app_ok s \<and> t \<in> set (tasks s) \<and> t_id t = i \<and> t_projectId t = p) (\<lambda>_. app_ok)"
  by (rule ensuresI)
    (use TasksService_findOneOrFail_keeps [of w p i] in \<open>auto dest: keepsD dest!: TasksService_findOneOrFail_row\<close>)

lemma apply_update_completed:
  "completed_iff_done t \<Longrightarrow> ut_status dto \<noteq> Null \<Longrightarrow> completed_iff_done (apply_update dto d t)"
  by (cases "ut_status dto") (auto simp: completed_iff_done_def apply_update_def)

lemma TasksService_update_keeps: "keeps app_ok (TasksService_update w p i u dto now)"
  unfolding keeps_ensures TasksService_update_def
proof (rule ensures_bindM [OF TasksService_findOneOrFail_ensures])
  fix t
  let ?P = "\<lambda>s. app_ok s \<and> t \<in> set (tasks s)"
  let ?chk = "writes (enforce [null_check (ut_title dto) ''title'', null_check (ut_status dto) ''status'',
      null_check (ut_priority dto) ''priority''])"
  have 1: "ensures (\<lambda>s. app_ok s \<and> t \<in> set (tasks s) \<and> t_id t = i \<and> t_projectId t = p) ?chk
      (\<lambda>_ s. ?P s \<and> ut_status dto \<noteq> Null) (\<lambda>_. app_ok)"
    by (rule ensuresI) (auto simp: null_check_def)
  have 2: "ensures (\<lambda>s. ?P s \<and> ut_status dto \<noteq> Null) (save_task now t (apply_update dto (to_js now) t))
      (\<lambda>_. app_ok) (\<lambda>_. app_ok)"
  proof -
    have "app_ok s'" if "app_ok s" "t \<in> set (tasks s)" "ut_status dto \<noteq> Null"
      "save_task now t (apply_update dto (to_js now) t) s = (r, s')" for s r s'
      by (rule save_task_ok [OF that(1,2) _ _ _ _ that(4)])
        (use that in \<open>simp_all add: parent_allowed_def apply_update_def [of dto] app_ok_tasks(4)
           apply_update_completed [unfolded apply_update_def]\<close>)
    then show ?thesis by (intro ensuresI) blast+
  qed
  show "ensures (\<lambda>s. app_ok s \<and> t \<in> set (tasks s) \<and> t_id t = i \<and> t_projectId t = p)
    (bindM ?chk (\<lambda>_. bindM (save_task now t (apply_update dto (to_js now) t)) (\<lambda>saved.
       bindM (modifies (fold emit (update_events dto u t saved))) (\<lambda>_. ret saved))))
    (\<lambda>_. app_ok) (\<lambda>_. app_ok)"
    by (intro ensures_bindM [OF 1] ensures_bindM [OF 2])
      (auto intro!: keeps_intros keeps_modifies simp flip: keeps_ensures)
qed

lemma TasksService_remove_keeps: "keeps app_ok (TasksService_remove w p i)"
  unfolding TasksService_remove_def
  by (intro keeps_intros svc_ok keeps_modifies) (rule delete_task_rows_ok)

text \<open>The validated body of a request never holds an empty parent id.\<close>

definition valid_create_task :: "create_task_dto \<Rightarrow> bool" where
  "valid_create_task dto \<longleftrightarrow> ct_parentTaskId dto \<noteq> Some []"

lemma TasksService_create_keeps:
  assumes valid: "valid_create_task dto"
  shows "keeps app_ok (TasksService_create w p u dto nid now)"
  unfolding keeps_ensures TasksService_create_def
proof (rule ensures_bindM [OF ProjectsService_findOneOrFail_ok [unfolded keeps_ensures]])
  let ?par = "ct_parentTaskId dto"
  let ?find = "if truthy ?par
      then bindM (tasks_find_in_project p (the ?par) (BadRequest ''Parent task not found in this project'')) (\<lambda>_. ret ())
      else ret ()"
  let ?P = "\<lambda>s. app_ok s \<and> (\<forall>q \<in> set (tasks s). ?par = Some (t_id q) \<longrightarrow> t_projectId q = p)"
  have 1: "ensures app_ok ?find (\<lambda>_. ?P) (\<lambda>_. app_ok)"
  proof (rule ensuresI)
    fix s a s' assume ok: "app_ok s" and run: "?find s = (Inr a, s')"
    show "?P s'"
    proof (cases "truthy ?par")
      case True
      then obtain t where "s' = s" "t \<in> set (tasks s)" "?par = Some (t_id t)" "t_projectId t = p"
        using run by (cases ?par) (auto simp: bindM_Inr_iff tasks_find_in_project_Inr dest: find_SomeD)
      then show ?thesis
        using ok distinct_key_eq [OF app_ok_tasks(2) [OF ok] \<open>t \<in> set (tasks s)\<close>] by auto
    next
      case False
      then have "?par = None" using valid by (cases ?par) (auto simp: valid_create_task_def)
      then show ?thesis using run ok by simp
    qed
  qed (auto simp: bindM_Inl_iff tasks_find_in_project_Inr tasks_find_in_project_Inl split: if_splits)
  let ?task = "\<lparr>t_id = nid, t_projectId = p, t_parentTaskId = ?par,
      t_title = ct_title dto, t_description = ct_description dto, t_status = TODO,
      t_priority = (case ct_priority dto of None \<Rightarrow> MEDIUM | Some p \<Rightarrow> p),
      t_assigneeId = ct_assigneeId dto, t_createdBy = u,
      t_dueDate = ct_dueDate dto, t_completedAt = None, t_createdAt = now, t_updatedAt = now\<rparr>"
  have 2: "ensures ?P (writes (insert_task ?task)) (\<lambda>_. app_ok) (\<lambda>_. app_ok)"
    by (rule ensuresI) (auto intro: insert_task_ok simp: completed_iff_done_def)
  show "ensures app_ok (bindM ?find (\<lambda>_. let task = ?task in
      bindM (writes (insert_task task)) (\<lambda>_.
        bindM (modifies (emit (TaskCreated (t_id task) p u))) (\<lambda>_.
        bindM (if truthy (t_assigneeId task)
               then modifies (emit (TaskAssigned (t_id task) (the (t_assigneeId task)) u))
               else ret ()) (\<lambda>_.
        ret task)))))
    (\<lambda>_. app_ok) (\<lambda>_. app_ok)" for a
    unfolding Let_def
    by (intro ensures_bindM [OF 1] ensures_bindM [OF 2])
      (auto intro!: keeps_intros keeps_modifies simp flip: keeps_ensures)
qed

section \<open>The tree that getSubtree builds\<close>

text \<open>
  A tree stands for a task at a depth: it shows the task's columns, and its children stand for the
  task's subtasks, one level deeper, in the order of their ids.
\<close>

fun represents :: "task list \<Rightarrow> nat \<Rightarrow> uuid \<Rightarrow> subtree \<Rightarrow> bool" where
  "represents ts d i (Subtree nd kids) \<longleftrightarrow>
     exists_row (\<lambda>r. t_id r = i \<and> nd\<lparr>nd_children := []\<rparr> = new_node (r, d)) ts \<and>
     map (\<lambda>k. nd_id (st_node k)) kids = sort (map t_id (filter (\<lambda>c. t_parentTaskId c = Some i) ts)) \<and>
     (\<forall>k \<in> set kids. represents ts (Suc d) (nd_id (st_node k)) k)"

lemma create_nodes_row:
  "distinct (map (t_id \<circ> fst) rows) \<Longrightarrow> rd \<in> set rows \<Longrightarrow> create_nodes rows (t_id (fst rd)) = Some (new_node rd)"
  by (induction rows rule: rev_induct) (auto simp: create_nodes_def rev_image_eqI)

definition kids :: "uuid \<Rightarrow> (task \<times> nat) list \<Rightarrow> uuid \<Rightarrow> uuid list" where
  "kids taskId rows i =
     map (t_id \<circ> fst) (filter (\<lambda>rd. t_id (fst rd) \<noteq> taskId \<and> t_parentTaskId (fst rd) = Some i) rows)"

lemma link_nodes:
  assumes "\<forall>rd \<in> set rows. t_parentTaskId (fst rd) \<noteq> Some []"
  shows "fst (foldl (link_node taskId) (h, root) rows) i =
      map_option (\<lambda>n. n\<lparr>nd_children := nd_children n @ kids taskId rows i\<rparr>) (h i)"
  using assms
proof (induction rows rule: rev_induct)
  case Nil
  then show ?case by (cases "h i") (simp_all add: kids_def)
next
  case (snoc rd rows)
  obtain h' root' where st: "foldl (link_node taskId) (h, root) rows = (h', root')" by fastforce
  then have fold: "foldl (link_node taskId) (h, root) (rows @ [rd]) = link_node taskId (h', root') rd"
    by simp
  from st snoc have h': "h' i = map_option (\<lambda>n. n\<lparr>nd_children := nd_children n @ kids taskId rows i\<rparr>) (h i)"
    by simp
  show ?case
  proof (cases "t_id (fst rd) \<noteq> taskId \<and> t_parentTaskId (fst rd) = Some i")
    case True
    with snoc.prems have "i \<noteq> []" by auto
    with True h' show ?thesis
      unfolding fold by (cases "h i") (simp_all add: link_node_def push_child_def kids_def)
  next
    case False
    then have "push_child h' (the (t_parentTaskId (fst rd))) x i = h' i"
      if "t_id (fst rd) \<noteq> taskId" "truthy (t_parentTaskId (fst rd))" for x
      using that by (cases "t_parentTaskId (fst rd)") (auto simp: push_child_def split: option.split)
    moreover have "kids taskId (rows @ [rd]) i = kids taskId rows i"
      using False by (auto simp: kids_def)
    ultimately show ?thesis unfolding fold by (simp add: link_node_def h')
  qed
qed

lemma link_root:
  "snd (foldl (link_node taskId) st rows) =
     (if exists_row (\<lambda>rd. t_id (fst rd) = taskId) rows then Some taskId else snd st)"
proof -
  have one: "snd (link_node taskId st rd) = (if t_id (fst rd) = taskId then Some taskId else snd st)" for st rd
    by (auto simp: link_node_def split: prod.split)
  show ?thesis
    by (induction rows arbitrary: st) (simp_all add: exists_row_def one)
qed

lemma those_map:
  "\<forall>x \<in> set xs. \<exists>y. f x = Some y \<and> P x y \<Longrightarrow> \<exists>ys. those (map f xs) = Some ys \<and> list_all2 P xs ys"
  by (induction xs) auto

text \<open>The ids pushed to a row are those of its subtasks, in order.\<close>

lemma kids_sorted:
  assumes F: "forest t_id t_parentTaskId ts"
    and rows: "rows = sort_key (\<lambda>rd. (snd rd, t_id (fst rd))) L"
    and mem: "\<And>r e. (r, e) \<in> set L \<longleftrightarrow>
      r \<in> set ts \<and> climb (parent_of t_id t_parentTaskId ts) e (t_id r) = Some taskId"
    and dL: "distinct (map (t_id \<circ> fst) L)" and r: "(r, d) \<in> set L"
  shows "kids taskId rows (t_id r) = sort (map t_id (filter (\<lambda>c. t_parentTaskId c = Some (t_id r)) ts))"
proof -
  let ?up = "parent_of t_id t_parentTaskId ts"
  let ?P = "\<lambda>rd. t_id (fst rd) \<noteq> taskId \<and> t_parentTaskId (fst rd) = Some (t_id r)"
  let ?xs = "filter ?P rows"
  have free: "loopfree ?up" and d: "distinct (map t_id ts)" using F by (simp_all add: forest_def)
  have rd: "climb ?up d (t_id r) = Some taskId" using r mem by simp
  have child: "climb ?up (Suc d) (t_id c) = Some taskId"
    if "c \<in> set ts" "t_parentTaskId c = Some (t_id r)" for c
    using rd that by (simp add: parent_of_row [OF d])
  have lev: "snd x = Suc d" if "x \<in> set ?xs" for x
  proof -
    have "climb ?up (snd x) (t_id (fst x)) = Some taskId" "fst x \<in> set ts"
      using that mem [of "fst x" "snd x"] by (auto simp: rows)
    moreover have "climb ?up (Suc d) (t_id (fst x)) = Some taskId"
      using that calculation(2) by (intro child) auto
    ultimately show ?thesis using loopfree_level [OF free] by blast
  qed
  have "sorted (map (\<lambda>rd. (snd rd, t_id (fst rd))) rows)"
    unfolding rows by (rule sorted_sort_key)
  then have "sorted (map (\<lambda>rd. (snd rd, t_id (fst rd))) ?xs)"
    by (rule sorted_filter)
  then have "sorted (map (\<lambda>rd. t_id (fst rd)) ?xs)"
    by (rule sorted_same_first) (rule lev)
  then have s: "sorted (map (t_id \<circ> fst) ?xs)" by (simp add: comp_def)
  have "distinct (map (t_id \<circ> fst) rows)"
    using dL unfolding rows by (simp add: distinct_map)
  then have dx: "distinct (map (t_id \<circ> fst) ?xs)" by (rule distinct_map_filterI)
  have "set (map (t_id \<circ> fst) ?xs) = set (map t_id (filter (\<lambda>c. t_parentTaskId c = Some (t_id r)) ts))"
  proof (rule equalityI; rule subsetI)
    fix i assume "i \<in> set (map t_id (filter (\<lambda>c. t_parentTaskId c = Some (t_id r)) ts))"
    then obtain c where c: "c \<in> set ts" "t_parentTaskId c = Some (t_id r)" "i = t_id c" by auto
    from child [OF c(1,2)] have up: "climb ?up (Suc d) (t_id c) = Some taskId" .
    with c(1) have cin: "(c, Suc d) \<in> set rows" by (simp add: rows mem)
    have "t_id c \<noteq> taskId" using up loopfreeD [OF free, of "Suc d" taskId] by auto
    with c cin have "(c, Suc d) \<in> set ?xs" by simp
    then have "t_id (fst (c, Suc d)) \<in> (t_id \<circ> fst) ` set ?xs" by force
    with c show "i \<in> set (map (t_id \<circ> fst) ?xs)" by simp
  next
    fix i assume "i \<in> set (map (t_id \<circ> fst) ?xs)"
    then show "i \<in> set (map t_id (filter (\<lambda>c. t_parentTaskId c = Some (t_id r)) ts))"
      by (auto simp: rows mem)
  qed
  then have "map (t_id \<circ> fst) ?xs = sort (map t_id (filter (\<lambda>c. t_parentTaskId c = Some (t_id r)) ts))"
    using s dx by (intro sorted_distinct_set_unique) (simp_all add: distinct_map_filterI d)
  then show ?thesis by (simp add: kids_def)
qed

text \<open>Reading a row's object off the linked store gives the row's tree.\<close>

lemma materialise_represents:
  assumes h: "\<And>r d. (r, d) \<in> set rows \<Longrightarrow>
      h (t_id r) = Some ((new_node (r, d))\<lparr>nd_children :=
        sort (map t_id (filter (\<lambda>c. t_parentTaskId c = Some (t_id r)) ts))\<rparr>)"
    and sub: "\<And>r d. (r, d) \<in> set rows \<Longrightarrow> r \<in> set ts"
    and down: "\<And>r d c. (r, d) \<in> set rows \<Longrightarrow> c \<in> set ts \<Longrightarrow> t_parentTaskId c = Some (t_id r) \<Longrightarrow> (c, Suc d) \<in> set rows"
    and fin: "\<And>r d. (r, d) \<in> set rows \<Longrightarrow> d \<le> m"
  shows "(r, d) \<in> set rows \<Longrightarrow> m < d + n \<Longrightarrow>
    \<exists>T. materialise n h (t_id r) = Some T \<and> nd_id (st_node T) = t_id r \<and> represents ts d (t_id r) T"
proof (induction n arbitrary: r d)
  case 0
  then show ?case using fin [of r d] by simp
next
  case (Suc n)
  let ?kids = "sort (map t_id (filter (\<lambda>c. t_parentTaskId c = Some (t_id r)) ts))"
  have "\<exists>T. materialise n h i = Some T \<and> (nd_id (st_node T) = i \<and> represents ts (Suc d) i T)" if "i \<in> set ?kids" for i
  proof -
    from that obtain c where "c \<in> set ts" "t_parentTaskId c = Some (t_id r)" "i = t_id c" by auto
    with down [OF Suc.prems(1)] Suc.IH [of c "Suc d"] Suc.prems(2) show ?thesis by auto
  qed
  then obtain Ts where Ts: "those (map (materialise n h) ?kids) = Some Ts"
    and all: "list_all2 (\<lambda>i T. nd_id (st_node T) = i \<and> represents ts (Suc d) i T) ?kids Ts"
    using those_map [of ?kids "materialise n h" "\<lambda>i T. nd_id (st_node T) = i \<and> represents ts (Suc d) i T"]
    by blast
  have "map (\<lambda>k. nd_id (st_node k)) Ts = ?kids \<and>
      (\<forall>k \<in> set Ts. represents ts (Suc d) (nd_id (st_node k)) k)"
    using all by (induction rule: list_all2_induct) auto
  moreover have "exists_row (\<lambda>x. t_id x = t_id r \<and> new_node (r, d) = new_node (x, d)) ts"
    using sub [OF Suc.prems(1)] by (auto simp: exists_row_def)
  moreover have "(new_node (r, d))\<lparr>nd_children := []\<rparr> = new_node (r, d)"
    by (simp add: new_node_def)
  ultimately show ?case
    using Ts h [OF Suc.prems(1)] by (simp add: new_node_def)
qed

lemma getSubtree_tree:
  assumes ok: "app_ok s" and t: "reachable_task w p t s"
    and ids: "\<forall>x \<in> set (tasks s). t_id x \<noteq> []"
  shows "\<exists>T. TasksService_getSubtree w p (t_id t) s = (Inr (Some T), s) \<and> represents (tasks s) 0 (t_id t) T"
proof -
  let ?ts = "tasks s"
  have tin: "t \<in> set ?ts" and tp: "t_projectId t = p" using t by (simp_all add: reachable_task_def)
  have F: "forest t_id t_parentTaskId ?ts" and d: "distinct (map t_id ?ts)" using app_ok_tasks [OF ok] by blast+
  have found: "TasksService_findOneOrFail w p (t_id t) s = (Inr t, s)"
    using t by (simp add: TasksService_findOneOrFail_found [OF ok])
  obtain L where L: "cte (join_down t_id t_parentTaskId ?ts) (cte_fuel ?ts) 0 [t] = Some L"
    and mem: "\<And>r e. (r, e) \<in> set L \<longleftrightarrow> r \<in> set ?ts \<and> climb (task_up s) e (t_id r) = Some (t_id t)"
    and dL: "distinct (map (t_id \<circ> fst) L)"
    by (rule task_tree.subtree_query [OF ok tin]) (rule that)
  define rows where "rows = sort_key (\<lambda>rd. (snd rd, t_id (fst rd))) L"
  have "filter (\<lambda>x. t_id x = t_id t \<and> t_projectId x = p) ?ts =
      filter (\<lambda>x. t_projectId x = p) (filter (\<lambda>x. t_id x = t_id t) ?ts)"
    by (simp add: filter_filter)
  then have "filter (\<lambda>x. t_id x = t_id t \<and> t_projectId x = p) ?ts = [t]"
    using filter_by_id [OF d tin] tp by simp
  then have q: "cte_subtree p (t_id t) s = Some rows"
    by (simp add: cte_subtree_def L rows_def)
  define h where "h = fst (foldl (link_node (t_id t)) (create_nodes rows, None) rows)"
  have t0: "(t, 0) \<in> set rows" by (simp add: rows_def mem tin)
  then have root: "snd (foldl (link_node (t_id t)) (create_nodes rows, None) rows) = Some (t_id t)"
    by (force simp: link_root exists_row_def)
  have drows: "distinct (map (t_id \<circ> fst) rows)" using dL by (simp add: rows_def distinct_map)
  have par: "\<forall>rd \<in> set rows. t_parentTaskId (fst rd) \<noteq> Some []"
  proof (intro ballI notI)
    fix rd assume rd: "rd \<in> set rows" and par: "t_parentTaskId (fst rd) = Some []"
    have "fst rd \<in> set ?ts" using rd mem [of "fst rd" "snd rd"] by (simp add: rows_def)
    from forest_parent_row [OF F this par] ids show False by (auto simp: has_id_def)
  qed
  have "h (t_id r) = Some ((new_node (r, e))\<lparr>nd_children :=
      sort (map t_id (filter (\<lambda>c. t_parentTaskId c = Some (t_id r)) ?ts))\<rparr>)" if r: "(r, e) \<in> set rows" for r e
    using create_nodes_row [OF drows r] kids_sorted [OF F rows_def mem dL, of r e] r
    by (simp add: h_def link_nodes [OF par]) (simp add: new_node_def rows_def)
  moreover have "(c, Suc e) \<in> set rows"
    if "(r, e) \<in> set rows" "c \<in> set ?ts" "t_parentTaskId c = Some (t_id r)" for r e c
    using that by (simp add: rows_def mem parent_of_row [OF d])
  moreover have "e \<le> max_depth rows" if "(r, e) \<in> set rows" for r e
    using that max_depth_Max [of rows] by (force intro!: Max_ge)
  ultimately obtain T where "materialise (Suc (max_depth rows)) h (t_id t) = Some T" "represents ?ts 0 (t_id t) T"
    using materialise_represents [of rows h ?ts "max_depth rows" t 0 "Suc (max_depth rows)"] t0
    by (fastforce simp: rows_def mem)
  moreover have "TasksService_getSubtree w p (t_id t) s =
      (Inr (Option.bind (Some (t_id t)) (materialise (Suc (max_depth rows)) h)), s)"
  proof -
    obtain h' root' where "foldl (link_node (t_id t)) (create_nodes rows, None) rows = (h', root')" by fastforce
    then show ?thesis
      using root by (simp add: TasksService_getSubtree_def bindM_def found run_cte_Some q ret_def h_def del: materialise.simps)
  qed
  ultimately show ?thesis by (metis bind.bind_lunit)
qed

section \<open>The list endpoint\<close>

definition project_denied :: "uuid \<Rightarrow> uuid \<Rightarrow> app \<Rightarrow> http_error option" where
  "project_denied w p s =
     (if exists_row (\<lambda>q. p_id q = p \<and> p_workspaceId q = w) (projects s) then None
      else Some (NotFound ''Project not found''))"

lemma ProjectsService_findOneOrFail_denied:
  "fst (bindM (ProjectsService_findOneOrFail w p) f s) =
     (case project_denied w p s of Some e \<Rightarrow> Inl e
      | None \<Rightarrow> fst (f (the (List.find (\<lambda>q. p_id q = p \<and> p_workspaceId q = w) (projects s))) s))"
  by (auto simp: project_denied_def exists_row_find ProjectsService_findOneOrFail_def bindM_def reads_def
      split: option.split)

interpretation task_feed: paged_feed cs t_createdAt t_id app_ok "\<lambda>s (w, p, q). project_denied w p s"
    "\<lambda>s (w, p, q). tasks_scope p q s" "\<lambda>s (w, p, q) lim c. fst (TasksService_list cs w p q lim c s)"
  for cs
proof
  fix s :: app and q
  assume "app_ok s"
  then show "distinct (map t_id (case q of (w, p, q) \<Rightarrow> tasks_scope p q s))"
    by (auto simp: tasks_scope_def app_ok_tasks distinct_map_filterI split: prod.split)
qed (auto simp: TasksService_list_def ProjectsService_findOneOrFail_denied reads_def split: prod.splits)

section \<open>Properties\<close>


lemma ex_reachable: "reachable_task ''w1'' ''p1'' (ex_task ''t3'' None (Some ''u2'')) ex_app"
  "reachable_task ''w1'' ''p1'' (ex_task ''t1'' None None) ex_app"
  by (simp_all add: reachable_task_def exists_row_def) (simp_all add: ex_task_def ex_app_def)


lemma move_keeps_depth:
  assumes ok: "app_ok s" and t: "reachable_task w p t s"
    and run: "TasksService_moveTask w p (t_id t) (Some q) now s = (Inr r, s')"
  shows "app_ok s'" and "under (task_up s') (t_id t) x \<Longrightarrow> depth_of (task_up s') x \<le> MAX_DEPTH"
proof -
  let ?up = "task_up s" and ?i = "t_id t"
  show ok': "app_ok s'" by (rule keepsD [OF TasksService_moveTask_keeps ok run])
  have F: "forest t_id t_parentTaskId (tasks s)" by (rule app_ok_tasks(1) [OF ok])
  have tin: "t \<in> set (tasks s)" and tp: "t_projectId t = p" using t by (simp_all add: reachable_task_def)
  have none: "move_refusal s p ?i (Some q) = None"
    using run by (cases "move_refusal s p ?i (Some q)") (simp_all add: moveTask_cases [OF ok t refl])
  obtain r' where r': "t_id r' = ?i" "t_parentTaskId r' = Some q"
    and s': "s' = s\<lparr>tasks := update_row t_id r' (tasks s)\<rparr>"
    using save_task_moved [OF ok tin move_refusal_allowed [OF none tp refl], of now] run
    by (simp add: moveTask_cases [OF ok t refl] none) metis
  have "t_id r' \<in> t_id ` set (tasks s)" using r' tin by simp
  then have up': "task_up s' = ?up(?i \<mapsto> q)"
    using parent_of_update_row [OF app_ok_tasks(2) [OF ok], of r' t_parentTaskId] r' by (simp add: s')
  have out: "\<not> under ?up ?i q" and bound: "depth_of ?up q + 1 + height_of ?up ?i \<le> MAX_DEPTH"
    using none by (auto simp: move_refusal_def split: if_splits)
  show "depth_of (task_up s') x \<le> MAX_DEPTH" if x: "under (task_up s') ?i x"
  proof -
    have "k \<le> MAX_DEPTH" if k: "climb (task_up s') k x = Some y" for k y
    proof -
      have "k \<le> height_of ?up ?i + 1 + depth_of ?up q"
      proof (rule climb_after_move [OF out])
        show "e \<le> height_of ?up ?i" if "climb ?up e j = Some ?i" for e j
          using that by (rule climb_le_height [OF F])
        show "e \<le> depth_of ?up q" if "climb ?up e q = Some z" for e z
          using that by (rule climb_le_depth [OF F])
        show "under ?up ?i x" using x by (simp add: up')
        show "climb (?up(?i \<mapsto> q)) k x = Some y" using k by (simp add: up')
      qed
      with bound show ?thesis by simp
    qed
    moreover have "climb (task_up s') 0 x \<noteq> None" by simp
    ultimately show ?thesis
      unfolding depth_of_def using finite_climbs(1) [OF app_ok_tasks(1) [OF ok']]
      by (subst Max_le_iff) blast+
  qed
qed


lemma ex_move:
  "TasksService_moveTask ''w1'' ''p1'' ''t3'' (Some ''t2'') 5 ex_app =
     (Inr ((ex_task ''t3'' (Some ''t2'') (Some ''u2''))\<lparr>t_updatedAt := 5\<rparr>),
      ex_app\<lparr>tasks := [ex_task ''t1'' None None, ex_task ''t2'' (Some ''t1'') None,
                      (ex_task ''t3'' (Some ''t2'') (Some ''u2''))\<lparr>t_updatedAt := 5\<rparr>]\<rparr>)"
  by code_simp


text \<open>
  C8.  \<open>getSubtree\<close>, with its one recursive query and its linked objects, returns the tree of the
  task: every subtask at every level exactly once, at its depth, with its columns, siblings in
  the order of their ids; the state is unchanged.
\<close>

theorem getSubtree_correct:
  assumes "app_ok s" and "reachable_task w p t s" and "\<forall>x \<in> set (tasks s). t_id x \<noteq> []"
  shows "\<exists>T. TasksService_getSubtree w p (t_id t) s = (Inr (Some T), s) \<and> represents (tasks s) 0 (t_id t) T"
  by (rule getSubtree_tree [OF assms])

theorem getSubtree_correct_witness:
  "\<exists>T. TasksService_getSubtree ''w1'' ''p1'' (t_id (ex_task ''t1'' None None)) ex_app = (Inr (Some T), ex_app) \<and>
     represents (tasks ex_app) 0 (t_id (ex_task ''t1'' None None)) T"
  by (rule getSubtree_correct [OF ex_app_ok ex_reachable(2)]) (simp add: ex_task_def)

text \<open>
  C15.  Following the cursors of \<open>GET .../tasks\<close> with any filter ends after at most one request per
  matching task, shows no task twice, and when no two matching tasks share a millisecond shows
  all of them, newest first.
\<close>

theorem TasksService_list_walk:
  assumes "app_ok s" and "exists_row (\<lambda>r. p_id r = p \<and> p_workspaceId r = w) (projects s)"
    and "casts_read cs t_createdAt t_id (tasks_scope p q s)" and "0 < page_limit lim"
  shows "\<exists>pages. walk (Suc (length (tasks_scope p q s))) (\<lambda>c. fst (TasksService_list cs w p q lim c s)) None = Some pages \<and>
           walk_ok t_createdAt t_id (page_limit lim) (tasks_scope p q s) pages \<and>
           (ms_separated t_createdAt (tasks_scope p q s) \<longrightarrow>
              concat pages = newest_first t_createdAt t_id (tasks_scope p q s))"
  using task_feed.feed_walk_ends [of s "(w, p, q)" cs lim] assms by (simp add: project_denied_def)

definition any_task :: list_tasks_query where
  "any_task = \<lparr>lt_status = None, lt_priority = None, lt_assigneeId = None, lt_parentTaskId = None, lt_topLevel = False\<rparr>"

theorem TasksService_list_walk_witness:
  "\<exists>pages. walk (Suc (length (tasks_scope ''p1'' any_task ex_app)))
       (\<lambda>c. fst (TasksService_list epoch_casts ''w1'' ''p1'' any_task (Some 2) c ex_app)) None = Some pages \<and>
     walk_ok t_createdAt t_id (page_limit (Some 2)) (tasks_scope ''p1'' any_task ex_app) pages \<and>
     (ms_separated t_createdAt (tasks_scope ''p1'' any_task ex_app) \<longrightarrow>
        concat pages = newest_first t_createdAt t_id (tasks_scope ''p1'' any_task ex_app))"
proof (rule TasksService_list_walk [OF ex_app_ok])
  show "exists_row (\<lambda>r. p_id r = ''p1'' \<and> p_workspaceId r = ''w1'') (projects ex_app)"
    by (simp add: exists_row_def ex_app_def)
  show "casts_read epoch_casts t_createdAt t_id (tasks_scope ''p1'' any_task ex_app)"
    by (simp add: casts_read_def tasks_scope_def any_task_def ex_task_def epoch_casts_def to_js_def
        code_of_def bar_def)
qed (simp add: page_limit_def)

text \<open>
  A page of \<open>GET .../tasks\<close> only holds tasks of the project that match the filters, at most
  \<open>limit\<close> of them, and only when the project is in the workspace of the route.
\<close>

theorem TasksService_list_scoped:
  assumes "fst (TasksService_list cs w p q lim c s) = Inr pg"
  shows "exists_row (\<lambda>r. p_id r = p \<and> p_workspaceId r = w) (projects s) \<and>
    set (pg_data pg) \<subseteq> set (tasks_scope p q s) \<and> length (pg_data pg) \<le> page_limit lim \<and>
    (\<forall>t \<in> set (pg_data pg). t \<in> set (tasks s) \<and> t_projectId t = p)"
proof -
  have "project_denied w p s = None \<and> set (pg_data pg) \<subseteq> set (tasks_scope p q s) \<and>
      length (pg_data pg) \<le> page_limit lim"
    using task_feed.page_in_scope [of cs s "(w, p, q)" lim c pg] assms by simp
  then show ?thesis by (auto simp: project_denied_def tasks_scope_def split: if_splits)
qed

theorem TasksService_list_scoped_witness:
  "\<exists>pg. fst (TasksService_list epoch_casts ''w1'' ''p1'' any_task None None ex_app) = Inr pg \<and>
    exists_row (\<lambda>r. p_id r = ''p1'' \<and> p_workspaceId r = ''w1'') (projects ex_app) \<and>
    set (pg_data pg) \<subseteq> set (tasks_scope ''p1'' any_task ex_app) \<and> length (pg_data pg) \<le> page_limit None \<and>
    (\<forall>t \<in> set (pg_data pg). t \<in> set (tasks ex_app) \<and> t_projectId t = ''p1'')"
proof -
  have "cursor_bound epoch_casts None = Inr None" by (simp add: cursor_bound_def)
  moreover have "0 < page_limit None" by (simp add: page_limit_def)
  moreover have "project_denied ''w1'' ''p1'' ex_app = None"
    by (simp add: project_denied_def exists_row_def ex_app_def)
  ultimately obtain pg where pg: "fst (TasksService_list epoch_casts ''w1'' ''p1'' any_task None None ex_app) = Inr pg"
    using task_feed.fetch_granted [of ex_app "(''w1'', ''p1'', any_task)" epoch_casts None None]
      keyset_page_bound [of epoch_casts None None None t_createdAt t_id "tasks_scope ''p1'' any_task ex_app"]
    by auto
  with TasksService_list_scoped [OF pg] show ?thesis by blast
qed

text \<open>How an update of a task may end.\<close>

definition task_update_outcome ::
    "uuid \<Rightarrow> uuid \<Rightarrow> uuid \<Rightarrow> uuid \<Rightarrow> update_task_dto \<Rightarrow> pg_time \<Rightarrow> app \<Rightarrow> task res \<times> app \<Rightarrow> bool" where
  "task_update_outcome w p i u dto now s out =
     (case out of
        (Inl (NotFound _), s') \<Rightarrow>
          s' = s \<and> \<not> exists_row (\<lambda>t. t_id t = i \<and> reachable_task w p t s) (tasks s)
      | (Inl e, s') \<Rightarrow> s' = s \<and> (\<exists>d. e = QueryFailed d) \<and>
          (ut_title dto = Null \<or> ut_status dto = Null \<or> ut_priority dto = Null \<or>
           (\<exists>n. ut_title dto = Val n \<and> 200 < length n) \<or>
           (\<exists>a. ut_assigneeId dto = Val a \<and> \<not> has_id u_id (users s) a))
      | (Inr r, s') \<Rightarrow>
          (\<exists>t \<in> set (tasks s). t_id t = i \<and> reachable_task w p t s \<and>
             r = (apply_update dto (to_js now) t)\<lparr>t_updatedAt := t_updatedAt r\<rparr> \<and>
             s' = s\<lparr>tasks := update_row t_id r (tasks s), bus := bus s @ update_events dto u t r\<rparr>))"

lemma fold_emit: "fold emit es s = s\<lparr>bus := bus s @ es\<rparr>"
  by (induction es arbitrary: s) (simp_all add: emit_def)

lemma save_task_in_place:
  assumes ok: "app_ok s" and old: "old \<in> set (tasks s)"
    and new: "t_id new = t_id old" "t_projectId new = t_projectId old" "t_createdBy new = t_createdBy old"
      "t_parentTaskId new = t_parentTaskId old"
    and fk: "has_id_opt u_id (users s) (t_assigneeId new)" "length (t_title new) \<le> 200"
  shows "\<exists>r. save_task now old new s = (Inr r, s\<lparr>tasks := update_row t_id r (tasks s)\<rparr>) \<and>
    r = new\<lparr>t_updatedAt := t_updatedAt r\<rparr>"
proof (cases "new = old")
  case True
  have "update_row t_id old (tasks s) = tasks s"
    by (rule update_row_id) (rule distinct_key_eq [OF app_ok_tasks(2) [OF ok] _ old])
  then show ?thesis by (intro exI [of _ old]) (simp add: True save_task_def ret_def)
next
  case False
  let ?r = "new\<lparr>t_updatedAt := now\<rparr>"
  have F: "forest t_id t_parentTaskId (tasks s)" by (rule app_ok_tasks(1) [OF ok])
  have "t_parentTaskId old \<noteq> Some (t_id old)" by (rule no_self_parent [OF ok old])
  moreover have "has_id_opt t_id (tasks s) (t_parentTaskId old)"
    using forest_parent_row [OF F old] by (cases "t_parentTaskId old") auto
  moreover have "has_id p_id (projects s) (t_projectId old)" "has_id u_id (users s) (t_createdBy old)"
    using ok old by (auto simp: app_ok_def tasks_ok_def)
  ultimately have "update_task ?r s = Inr (s\<lparr>tasks := update_row t_id ?r (tasks s)\<rparr>)"
    using new fk by (simp add: update_task_def task_checks_def)
  then show ?thesis
    using False by (intro exI [of _ ?r]) (simp add: save_task_def Let_def bindM_def writes_def ret_def)
qed

lemma update_task_refused:
  assumes "\<not> (has_id_opt u_id (users s) (t_assigneeId new) \<and> length (t_title new) \<le> 200)"
  shows "\<exists>d. update_task new s = Inl d"
proof (cases "update_task new s")
  case (Inr s')
  with assms show ?thesis by (simp add: update_task_def task_checks_def)
qed simp

lemma update_outcome_found:
  assumes ok: "app_ok s" and run: "TasksService_findOneOrFail w p i s = (Inr t, s)" and t: "reachable_task w p t s" "t_id t = i"
  shows "task_update_outcome w p i u dto now s (TasksService_update w p i u dto now s)"
proof -
  have tin: "t \<in> set (tasks s)" using t by (simp add: reachable_task_def)
  let ?new = "apply_update dto (to_js now) t"
  have row: "length (t_title t) \<le> 200" "has_id_opt u_id (users s) (t_assigneeId t)"
    using ok tin by (auto simp: app_ok_def tasks_ok_def)
  note found = TasksService_update_def bindM_def run
  show ?thesis
  proof (cases "ut_title dto = Null \<or> ut_status dto = Null \<or> ut_priority dto = Null")
    case True
    then show ?thesis
      by (auto simp: task_update_outcome_def found writes_def null_check_def enforce.simps)
  next
    case False
    then have chk: "enforce [null_check (ut_title dto) ''title'', null_check (ut_status dto) ''status'',
        null_check (ut_priority dto) ''priority''] s = Inr s"
      by (simp add: null_check_def)
    show ?thesis
    proof (cases "has_id_opt u_id (users s) (t_assigneeId ?new) \<and> length (t_title ?new) \<le> 200")
      case True
      then obtain r where r: "save_task now t ?new s = (Inr r, s\<lparr>tasks := update_row t_id r (tasks s)\<rparr>)"
        "r = ?new\<lparr>t_updatedAt := t_updatedAt r\<rparr>"
        using save_task_in_place [OF ok tin, of ?new now] by (auto simp: apply_update_def)
      have "TasksService_update w p i u dto now s =
          (Inr r, s\<lparr>tasks := update_row t_id r (tasks s), bus := bus s @ update_events dto u t r\<rparr>)"
        by (simp add: found writes_def chk r(1) modifies_def ret_def fold_emit)
      then show ?thesis using t tin r(2) by (auto simp: task_update_outcome_def)
    next
      case no: False
      then have "?new \<noteq> t" using row by auto
      moreover obtain d where "update_task (?new\<lparr>t_updatedAt := now\<rparr>) s = Inl d"
        using update_task_refused [of s "?new\<lparr>t_updatedAt := now\<rparr>"] no by auto
      ultimately have "TasksService_update w p i u dto now s = (Inl (QueryFailed d), s)"
        by (simp add: found writes_def chk save_task_def Let_def)
      moreover have "(\<exists>n. ut_title dto = Val n \<and> 200 < length n) \<or>
          (\<exists>a. ut_assigneeId dto = Val a \<and> \<not> has_id u_id (users s) a)"
        using no row by (cases "ut_title dto"; cases "ut_assigneeId dto") (auto simp: apply_update_def)
      ultimately show ?thesis by (auto simp: task_update_outcome_def)
    qed
  qed
qed

lemma update_outcome_holds:
  assumes ok: "app_ok s"
  shows "task_update_outcome w p i u dto now s (TasksService_update w p i u dto now s)"
proof (cases "TasksService_findOneOrFail w p i s")
  case (Pair x s1)
  show ?thesis
  proof (cases x)
    case (Inl e)
    with Pair have "s1 = s" "\<exists>m. e = NotFound m"
      by (auto simp: TasksService_findOneOrFail_def bindM_Inl_iff ProjectsService_findOneOrFail_Inr
          ProjectsService_findOneOrFail_Inl tasks_find_in_project_Inl)
    moreover have "\<not> exists_row (\<lambda>t. t_id t = i \<and> reachable_task w p t s) (tasks s)"
      using Pair Inl TasksService_findOneOrFail_found [OF ok, of w p i _ s] by (auto simp: exists_row_def)
    ultimately show ?thesis using Pair Inl
      by (auto simp: task_update_outcome_def TasksService_update_def bindM_def)
  next
    case (Inr t)
    with Pair have "reachable_task w p t s" "t_id t = i" "s1 = s"
      by (auto simp: TasksService_findOneOrFail_found [OF ok])
    with Pair Inr show ?thesis by (intro update_outcome_found [OF ok]) simp_all
  qed
qed


definition ex_update :: update_task_dto where
  "ex_update = \<lparr>ut_title = Undef, ut_description = Undef, ut_status = Val DONE, ut_priority = Undef,
     ut_assigneeId = Val ''u1'', ut_dueDate = Null\<rparr>"


text \<open>
  C34.  Deleting a task deletes it and every task below it, and no other; the comments, activity
  entries and reminders that are left are exactly those of the tasks that are left.
\<close>

theorem TasksService_remove_exact:
  assumes "app_ok s" and "TasksService_remove w p i s = (Inr (), s')"
  shows "set (tasks s') = {t \<in> set (tasks s). \<not> under (task_up s) i (t_id t)} \<and>
    set (comments s') = {c \<in> set (comments s). has_id t_id (tasks s') (c_taskId c)} \<and>
    set (activities s') = {a \<in> set (activities s). has_id t_id (tasks s') (a_taskId a)} \<and>
    set (reminders s') = {r \<in> set (reminders s). has_id t_id (tasks s') (r_taskId r)}"
proof -
  have s': "s' = delete_tasks (\<lambda>j. j = i) s"
    using assms(2) by (auto simp: TasksService_remove_def bindM_Inr_iff dest!: TasksService_findOneOrFail_row)
  show ?thesis
    using set_delete_tasks [OF assms(1), of "\<lambda>j. j = i"] by (simp add: s' [symmetric])
qed

lemma ex_remove: "TasksService_remove ''w1'' ''p1'' ''t1'' ex_app =
    (Inr (), ex_app\<lparr>tasks := [ex_task ''t3'' None (Some ''u2'')], comments := []\<rparr>)"
  by code_simp

theorem TasksService_remove_exact_witness:
  "set (tasks (snd (TasksService_remove ''w1'' ''p1'' ''t1'' ex_app))) =
      {t \<in> set (tasks ex_app). \<not> under (task_up ex_app) ''t1'' (t_id t)} \<and>
    set (comments (snd (TasksService_remove ''w1'' ''p1'' ''t1'' ex_app))) =
      {c \<in> set (comments ex_app). has_id t_id (tasks (snd (TasksService_remove ''w1'' ''p1'' ''t1'' ex_app))) (c_taskId c)} \<and>
    set (activities (snd (TasksService_remove ''w1'' ''p1'' ''t1'' ex_app))) =
      {a \<in> set (activities ex_app). has_id t_id (tasks (snd (TasksService_remove ''w1'' ''p1'' ''t1'' ex_app))) (a_taskId a)} \<and>
    set (reminders (snd (TasksService_remove ''w1'' ''p1'' ''t1'' ex_app))) =
      {r \<in> set (reminders ex_app). has_id t_id (tasks (snd (TasksService_remove ''w1'' ''p1'' ''t1'' ex_app))) (r_taskId r)}"
  by (rule TasksService_remove_exact [OF ex_app_ok, of "''w1''" "''p1''"]) (simp add: ex_remove)

text \<open>
  Creating a subtask puts it one level below its parent whatever the parent's depth: unlike
  \<open>moveTask\<close>, \<open>create\<close> does not enforce \<open>MAX_DEPTH\<close>.
\<close>

theorem TasksService_create_depth:
  assumes ok: "app_ok s" and q: "reachable_task w p q s" and par: "ct_parentTaskId dto = Some (t_id q)"
    and ids: "t_id q \<noteq> []" "\<not> has_id t_id (tasks s) nid" "has_id u_id (users s) u"
    and dto: "length (ct_title dto) \<le> 200" "has_id_opt u_id (users s) (ct_assigneeId dto)"
  shows "\<exists>r s'. TasksService_create w p u dto nid now s = (Inr r, s') \<and> t_id r = nid \<and>
    t_parentTaskId r = Some (t_id q) \<and> depth_of (task_up s') nid = Suc (depth_of (task_up s) (t_id q))"
proof -
  have qin: "q \<in> set (tasks s)" and qp: "t_projectId q = p"
    and ex: "exists_row (\<lambda>r. p_id r = p \<and> p_workspaceId r = w) (projects s)"
    using q by (simp_all add: reachable_task_def)
  obtain pr where pr: "ProjectsService_findOneOrFail w p s = (Inr pr, s)" by (rule projects_find_exists [OF ex])
  have find: "List.find (\<lambda>t. t_id t = t_id q \<and> t_projectId t = p) (tasks s) = Some q"
    using find_two [OF app_ok_tasks(2) [OF ok] qin, of "\<lambda>x. t_projectId x = p"] qp by simp
  define r where "r = \<lparr>t_id = nid, t_projectId = p, t_parentTaskId = Some (t_id q), t_title = ct_title dto,
      t_description = ct_description dto, t_status = TODO,
      t_priority = (case ct_priority dto of None \<Rightarrow> MEDIUM | Some p \<Rightarrow> p),
      t_assigneeId = ct_assigneeId dto, t_createdBy = u, t_dueDate = ct_dueDate dto, t_completedAt = None,
      t_createdAt = now, t_updatedAt = now\<rparr>"
  have "t_id q \<noteq> nid" using qin ids(2) by auto
  moreover have "has_id p_id (projects s) p" using ok qin qp by (auto simp: app_ok_def tasks_ok_def)
  ultimately have ins: "insert_task r s = Inr (s\<lparr>tasks := tasks s @ [r]\<rparr>)"
    using ids dto qin by (auto simp: insert_task_def task_checks_def r_def)
  obtain s' where run: "TasksService_create w p u dto nid now s = (Inr r, s')" and ts: "tasks s' = tasks s @ [r]"
    using ids(1) by (cases "truthy (t_assigneeId r)")
      (auto simp: TasksService_create_def bindM_def pr par tasks_find_in_project_def reads_def
        find ret_def writes_def ins r_def [symmetric] Let_def modifies_def)
  have "depth_of (task_up s') nid = Suc (depth_of (task_up s) (t_id q))"
    using depth_of_new [OF app_ok_tasks(1) [OF ok], of r "t_id q"] ids(2) qin
    by (simp add: ts r_def has_id_image)
  with run show ?thesis by (intro exI [of _ r] exI [of _ s']) (simp add: r_def)
qed

definition ex_create :: create_task_dto where
  "ex_create = \<lparr>ct_title = ''sub'', ct_description = None, ct_priority = None, ct_assigneeId = None,
     ct_dueDate = None, ct_parentTaskId = Some ''t1''\<rparr>"

theorem TasksService_create_depth_witness:
  "\<exists>r s'. TasksService_create ''w1'' ''p1'' ''u2'' ex_create ''t9'' 7 ex_app = (Inr r, s') \<and> t_id r = ''t9'' \<and>
    t_parentTaskId r = Some (t_id (ex_task ''t1'' None None)) \<and>
    depth_of (task_up s') ''t9'' = Suc (depth_of (task_up ex_app) (t_id (ex_task ''t1'' None None)))"
  by (rule TasksService_create_depth [OF ex_app_ok ex_reachable(2)])
    (simp_all add: ex_create_def ex_task_def ex_user_def has_id_def)

text \<open>
  C9.  The recursive queries end: for any id, in any project, the queries for the descendants, the ancestors and
  the subtree of a task find no more rows at some level, so that any larger bound on the levels gives the same
  rows; the descendants are different tasks, no more than there are.
\<close>

theorem recursive_queries_end:
  assumes ok: "app_ok s" and n: "cte_fuel (tasks s) \<le> n"
  shows "\<exists>D A S. cte_descendants i s = Some D \<and> cte_ancestors i s = Some A \<and> cte_subtree p i s = Some S \<and>
    cte (join_down t_id t_parentTaskId (tasks s)) n 0 (filter (\<lambda>t. t_id t = i) (tasks s)) = Some D \<and>
    cte (join_up t_id t_parentTaskId (tasks s)) n 0 (filter (\<lambda>t. t_id t = i) (tasks s)) = Some A \<and>
    distinct (map (t_id \<circ> fst) D) \<and> length D \<le> length (tasks s)"
proof -
  let ?down = "join_down t_id t_parentTaskId (tasks s)" and ?up = "join_up t_id t_parentTaskId (tasks s)"
  let ?is = "filter (\<lambda>t. t_id t = i) (tasks s)" and ?f = "cte_fuel (tasks s)"
  have "\<exists>D A. cte ?down ?f 0 ?is = Some D \<and> cte ?up ?f 0 ?is = Some A \<and> distinct (map (t_id \<circ> fst) D) \<and> fst ` set D \<subseteq> set (tasks s)"
  proof (cases "\<exists>a \<in> set (tasks s). t_id a = i")
    case False
    then have none: "?is = []" by (auto simp: filter_empty_conv)
    show ?thesis unfolding none by (simp add: cte_fuel_def)
  next
    case True
    then obtain a where a: "a \<in> set (tasks s)" "t_id a = i" by blast
    then have one: "?is = [a]" using filter_by_id [OF app_ok_tasks(2) [OF ok] a(1)] by simp
    obtain D where D: "cte ?down ?f 0 [a] = Some D" "distinct (map (t_id \<circ> fst) D)"
      and mem: "\<And>r e. (r, e) \<in> set D \<longleftrightarrow> r \<in> set (tasks s) \<and> climb (task_up s) e (t_id r) = Some (t_id a)"
      by (rule task_tree.subtree_query [OF ok a(1)]) (rule that)
    have rows: "fst ` set D \<subseteq> set (tasks s)" by (auto simp: mem)
    obtain A where A: "cte ?up ?f 0 [a] = Some A"
      by (rule task_tree.ancestors_query [OF ok a(1)]) (rule that)
    from D A rows show ?thesis unfolding one by blast
  qed
  then obtain D A where D: "cte ?down ?f 0 ?is = Some D" "distinct (map (t_id \<circ> fst) D)" "fst ` set D \<subseteq> set (tasks s)"
    and A: "cte ?up ?f 0 ?is = Some A" by blast
  have "cte ?down ?f 0 (filter (\<lambda>t. t_id t = i \<and> t_projectId t = p) (tasks s)) \<noteq> None"
  proof (cases "\<exists>a \<in> set (tasks s). t_id a = i \<and> t_projectId a = p")
    case False
    then have none: "filter (\<lambda>t. t_id t = i \<and> t_projectId t = p) (tasks s) = []" by (auto simp: filter_empty_conv)
    show ?thesis unfolding none by (simp add: cte_fuel_def)
  next
    case True
    then obtain a where a: "a \<in> set (tasks s)" "t_id a = i" "t_projectId a = p" by blast
    have "filter (\<lambda>t. t_id t = i \<and> t_projectId t = p) (tasks s) = filter (\<lambda>t. t_projectId t = p) ?is"
      by (simp add: filter_filter conj_commute)
    also have "\<dots> = ?is"
      using filter_by_id [OF app_ok_tasks(2) [OF ok] a(1)] a by simp
    finally show ?thesis using D(1) by simp
  qed
  then obtain S where "cte_subtree p i s = Some S" by (auto simp: cte_subtree_def)
  moreover have "length D \<le> length (tasks s)"
  proof -
    have "length D = card (set (map (t_id \<circ> fst) D))" using D(2) by (metis distinct_card length_map)
    also have "\<dots> \<le> card (t_id ` set (tasks s))" using D(3) by (intro card_mono) auto
    also have "\<dots> \<le> length (tasks s)" by (metis card_length length_map set_map)
    finally show ?thesis .
  qed
  ultimately show ?thesis
    using D A cte_more [OF D(1) n] cte_more [OF A n] by (simp add: cte_descendants_def cte_ancestors_def)
qed

theorem recursive_queries_end_witness:
  "\<exists>D. cte_descendants ''t1'' ex_app = Some D \<and> length D \<le> length (tasks ex_app)"
  using recursive_queries_end [OF ex_app_ok order.refl, of "''t1''" "''p1''"] by blast

end
