(* ===== verification/Comments.thy ===== *)
theory Comments
  imports Tasks
begin

text \<open>
  \<open>CommentsService\<close> (\<open>src/modules/comments/comments.service.ts\<close>): the comments on a task and the
  replies to them.  Every operation first looks the task up through its project and workspace.
\<close>

record create_comment_dto =
  cc_body :: string
  cc_parentCommentId :: "uuid option"

record list_comments_query =
  lc_parentCommentId :: "uuid option"
  lc_topLevel :: bool

section \<open>Operations\<close>

definition comments_find_on_task :: "uuid \<Rightarrow> uuid \<Rightarrow> http_error \<Rightarrow> (app, comment) svc" where
  "comments_find_on_task taskId commentId e =
     reads (\<lambda>s. case List.find (\<lambda>c. c_id c = commentId \<and> c_taskId c = taskId) (comments s) of
                  None \<Rightarrow> Inl e | Some c \<Rightarrow> Inr c)"

definition CommentsService_create ::
    "uuid \<Rightarrow> uuid \<Rightarrow> uuid \<Rightarrow> uuid \<Rightarrow> create_comment_dto \<Rightarrow> uuid \<Rightarrow> pg_time \<Rightarrow> (app, comment) svc" where
  "CommentsService_create workspaceId projectId taskId authorId dto nid now =
     bindM (TasksService_findOneOrFail workspaceId projectId taskId) (\<lambda>task.
     bindM (if truthy (cc_parentCommentId dto)
            then bindM (comments_find_on_task taskId (the (cc_parentCommentId dto))
                   (BadRequest ''Parent comment not found on this task'')) (\<lambda>parent. ret (Some (c_authorId parent)))
            else ret None) (\<lambda>parentAuthorId.
     let comment = \<lparr>c_id = nid, c_taskId = taskId, c_authorId = authorId,
                     c_parentCommentId = cc_parentCommentId dto, c_body = cc_body dto, c_editedAt = None,
                     c_createdAt = now, c_updatedAt = now\<rparr>
     in bindM (writes (insert_comment comment)) (\<lambda>_.
        bindM (modifies (emit (CommentCreated (c_id comment) taskId authorId (c_parentCommentId comment)
                                 (t_assigneeId task)))) (\<lambda>_.
        bindM (if truthy (c_parentCommentId comment) \<and> truthy parentAuthorId
               then modifies (emit (CommentReplied (c_id comment) taskId (the (c_parentCommentId comment))
                                      (the parentAuthorId) authorId))
               else ret ()) (\<lambda>_.
        ret comment)))))"

definition comments_scope :: "uuid \<Rightarrow> list_comments_query \<Rightarrow> app \<Rightarrow> comment list" where
  "comments_scope taskId q s =
     filter (\<lambda>c. c_taskId c = taskId \<and>
       (if truthy (lc_parentCommentId q) then c_parentCommentId c = lc_parentCommentId q
        else lc_topLevel q \<longrightarrow> c_parentCommentId c = None)) (comments s)"

definition CommentsService_list ::
    "casts \<Rightarrow> uuid \<Rightarrow> uuid \<Rightarrow> uuid \<Rightarrow> list_comments_query \<Rightarrow> nat option \<Rightarrow> string option \<Rightarrow> (app, comment page) svc" where
  "CommentsService_list cs workspaceId projectId taskId q lim cursor =
     bindM (TasksService_findOneOrFail workspaceId projectId taskId) (\<lambda>_.
     reads (\<lambda>s. keyset_page cs c_createdAt c_id lim cursor (comments_scope taskId q s)))"

definition CommentsService_findOneOrFail :: "uuid \<Rightarrow> uuid \<Rightarrow> uuid \<Rightarrow> uuid \<Rightarrow> (app, comment) svc" where
  "CommentsService_findOneOrFail workspaceId projectId taskId commentId =
     bindM (TasksService_findOneOrFail workspaceId projectId taskId) (\<lambda>_.
     comments_find_on_task taskId commentId (NotFound ''Comment not found''))"

definition save_comment :: "pg_time \<Rightarrow> comment \<Rightarrow> comment \<Rightarrow> (app, comment) svc" where
  "save_comment now old new =
     (if new = old then ret old
      else let r = new\<lparr>c_updatedAt := now\<rparr>
           in bindM (modifies (\<lambda>s. s\<lparr>comments := update_row c_id r (comments s)\<rparr>)) (\<lambda>_. ret r))"

definition CommentsService_update ::
    "uuid \<Rightarrow> uuid \<Rightarrow> uuid \<Rightarrow> uuid \<Rightarrow> uuid \<Rightarrow> string \<Rightarrow> pg_time \<Rightarrow> (app, comment) svc" where
  "CommentsService_update workspaceId projectId taskId commentId actorId body now =
     bindM (CommentsService_findOneOrFail workspaceId projectId taskId commentId) (\<lambda>comment.
     bindM (guardM (c_authorId comment = actorId) (Forbidden ''Only the author can edit this comment'')) (\<lambda>_.
     save_comment now comment (comment\<lparr>c_body := body, c_editedAt := Some (to_js now)\<rparr>)))"

definition CommentsService_remove ::
    "uuid \<Rightarrow> uuid \<Rightarrow> uuid \<Rightarrow> uuid \<Rightarrow> uuid \<Rightarrow> workspace_role option \<Rightarrow> (app, unit) svc" where
  "CommentsService_remove workspaceId projectId taskId commentId actorId actorRole =
     bindM (CommentsService_findOneOrFail workspaceId projectId taskId commentId) (\<lambda>comment.
     bindM (guardM (\<not> (c_authorId comment \<noteq> actorId \<and> actorRole \<noteq> Some ADMIN))
              (Forbidden ''Only the author or a workspace admin can delete this comment'')) (\<lambda>_.
     modifies (delete_comment (c_id comment))))"

section \<open>Lemmas\<close>

lemma comments_find_on_task_Inr:
  "comments_find_on_task t i e s = (Inr c, s') \<longleftrightarrow>
     s' = s \<and> List.find (\<lambda>c. c_id c = i \<and> c_taskId c = t) (comments s) = Some c"
  by (auto simp: comments_find_on_task_def split: option.splits)

lemma CommentsService_findOneOrFail_row:
  "CommentsService_findOneOrFail w p t i s = (Inr c, s') \<Longrightarrow>
     s' = s \<and> c \<in> set (comments s) \<and> c_id c = i \<and> c_taskId c = t \<and>
     (\<exists>x. reachable_task w p x s \<and> t_id x = t)"
  by (fastforce simp: CommentsService_findOneOrFail_def bindM_Inr_iff comments_find_on_task_Inr
      reachable_task_def exists_row_def dest!: TasksService_findOneOrFail_row find_SomeD)

lemma CommentsService_findOneOrFail_keeps [svc_ok]: "keeps app_ok (CommentsService_findOneOrFail w p t i)"
  unfolding CommentsService_findOneOrFail_def comments_find_on_task_def
  by (intro keeps_intros svc_ok)

lemma CommentsService_findOneOrFail_ensures:
  "ensures app_ok (CommentsService_findOneOrFail w p t i) (\<lambda>c s. app_ok s \<and> c \<in> set (comments s)) (\<lambda>_. app_ok)"
  by (rule ensuresI)
    (use CommentsService_findOneOrFail_keeps [of w p t i] in
      \<open>auto dest: keepsD dest!: CommentsService_findOneOrFail_row\<close>)

lemma CommentsService_update_keeps: "keeps app_ok (CommentsService_update w p t i u body now)"
  unfolding keeps_ensures CommentsService_update_def
proof (rule ensures_bindM [OF CommentsService_findOneOrFail_ensures])
  fix c :: comment
  let ?new = "c\<lparr>c_body := body, c_editedAt := Some (to_js now)\<rparr>"
  let ?P = "\<lambda>s. app_ok s \<and> c \<in> set (comments s)"
  have 1: "ensures ?P (guardM (c_authorId c = u) e) (\<lambda>_. ?P) (\<lambda>_. app_ok)" for e
    by (rule ensuresI) auto
  have 2: "ensures ?P (save_comment now c ?new) (\<lambda>_. app_ok) (\<lambda>_. app_ok)"
    by (rule ensuresI)
      (auto simp: save_comment_def Let_def bindM_Inr_iff bindM_Inl_iff intro!: update_comment_ok split: if_splits)
  show "ensures ?P (bindM (guardM (c_authorId c = u) (Forbidden ''Only the author can edit this comment''))
      (\<lambda>_. save_comment now c ?new)) (\<lambda>_. app_ok) (\<lambda>_. app_ok)"
    by (rule ensures_bindM [OF 1 2])
qed

lemma CommentsService_remove_keeps: "keeps app_ok (CommentsService_remove w p t i u role)"
  unfolding CommentsService_remove_def
  by (intro keeps_intros svc_ok keeps_modifies) (rule delete_comment_ok)

definition valid_create_comment :: "create_comment_dto \<Rightarrow> bool" where
  "valid_create_comment dto \<longleftrightarrow> cc_parentCommentId dto \<noteq> Some []"

lemma app_ok_comments:
  assumes "app_ok s"
  shows "forest c_id c_parentCommentId (comments s)" "distinct (map c_id (comments s))" "same_task (comments s)"
  using assms by (auto simp: app_ok_def comments_ok_def forest_def)

lemma CommentsService_create_keeps:
  assumes valid: "valid_create_comment dto"
  shows "keeps app_ok (CommentsService_create w p t u dto nid now)"
  unfolding keeps_ensures CommentsService_create_def
proof (rule ensures_bindM [OF TasksService_findOneOrFail_keeps [unfolded keeps_ensures]])
  fix task :: task
  let ?par = "cc_parentCommentId dto"
  let ?find = "if truthy ?par
      then bindM (comments_find_on_task t (the ?par) (BadRequest ''Parent comment not found on this task''))
        (\<lambda>parent. ret (Some (c_authorId parent)))
      else ret None"
  let ?P = "\<lambda>s. app_ok s \<and> (\<forall>q \<in> set (comments s). ?par = Some (c_id q) \<longrightarrow> c_taskId q = t)"
  have 1: "ensures app_ok ?find (\<lambda>_. ?P) (\<lambda>_. app_ok)"
  proof (rule ensuresI)
    fix s a s' assume ok: "app_ok s" and run: "?find s = (Inr a, s')"
    show "?P s'"
    proof (cases "truthy ?par")
      case True
      then obtain c where "s' = s" "c \<in> set (comments s)" "?par = Some (c_id c)" "c_taskId c = t"
        using run by (cases ?par) (auto simp: bindM_Inr_iff comments_find_on_task_Inr dest: find_SomeD)
      then show ?thesis
        using ok distinct_key_eq [OF app_ok_comments(2) [OF ok] \<open>c \<in> set (comments s)\<close>] by auto
    next
      case False
      then have "?par = None" using valid by (cases ?par) (auto simp: valid_create_comment_def)
      then show ?thesis using run ok by simp
    qed
  qed (auto simp: bindM_Inl_iff comments_find_on_task_def split: if_splits)
  let ?comment = "\<lparr>c_id = nid, c_taskId = t, c_authorId = u, c_parentCommentId = ?par, c_body = cc_body dto,
      c_editedAt = None, c_createdAt = now, c_updatedAt = now\<rparr>"
  have 2: "ensures ?P (writes (insert_comment ?comment)) (\<lambda>_. app_ok) (\<lambda>_. app_ok)"
    by (rule ensuresI) (auto intro: insert_comment_ok)
  show "ensures app_ok (bindM ?find (\<lambda>parentAuthorId. let comment = ?comment in
      bindM (writes (insert_comment comment)) (\<lambda>_.
        bindM (modifies (emit (CommentCreated (c_id comment) t u (c_parentCommentId comment) (t_assigneeId task)))) (\<lambda>_.
        bindM (if truthy (c_parentCommentId comment) \<and> truthy parentAuthorId
               then modifies (emit (CommentReplied (c_id comment) t (the (c_parentCommentId comment)) (the parentAuthorId) u))
               else ret ()) (\<lambda>_.
        ret comment)))))
    (\<lambda>_. app_ok) (\<lambda>_. app_ok)"
    unfolding Let_def
    by (intro ensures_bindM [OF 1] ensures_bindM [OF 2])
      (auto intro!: keeps_intros keeps_modifies simp flip: keeps_ensures)
qed

definition task_denied :: "uuid \<Rightarrow> uuid \<Rightarrow> uuid \<Rightarrow> app \<Rightarrow> http_error option" where
  "task_denied w p t s =
     (case project_denied w p s of Some e \<Rightarrow> Some e
      | None \<Rightarrow> if exists_row (\<lambda>x. t_id x = t \<and> t_projectId x = p) (tasks s) then None
                else Some (NotFound ''Task not found''))"

lemma TasksService_findOneOrFail_denied:
  "fst (bindM (TasksService_findOneOrFail w p t) (\<lambda>_. reads f) s) =
     (case task_denied w p t s of Some e \<Rightarrow> Inl e | None \<Rightarrow> f s)"
  by (auto simp: task_denied_def project_denied_def exists_row_find TasksService_findOneOrFail_def
      ProjectsService_findOneOrFail_def tasks_find_in_project_def bindM_def reads_def split: option.split)

interpretation comment_feed: paged_feed cs c_createdAt c_id app_ok "\<lambda>s (w, p, t, q). task_denied w p t s"
    "\<lambda>s (w, p, t, q). comments_scope t q s" "\<lambda>s (w, p, t, q) lim c. fst (CommentsService_list cs w p t q lim c s)"
  for cs
proof
  fix s :: app and q
  assume "app_ok s"
  then show "distinct (map c_id (case q of (w, p, t, q) \<Rightarrow> comments_scope t q s))"
    by (auto simp: comments_scope_def app_ok_comments distinct_map_filterI split: prod.split)
qed (auto simp: CommentsService_list_def TasksService_findOneOrFail_denied split: prod.splits)

section \<open>Properties\<close>

text \<open>
  Only the author edits a comment: an edit that succeeds was asked for by the comment's author,
  and changes its body and its dates and nothing else in the database.
\<close>

theorem CommentsService_update_author:
  assumes "app_ok s" and "CommentsService_update w p t i u body now s = (Inr r, s')"
  shows "\<exists>c \<in> set (comments s). c_id c = i \<and> c_taskId c = t \<and> c_authorId c = u \<and>
    r = c\<lparr>c_body := body, c_editedAt := Some (to_js now), c_updatedAt := c_updatedAt r\<rparr> \<and>
    s' = s\<lparr>comments := update_row c_id r (comments s)\<rparr>"
proof -
  obtain c where c: "c \<in> set (comments s)" "c_id c = i" "c_taskId c = t" "c_authorId c = u"
    and run: "save_comment now c (c\<lparr>c_body := body, c_editedAt := Some (to_js now)\<rparr>) s = (Inr r, s')"
    using assms(2) by (auto simp: CommentsService_update_def bindM_Inr_iff dest!: CommentsService_findOneOrFail_row)
  have "update_row c_id c (comments s) = comments s"
    by (rule update_row_id) (rule distinct_key_eq [OF app_ok_comments(2) [OF assms(1)] _ c(1)])
  then show ?thesis
    using c run by (intro bexI [OF _ c(1)]) (auto simp: save_comment_def Let_def bindM_Inr_iff split: if_splits)
qed

lemma ex_comment_update:
  "CommentsService_update ''w1'' ''p1'' ''t1'' ''c2'' ''u2'' ''new'' 5000 ex_app =
    (Inr ((ex_comment ''c2'' (Some ''c1''))\<lparr>c_body := ''new'', c_editedAt := Some 5, c_updatedAt := 5000\<rparr>),
     ex_app\<lparr>comments := [ex_comment ''c1'' None,
       (ex_comment ''c2'' (Some ''c1''))\<lparr>c_body := ''new'', c_editedAt := Some 5, c_updatedAt := 5000\<rparr>]\<rparr>)"
  by code_simp

theorem CommentsService_update_author_witness:
  "\<exists>c \<in> set (comments ex_app). c_id c = ''c2'' \<and> c_taskId c = ''t1'' \<and> c_authorId c = ''u2''"
  using CommentsService_update_author [OF ex_app_ok ex_comment_update] by blast

text \<open>
  A comment is deleted by its author or by an ADMIN of the workspace only, and takes with it
  exactly the replies below it; any other caller is refused with 403 and nothing changes.
\<close>

theorem CommentsService_remove_permission:
  assumes "app_ok s" and "c \<in> set (comments s)" and "c_id c = i" and "c_taskId c = t"
    and "task_denied w p t s = None"
  shows "CommentsService_remove w p t i u role s =
    (if c_authorId c = u \<or> role = Some ADMIN then (Inr (), delete_comment i s)
     else (Inl (Forbidden ''Only the author or a workspace admin can delete this comment''), s)) \<and>
    set (comments (delete_comment i s)) =
      {x \<in> set (comments s). \<not> under (parent_of c_id c_parentCommentId (comments s)) i (c_id x)}"
proof -
  have "List.find (\<lambda>x. c_id x = i \<and> c_taskId x = t) (comments s) = Some c"
    using find_two [OF app_ok_comments(2) [OF assms(1)] assms(2), of "\<lambda>x. c_taskId x = t"] assms(3,4) by simp
  then have "CommentsService_findOneOrFail w p t i s = (Inr c, s)"
    using assms(5)
    by (auto simp: CommentsService_findOneOrFail_def comments_find_on_task_def task_denied_def project_denied_def
        exists_row_find TasksService_findOneOrFail_def ProjectsService_findOneOrFail_def tasks_find_in_project_def
        bindM_def reads_def split: option.splits if_splits)
  then have "CommentsService_remove w p t i u role s =
    (if c_authorId c = u \<or> role = Some ADMIN then (Inr (), delete_comment i s)
     else (Inl (Forbidden ''Only the author or a workspace admin can delete this comment''), s))"
    using assms(3) by (auto simp: CommentsService_remove_def bindM_def guardM_def ret_def throw_def modifies_def)
  moreover have "set (comments (delete_comment i s)) =
      {x \<in> set (comments s). \<not> under (parent_of c_id c_parentCommentId (comments s)) i (c_id x)}"
    by (simp add: delete_comment_def comment_tree.delete_query [OF assms(1)])
  ultimately show ?thesis by blast
qed

theorem CommentsService_remove_permission_witness:
  "CommentsService_remove ''w1'' ''p1'' ''t1'' ''c1'' ''u1'' (Some MEMBER) ex_app =
     (Inl (Forbidden ''Only the author or a workspace admin can delete this comment''), ex_app)"
  using CommentsService_remove_permission [OF ex_app_ok, of "ex_comment ''c1'' None" "''c1''" "''t1''" "''w1''" "''p1''" "''u1''" "Some MEMBER"]
  by (simp add: ex_comment_def task_denied_def project_denied_def exists_row_def ex_app_def ex_task_def)

end
