(* ===== verification/Workspaces.thy ===== *)
theory Workspaces
  imports Example
begin

text \<open>
  \<open>WorkspacesService\<close> (\<open>src/modules/workspaces/workspaces.service.ts\<close>) with its membership cache.  The
  cache is the package \<open>cache-manager\<close>: its operations are a parameter, and the interface
  \<open>membership_cache\<close> states what the service relies on (a value read was the last one set under its
  key, not deleted since and not expired; an entry may disappear at any time).

  The state is the pair of the cache and the database.
\<close>

record create_workspace_dto =
  cw_name :: string
  cw_slug :: "string option"

record 'c cache_ops =
  cache_get :: "'c \<Rightarrow> js_date \<Rightarrow> string \<Rightarrow> member option"
  cache_set :: "'c \<Rightarrow> js_date \<Rightarrow> string \<Rightarrow> member \<Rightarrow> js_date \<Rightarrow> 'c"
  cache_del :: "'c \<Rightarrow> string \<Rightarrow> 'c"

text \<open>A call of a service that only uses the database.\<close>

definition on_db :: "('s, 'a) svc \<Rightarrow> ('c \<times> 's, 'a) svc" where
  "on_db m = (\<lambda>(c, s). case m s of (r, s') \<Rightarrow> (r, (c, s')))"

section \<open>Workspaces\<close>

definition MEMBERSHIP_TTL_MS :: js_date where
  "MEMBERSHIP_TTL_MS = 30000"

definition WorkspacesService_create ::
    "uuid \<Rightarrow> create_workspace_dto \<Rightarrow> uuid \<Rightarrow> uuid \<Rightarrow> pg_time \<Rightarrow> (app, workspace) svc" where
  "WorkspacesService_create ownerId dto wid mid now =
     (let slug = slugify (case cw_slug dto of None \<Rightarrow> cw_name dto | Some s \<Rightarrow> s) in
      transaction (
        bindM (reads (\<lambda>s. if exists_row (\<lambda>w. ci_eq (w_slug w) slug) (workspaces s)
                          then Inl (Conflict ''Workspace slug already taken'') else Inr ())) (\<lambda>_.
        let workspace = \<lparr>w_id = wid, w_name = cw_name dto, w_slug = slug, w_ownerId = ownerId,
                          w_createdAt = now, w_updatedAt = now\<rparr> in
        bindM (writes (insert_workspace workspace)) (\<lambda>_.
        bindM (writes (insert_member \<lparr>m_id = mid, m_workspaceId = w_id workspace, m_userId = ownerId,
                                      m_role = ADMIN, m_joinedAt = now\<rparr>)) (\<lambda>_.
        ret workspace)))))"

text \<open>Newest first; rows of the same instant may come in any order, here in that of the table.\<close>

definition WorkspacesService_listForUser :: "uuid \<Rightarrow> (app, workspace list) svc" where
  "WorkspacesService_listForUser userId =
     reads (\<lambda>s. Inr (sort_key (\<lambda>w. - w_createdAt w)
       (concat (map (\<lambda>w. map (\<lambda>_. w)
          (filter (\<lambda>m. m_workspaceId m = w_id w \<and> m_userId m = userId) (members s))) (workspaces s)))))"

definition WorkspacesService_findByIdOrFail :: "uuid \<Rightarrow> (app, workspace) svc" where
  "WorkspacesService_findByIdOrFail i =
     reads (\<lambda>s. case List.find (\<lambda>w. w_id w = i) (workspaces s) of
                  None \<Rightarrow> Inl (NotFound ''Workspace not found'') | Some w \<Rightarrow> Inr w)"

section \<open>Members\<close>

definition find_member :: "uuid \<Rightarrow> uuid \<Rightarrow> app \<Rightarrow> member option" where
  "find_member workspaceId userId s =
     List.find (\<lambda>m. m_workspaceId m = workspaceId \<and> m_userId m = userId) (members s)"

definition membershipKey :: "uuid \<Rightarrow> uuid \<Rightarrow> string" where
  "membershipKey workspaceId userId = ''membership:'' @ workspaceId @ '':'' @ userId"

definition WorkspacesService_getMembership ::
    "'c cache_ops \<Rightarrow> js_date \<Rightarrow> uuid \<Rightarrow> uuid \<Rightarrow> ('c \<times> app, member option) svc" where
  "WorkspacesService_getMembership ops date workspaceId userId = (\<lambda>(c, s).
     let key = membershipKey workspaceId userId in
     case cache_get ops c date key of
       Some m \<Rightarrow> (Inr (Some m), (c, s))
     | None \<Rightarrow>
         (case find_member workspaceId userId s of
            None \<Rightarrow> (Inr None, (c, s))
          | Some m \<Rightarrow> (Inr (Some m), (cache_set ops c date key m MEMBERSHIP_TTL_MS, s))))"

definition WorkspacesService_listMembers :: "uuid \<Rightarrow> (app, (member \<times> user option) list) svc" where
  "WorkspacesService_listMembers workspaceId =
     reads (\<lambda>s. Inr (map (\<lambda>m. (m, List.find (\<lambda>u. u_id u = m_userId m) (users s)))
       (sort_key m_joinedAt (filter (\<lambda>m. m_workspaceId m = workspaceId) (members s)))))"

definition invalidateMembership :: "'c cache_ops \<Rightarrow> uuid \<Rightarrow> uuid \<Rightarrow> ('c \<times> app, unit) svc" where
  "invalidateMembership ops workspaceId userId =
     modifies (\<lambda>(c, s). (cache_del ops c (membershipKey workspaceId userId), s))"

text \<open>The checks that \<open>updateMemberRole\<close> and \<open>removeMember\<close> share: the membership they act on.\<close>

definition member_to_change :: "uuid \<Rightarrow> uuid \<Rightarrow> string \<Rightarrow> (app, member) svc" where
  "member_to_change workspaceId targetUserId refusal =
     bindM (WorkspacesService_findByIdOrFail workspaceId) (\<lambda>workspace.
     bindM (guardM (w_ownerId workspace \<noteq> targetUserId) (Forbidden refusal)) (\<lambda>_.
     reads (\<lambda>s. case find_member workspaceId targetUserId s of
                  None \<Rightarrow> Inl (NotFound ''Member not found'') | Some m \<Rightarrow> Inr m)))"

definition WorkspacesService_updateMemberRole ::
    "'c cache_ops \<Rightarrow> uuid \<Rightarrow> uuid \<Rightarrow> workspace_role \<Rightarrow> ('c \<times> app, member) svc" where
  "WorkspacesService_updateMemberRole ops workspaceId targetUserId role =
     bindM (on_db (member_to_change workspaceId targetUserId ''The workspace owner role cannot be changed'')) (\<lambda>membership.
     let saved = membership\<lparr>m_role := role\<rparr> in
     bindM (on_db (modifies (\<lambda>s. s\<lparr>members := update_row m_id saved (members s)\<rparr>))) (\<lambda>_.
     bindM (invalidateMembership ops workspaceId targetUserId) (\<lambda>_.
     ret saved)))"

definition WorkspacesService_removeMember ::
    "'c cache_ops \<Rightarrow> uuid \<Rightarrow> uuid \<Rightarrow> ('c \<times> app, unit) svc" where
  "WorkspacesService_removeMember ops workspaceId targetUserId =
     bindM (on_db (member_to_change workspaceId targetUserId ''The workspace owner cannot be removed'')) (\<lambda>membership.
     bindM (on_db (modifies (delete_member (m_id membership)))) (\<lambda>_.
     invalidateMembership ops workspaceId targetUserId))"

section \<open>The invariant of the data\<close>

lemma on_db_iff: "on_db m (c, s) = (r, cs') \<longleftrightarrow> (\<exists>s'. m s = (r, s') \<and> cs' = (c, s'))"
  by (auto simp: on_db_def split: prod.splits)

lemma keeps_on_db: "keeps I m \<Longrightarrow> keeps (\<lambda>cs. I (snd cs)) (on_db m)"
  by (auto simp: keeps_def on_db_def split: prod.splits)

lemma find_member_row:
  "find_member w u s = Some m \<Longrightarrow> m \<in> set (members s) \<and> m_workspaceId m = w \<and> m_userId m = u"
  by (auto simp: find_member_def dest: find_SomeD)

lemma app_ok_members:
  assumes "app_ok s"
  shows "distinct (map m_id (members s))" "distinct (map (\<lambda>m. (m_workspaceId m, m_userId m)) (members s))"
    and "w \<in> set (workspaces s) \<Longrightarrow> owner_is_admin (members s) w"
    and "distinct (map w_id (workspaces s))"
  using assms by (auto simp: app_ok_def members_ok_def workspaces_ok_def)

lemma find_member_in:
  assumes "app_ok s" and "m \<in> set (members s)"
  shows "find_member (m_workspaceId m) (m_userId m) s = Some m"
proof -
  have "(\<lambda>x. m_workspaceId x = m_workspaceId m \<and> m_userId x = m_userId m) =
      (\<lambda>x. (m_workspaceId x, m_userId x) = (m_workspaceId m, m_userId m))" by auto
  then show ?thesis
    unfolding find_member_def
    using find_key [OF app_ok_members(2) [OF assms(1)] assms(2)] by simp
qed

lemma member_to_change_Inr:
  "member_to_change w u e s = (Inr m, s') \<Longrightarrow>
     s' = s \<and> find_member w u s = Some m \<and> (\<exists>x \<in> set (workspaces s). w_id x = w \<and> w_ownerId x \<noteq> u)"
  by (auto simp: member_to_change_def bindM_Inr_iff WorkspacesService_findByIdOrFail_def
      split: option.splits dest!: find_SomeD)

lemma member_to_change_Inl: "member_to_change w u e s = (Inl e', s') \<Longrightarrow> s' = s"
  by (auto simp: member_to_change_def bindM_Inl_iff WorkspacesService_findByIdOrFail_def
      split: option.splits)

text \<open>
  A change of the members that spares the owners' memberships: rows of the same key, and every
  membership of an owner as it was.
\<close>

lemma members_change_ok:
  assumes ok: "app_ok s"
    and keys: "distinct (map m_id ms)" "distinct (map (\<lambda>m. (m_workspaceId m, m_userId m)) ms)"
    and refs: "\<And>m. m \<in> set ms \<Longrightarrow>
      \<exists>x \<in> set (members s). m_workspaceId m = m_workspaceId x \<and> m_userId m = m_userId x"
    and own: "\<And>w m. w \<in> set (workspaces s) \<Longrightarrow> m \<in> set (members s) \<Longrightarrow> m_workspaceId m = w_id w \<Longrightarrow>
      m_userId m = w_ownerId w \<Longrightarrow> m \<in> set ms"
  shows "app_ok (s\<lparr>members := ms\<rparr>)"
proof -
  have old: "members_ok (users s) (workspaces s) (members s)" using ok by (simp add: app_ok_def)
  have "owner_is_admin ms w" if w: "w \<in> set (workspaces s)" for w
    using app_ok_members(3) [OF ok w] own [OF w] by (auto simp: owner_is_admin_def exists_row_def)
  moreover have "has_id w_id (workspaces s) (m_workspaceId m) \<and> has_id u_id (users s) (m_userId m)"
    if "m \<in> set ms" for m
    using old refs [OF that] by (auto simp: members_ok_def)
  ultimately have "members_ok (users s) (workspaces s) ms" using keys by (simp add: members_ok_def)
  then show ?thesis using ok by (simp add: app_ok_def)
qed

lemma role_change_ok:
  assumes ok: "app_ok s" and m: "find_member w u s = Some m"
    and own: "x \<in> set (workspaces s)" "w_id x = w" "w_ownerId x \<noteq> u"
  shows "app_ok (s\<lparr>members := update_row m_id (m\<lparr>m_role := role\<rparr>) (members s)\<rparr>)"
proof (rule members_change_ok [OF ok])
  let ?r = "m\<lparr>m_role := role\<rparr>"
  let ?ms = "update_row m_id ?r (members s)"
  have min: "m \<in> set (members s)" and mk: "m_workspaceId m = w" "m_userId m = u"
    using find_member_row [OF m] by auto
  have same: "y = m" if "y \<in> set (members s)" "m_id y = m_id m" for y
    using distinct_key_eq [OF app_ok_members(1) [OF ok] that(1) min that(2)] .
  show "distinct (map m_id ?ms)" using app_ok_members(1) [OF ok] by simp
  have "map (\<lambda>m. (m_workspaceId m, m_userId m)) ?ms = map (\<lambda>m. (m_workspaceId m, m_userId m)) (members s)"
    by (rule map_update_row) (auto dest: same)
  then show "distinct (map (\<lambda>m. (m_workspaceId m, m_userId m)) ?ms)"
    using app_ok_members(2) [OF ok] by simp
  show "\<exists>y \<in> set (members s). m_workspaceId z = m_workspaceId y \<and> m_userId z = m_userId y" if "z \<in> set ?ms" for z
    using in_update_rowD [OF that] min by auto
  fix y z assume y: "y \<in> set (workspaces s)" and z: "z \<in> set (members s)" "m_workspaceId z = w_id y" "m_userId z = w_ownerId y"
  have "m_id z \<noteq> m_id m"
  proof
    assume "m_id z = m_id m"
    with same z(1) have "z = m" by blast
    with z mk have "w_id y = w" "w_ownerId y = u" by auto
    then have "y = x" using distinct_key_eq [OF app_ok_members(4) [OF ok] y own(1)] own(2) by simp
    with own(3) \<open>w_ownerId y = u\<close> show False by simp
  qed
  with z(1) show "z \<in> set ?ms" by (auto simp: set_update_row)
qed

lemma member_removal_ok:
  assumes ok: "app_ok s" and m: "find_member w u s = Some m"
    and own: "x \<in> set (workspaces s)" "w_id x = w" "w_ownerId x \<noteq> u"
  shows "app_ok (delete_member (m_id m) s)"
  unfolding delete_member_def
proof (rule members_change_ok [OF ok])
  let ?ms = "filter (\<lambda>y. m_id y \<noteq> m_id m) (members s)"
  have min: "m \<in> set (members s)" and mk: "m_workspaceId m = w" "m_userId m = u"
    using find_member_row [OF m] by auto
  show "distinct (map m_id ?ms)" "distinct (map (\<lambda>m. (m_workspaceId m, m_userId m)) ?ms)"
    using app_ok_members(1,2) [OF ok] by (auto intro: distinct_map_filterI)
  fix y z assume y: "y \<in> set (workspaces s)" and z: "z \<in> set (members s)" "m_workspaceId z = w_id y" "m_userId z = w_ownerId y"
  have "m_id z \<noteq> m_id m"
  proof
    assume "m_id z = m_id m"
    then have "z = m" using distinct_key_eq [OF app_ok_members(1) [OF ok] z(1) min] by simp
    with z mk have "w_id y = w" "w_ownerId y = u" by auto
    then have "y = x" using distinct_key_eq [OF app_ok_members(4) [OF ok] y own(1)] own(2) by simp
    with own(3) \<open>w_ownerId y = u\<close> show False by simp
  qed
  with z(1) show "z \<in> set ?ms" by simp
qed auto

lemma new_workspace_ok:
  assumes ok: "app_ok s" and w: "insert_workspace w s = Inr s1"
    and m: "insert_member m s1 = Inr s2"
    and own: "m_workspaceId m = w_id w" "m_userId m = w_ownerId w" "m_role m = ADMIN"
  shows "app_ok s2"
proof -
  have s1: "s1 = s\<lparr>workspaces := workspaces s @ [w]\<rparr>"
    and wk: "\<not> exists_row (\<lambda>x. w_id x = w_id w) (workspaces s)"
      "\<not> exists_row (\<lambda>x. toLowerCase (w_slug x) = toLowerCase (w_slug w)) (workspaces s)"
      "has_id u_id (users s) (w_ownerId w)"
    using w by (simp_all add: insert_workspace_def has_id_exists ci_eq_def)
  have W: "workspaces_ok (users s) (workspaces s @ [w])"
    using ok wk by (simp add: app_ok_def workspaces_ok_def distinct_snoc del: map_append)
  have old: "members_ok (users s) (workspaces s) (members s)" using ok by (simp add: app_ok_def)
  have s2: "s2 = s1\<lparr>members := members s @ [m]\<rparr>" and mk: "distinct (map m_id (members s @ [m]))"
      "distinct (map (\<lambda>m. (m_workspaceId m, m_userId m)) (members s @ [m]))"
      "has_id u_id (users s) (m_userId m)"
    using m old by (simp_all add: s1 insert_member_def members_ok_def has_id_exists distinct_snoc del: map_append)
  have "owner_is_admin (members s @ [m]) x" if "x \<in> set (workspaces s @ [w])" for x
    using that own old by (auto simp: members_ok_def owner_is_admin_def exists_row_def)
  then have M: "members_ok (users s) (workspaces s @ [w]) (members s @ [m])"
    using mk old own by (auto simp: members_ok_def simp del: map_append)
  have "has_id w_id (workspaces s) i \<Longrightarrow> has_id w_id (workspaces s @ [w]) i" for i by simp
  note ok_mono_workspaces [OF this]
  with ok W M show ?thesis by (simp add: app_ok_def s1 s2)
qed

lemma WorkspacesService_create_runs:
  assumes ok: "app_ok s" and run: "WorkspacesService_create u dto wid mid now s = (r, s')"
  shows "case r of
      Inl e \<Rightarrow> s' = s
    | Inr w \<Rightarrow> app_ok s' \<and> w_id w = wid \<and> w_ownerId w = u \<and>
        w_slug w = slugify (case cw_slug dto of None \<Rightarrow> cw_name dto | Some x \<Rightarrow> x) \<and>
        \<not> exists_row (\<lambda>x. ci_eq (w_slug x) (w_slug w)) (workspaces s) \<and>
        workspaces s' = workspaces s @ [w] \<and>
        (\<exists>m. members s' = members s @ [m] \<and> m_workspaceId m = wid \<and> m_userId m = u \<and> m_role m = ADMIN)"
proof (cases r)
  case (Inl e)
  with run show ?thesis by (simp add: WorkspacesService_create_def Let_def transaction_iff)
next
  case (Inr w)
  let ?m = "\<lparr>m_id = mid, m_workspaceId = w_id w, m_userId = u, m_role = ADMIN, m_joinedAt = now\<rparr>"
  from run Inr obtain s1 where
    w: "w = \<lparr>w_id = wid, w_name = cw_name dto,
        w_slug = slugify (case cw_slug dto of None \<Rightarrow> cw_name dto | Some x \<Rightarrow> x), w_ownerId = u,
        w_createdAt = now, w_updatedAt = now\<rparr>"
    and free: "\<not> exists_row (\<lambda>x. ci_eq (w_slug x) (w_slug w)) (workspaces s)"
    and ins: "insert_workspace w s = Inr s1" "insert_member ?m s1 = Inr s'"
    by (auto simp: WorkspacesService_create_def Let_def transaction_iff bindM_Inr_iff split: if_splits)
  have "app_ok s'" by (rule new_workspace_ok [OF ok ins]) (simp_all add: w)
  moreover have "workspaces s' = workspaces s @ [w] \<and> members s' = members s @ [?m]"
    using ins by (auto simp: insert_workspace_def insert_member_def)
  ultimately show ?thesis using Inr free by (auto simp: w)
qed

lemma WorkspacesService_create_keeps: "keeps app_ok (WorkspacesService_create u dto wid mid now)"
proof (rule keepsI)
  fix s r s' assume ok: "app_ok s" and run: "WorkspacesService_create u dto wid mid now s = (r, s')"
  show "app_ok s'" using WorkspacesService_create_runs [OF ok run] ok by (auto split: sum.splits)
qed

lemma WorkspacesService_updateMemberRole_runs:
  "WorkspacesService_updateMemberRole ops w u role (c, s) = (r, cs') \<Longrightarrow>
    (case r of
       Inl e \<Rightarrow> cs' = (c, s)
     | Inr m' \<Rightarrow> \<exists>m x. find_member w u s = Some m \<and> x \<in> set (workspaces s) \<and> w_id x = w \<and> w_ownerId x \<noteq> u \<and>
         m' = m\<lparr>m_role := role\<rparr> \<and>
         cs' = (cache_del ops c (membershipKey w u), s\<lparr>members := update_row m_id m' (members s)\<rparr>))"
  unfolding WorkspacesService_updateMemberRole_def Let_def invalidateMembership_def
  by (auto simp: bindM_Inr_iff bindM_Inl_iff on_db_iff split: sum.split
      dest!: member_to_change_Inr member_to_change_Inl) blast

lemma WorkspacesService_removeMember_runs:
  "WorkspacesService_removeMember ops w u (c, s) = (r, cs') \<Longrightarrow>
    (case r of
       Inl e \<Rightarrow> cs' = (c, s)
     | Inr _ \<Rightarrow> \<exists>m x. find_member w u s = Some m \<and> x \<in> set (workspaces s) \<and> w_id x = w \<and> w_ownerId x \<noteq> u \<and>
         cs' = (cache_del ops c (membershipKey w u), delete_member (m_id m) s))"
  unfolding WorkspacesService_removeMember_def invalidateMembership_def
  by (auto simp: bindM_Inr_iff bindM_Inl_iff on_db_iff split: sum.split
      dest!: member_to_change_Inr member_to_change_Inl) blast

lemma WorkspacesService_updateMemberRole_keeps:
  "keeps (\<lambda>cs. app_ok (snd cs)) (WorkspacesService_updateMemberRole ops w u role)"
  by (rule keepsI)
    (auto dest!: WorkspacesService_updateMemberRole_runs intro: role_change_ok split: sum.splits)

lemma WorkspacesService_removeMember_keeps:
  "keeps (\<lambda>cs. app_ok (snd cs)) (WorkspacesService_removeMember ops w u)"
  by (rule keepsI)
    (auto dest!: WorkspacesService_removeMember_runs intro: member_removal_ok split: sum.splits)

section \<open>The membership cache\<close>

text \<open>The id of a user holds no colon, so different memberships have different keys.\<close>

definition no_colon :: "string \<Rightarrow> bool" where
  "no_colon s \<longleftrightarrow> CHR '':'' \<notin> set s"

lemma append_colon_inject:
  assumes "no_colon x" and "no_colon y"
  shows "a @ CHR '':'' # x = b @ CHR '':'' # y \<longleftrightarrow> a = b \<and> x = y"
proof (induction a arbitrary: b)
  case Nil
  show ?case using assms(1) by (cases b) (auto simp: no_colon_def)
next
  case (Cons h a)
  show ?case
  proof (cases b)
    case Nil
    then show ?thesis using assms(2) by (auto simp: no_colon_def)
  next
    case b: (Cons k b')
    then show ?thesis using Cons.IH [of b'] by auto
  qed
qed

lemma membershipKey_inject:
  "no_colon u \<Longrightarrow> no_colon u' \<Longrightarrow> membershipKey w u = membershipKey w' u' \<longleftrightarrow> w = w' \<and> u = u'"
  by (simp add: membershipKey_def append_colon_inject)

text \<open>Whatever the cache holds is what the table holds.\<close>

definition cache_current :: "'c cache_ops \<Rightarrow> 'c \<times> app \<Rightarrow> bool" where
  "cache_current ops cs \<longleftrightarrow>
     (\<forall>d w u m. no_colon u \<longrightarrow> cache_get ops (fst cs) d (membershipKey w u) = Some m \<longrightarrow>
        find_member w u (snd cs) = Some m)"

locale membership_cache =
  fixes ops :: "'c cache_ops"
  assumes get_set: "cache_get ops (cache_set ops c d k v ttl) d' k' = Some x \<Longrightarrow>
      (if k' = k then x = v \<and> d' \<le> d + ttl else cache_get ops c d' k' = Some x)"
    and get_del: "cache_get ops (cache_del ops c k) d' k' = Some x \<Longrightarrow> k' \<noteq> k \<and> cache_get ops c d' k' = Some x"
begin

lemma getMembership_cases:
  assumes "cache_current ops (c, s)" and "no_colon u"
  shows "\<exists>c'. WorkspacesService_getMembership ops d w u (c, s) = (Inr (find_member w u s), (c', s)) \<and>
    cache_current ops (c', s)"
proof (cases "cache_get ops c d (membershipKey w u)")
  case (Some m)
  with assms have "find_member w u s = Some m" by (auto simp: cache_current_def)
  with Some assms show ?thesis by (simp add: WorkspacesService_getMembership_def Let_def)
next
  case None
  show ?thesis
  proof (cases "find_member w u s")
    case None
    with \<open>cache_get ops c d _ = None\<close> assms show ?thesis
      by (simp add: WorkspacesService_getMembership_def Let_def)
  next
    case (Some m)
    let ?c = "cache_set ops c d (membershipKey w u) m MEMBERSHIP_TTL_MS"
    have "cache_current ops (?c, s)"
      unfolding cache_current_def
    proof (intro allI impI)
      fix d' w' u' x assume w': "no_colon u'" and get: "cache_get ops (fst (?c, s)) d' (membershipKey w' u') = Some x"
      show "find_member w' u' (snd (?c, s)) = Some x"
        using get_set [of c d "membershipKey w u" m MEMBERSHIP_TTL_MS d' "membershipKey w' u'" x] get w' assms Some
        by (auto simp: membershipKey_inject cache_current_def split: if_splits)
    qed
    with None Some show ?thesis by (simp add: WorkspacesService_getMembership_def Let_def)
  qed
qed

text \<open>A change of one membership that drops its key leaves the cache current.\<close>

lemma invalidated_current:
  assumes "cache_current ops (c, s)" and "no_colon u"
    and "\<And>w' u' m. (w', u') \<noteq> (w, u) \<Longrightarrow> find_member w' u' s = Some m \<Longrightarrow> find_member w' u' s' = Some m"
  shows "cache_current ops (cache_del ops c (membershipKey w u), s')"
  unfolding cache_current_def
proof (intro allI impI)
  fix d w' u' x
  assume w': "no_colon u'"
    and get: "cache_get ops (fst (cache_del ops c (membershipKey w u), s')) d (membershipKey w' u') = Some x"
  from get_del [of c "membershipKey w u" d "membershipKey w' u'" x] get
  have "membershipKey w' u' \<noteq> membershipKey w u" "cache_get ops c d (membershipKey w' u') = Some x" by auto
  then have "(w', u') \<noteq> (w, u)" "find_member w' u' s = Some x"
    using assms(1,2) w' by (auto simp: cache_current_def membershipKey_inject)
  with assms(3) show "find_member w' u' (snd (cache_del ops c (membershipKey w u), s')) = Some x" by simp
qed

end

text \<open>
  The store the program configures: entries kept in memory with the time they expire at.
\<close>

definition memory_cache :: "(string \<times> member \<times> js_date) list cache_ops" where
  "memory_cache = \<lparr>
     cache_get = (\<lambda>c d k. case map_of c k of None \<Rightarrow> None | Some (m, e) \<Rightarrow> if d \<le> e then Some m else None),
     cache_set = (\<lambda>c d k m ttl. (k, m, d + ttl) # c),
     cache_del = (\<lambda>c k. filter (\<lambda>e. fst e \<noteq> k) c)\<rparr>"

lemma map_of_filter_key: "map_of (filter (\<lambda>e. fst e \<noteq> k) c) k' = (if k' = k then None else map_of c k')"
  by (induction c) auto

interpretation memory: membership_cache memory_cache
  by unfold_locales (auto simp: memory_cache_def map_of_filter_key split: option.splits if_splits prod.splits)

lemma role_change_find:
  assumes ok: "app_ok s" and m: "find_member w u s = Some m"
    and ok': "app_ok (s\<lparr>members := update_row m_id (m\<lparr>m_role := role\<rparr>) (members s)\<rparr>)"
  shows "find_member w' u' (s\<lparr>members := update_row m_id (m\<lparr>m_role := role\<rparr>) (members s)\<rparr>) =
    (if (w', u') = (w, u) then Some (m\<lparr>m_role := role\<rparr>) else find_member w' u' s)"
proof -
  let ?r = "m\<lparr>m_role := role\<rparr>"
  let ?s = "s\<lparr>members := update_row m_id ?r (members s)\<rparr>"
  have min: "m \<in> set (members s)" and mk: "m_workspaceId m = w" "m_userId m = u"
    using find_member_row [OF m] by auto
  show ?thesis
  proof (cases "(w', u') = (w, u)")
    case True
    have "?r \<in> set (members ?s)" using min by (auto simp: set_update_row)
    from find_member_in [OF ok' this] True mk show ?thesis by simp
  next
    case False
    show ?thesis
    proof (cases "find_member w' u' s")
      case None
      have "find_member w' u' ?s = None"
        using None False mk
        by (auto simp: find_member_def find_None_iff2 dest!: in_update_rowD)
      with None False show ?thesis by auto
    next
      case (Some x)
      then have x: "x \<in> set (members s)" "m_workspaceId x = w'" "m_userId x = u'"
        using find_member_row by auto
      have "m_id x \<noteq> m_id m"
        using distinct_key_eq [OF app_ok_members(1) [OF ok] x(1) min] x mk False by auto
      with x(1) have "x \<in> set (members ?s)" by (auto simp: set_update_row)
      from find_member_in [OF ok' this] x Some False show ?thesis by auto
    qed
  qed
qed

lemma removal_find:
  assumes ok: "app_ok s" and m: "find_member w u s = Some m"
  shows "find_member w' u' (delete_member (m_id m) s) =
    (if (w', u') = (w, u) then None else find_member w' u' s)"
proof -
  have min: "m \<in> set (members s)" and mk: "m_workspaceId m = w" "m_userId m = u"
    using find_member_row [OF m] by auto
  have same: "x = m" if "x \<in> set (members s)" "m_workspaceId x = w" "m_userId x = u" for x
    using distinct_key_eq [OF app_ok_members(2) [OF ok] that(1) min] that mk by simp
  show ?thesis
  proof (cases "(w', u') = (w, u)")
    case True
    then show ?thesis by (auto simp: find_member_def delete_member_def find_None_iff2 dest!: same)
  next
    case False
    have "List.find P (filter (\<lambda>x. m_id x \<noteq> m_id m) t) = List.find P t"
      if "\<And>x. x \<in> set t \<Longrightarrow> P x \<Longrightarrow> m_id x \<noteq> m_id m" for P and t :: "member list"
      using that by (induction t) auto
    moreover have "m_id x \<noteq> m_id m" if "x \<in> set (members s)" "m_workspaceId x = w' \<and> m_userId x = u'" for x
      using distinct_key_eq [OF app_ok_members(1) [OF ok] that(1) min] that(2) mk False by auto
    ultimately show ?thesis using False by (auto simp: find_member_def delete_member_def)
  qed
qed

section \<open>Changes of a membership and the cache\<close>

lemma updateMemberRole_current:
  assumes ops: "membership_cache ops" and ok: "app_ok s" and cur: "cache_current ops (c, s)" and w: "no_colon u"
    and run: "WorkspacesService_updateMemberRole ops w u role (c, s) = (r, cs')"
  shows "cache_current ops cs'"
proof (cases r)
  case (Inl e)
  with WorkspacesService_updateMemberRole_runs [OF run] cur show ?thesis by simp
next
  case (Inr m')
  with WorkspacesService_updateMemberRole_runs [OF run] obtain m x where
    m: "find_member w u s = Some m" "x \<in> set (workspaces s)" "w_id x = w" "w_ownerId x \<noteq> u"
    and m': "m' = m\<lparr>m_role := role\<rparr>"
    and cs': "cs' = (cache_del ops c (membershipKey w u), s\<lparr>members := update_row m_id m' (members s)\<rparr>)"
    by auto
  from role_change_find [OF ok m(1) role_change_ok [OF ok m]]
  show ?thesis unfolding cs' m' by (intro membership_cache.invalidated_current [OF ops cur w]) auto
qed

lemma removeMember_current:
  assumes ops: "membership_cache ops" and ok: "app_ok s" and cur: "cache_current ops (c, s)" and w: "no_colon u"
    and run: "WorkspacesService_removeMember ops w u (c, s) = (r, cs')"
  shows "cache_current ops cs'"
proof (cases r)
  case (Inl e)
  with WorkspacesService_removeMember_runs [OF run] cur show ?thesis by simp
next
  case (Inr x)
  with WorkspacesService_removeMember_runs [OF run] obtain m where
    m: "find_member w u s = Some m"
    and cs': "cs' = (cache_del ops c (membershipKey w u), delete_member (m_id m) s)"
    by auto
  from removal_find [OF ok m] show ?thesis
    unfolding cs' by (intro membership_cache.invalidated_current [OF ops cur w]) auto
qed

section \<open>Properties\<close>

text \<open>
  Creating a workspace is all or nothing: an error leaves the database as it was, and success adds
  one workspace, whose slug is the slug of what was given and was not taken, and one membership,
  by which its owner is an ADMIN of it.
\<close>

theorem WorkspacesService_create_atomic:
  assumes "app_ok s" and "WorkspacesService_create u dto wid mid now s = (r, s')"
  shows "case r of
      Inl e \<Rightarrow> s' = s
    | Inr w \<Rightarrow> app_ok s' \<and> w_id w = wid \<and> w_ownerId w = u \<and>
        w_slug w = slugify (case cw_slug dto of None \<Rightarrow> cw_name dto | Some x \<Rightarrow> x) \<and>
        \<not> exists_row (\<lambda>x. ci_eq (w_slug x) (w_slug w)) (workspaces s) \<and>
        workspaces s' = workspaces s @ [w] \<and>
        (\<exists>m. members s' = members s @ [m] \<and> m_workspaceId m = wid \<and> m_userId m = u \<and> m_role m = ADMIN)"
  by (rule WorkspacesService_create_runs [OF assms])

lemma ex_workspace_create:
  "WorkspacesService_create ''u2'' \<lparr>cw_name = ''My Team'', cw_slug = None\<rparr> ''w2'' ''m1'' 5 ex_app =
    (Inl (QueryFailed (UniqueViolation ''workspace_members_pkey'')), ex_app)"
  by code_simp

theorem WorkspacesService_create_atomic_witness:
  "snd (WorkspacesService_create ''u2'' \<lparr>cw_name = ''My Team'', cw_slug = None\<rparr> ''w2'' ''m1'' 5 ex_app) = ex_app"
  using WorkspacesService_create_atomic [OF ex_app_ok ex_workspace_create] by (simp add: ex_workspace_create)

text \<open>
  The owner of a workspace can be neither demoted nor removed: both calls refuse with 403 and
  change nothing, for whatever role is asked, so the owner stays an ADMIN member.
\<close>

theorem owner_protected:
  assumes "app_ok s" and "x \<in> set (workspaces s)"
  shows "WorkspacesService_updateMemberRole ops (w_id x) (w_ownerId x) role (c, s) =
      (Inl (Forbidden ''The workspace owner role cannot be changed''), (c, s)) \<and>
    WorkspacesService_removeMember ops (w_id x) (w_ownerId x) (c, s) =
      (Inl (Forbidden ''The workspace owner cannot be removed''), (c, s)) \<and>
    (\<exists>m. find_member (w_id x) (w_ownerId x) s = Some m \<and> m_role m = ADMIN)"
proof -
  have "List.find (\<lambda>w. w_id w = w_id x) (workspaces s) = Some x"
    by (rule find_key [OF app_ok_members(4) [OF assms(1)] assms(2)])
  then have "member_to_change (w_id x) (w_ownerId x) e s = (Inl (Forbidden e), s)" for e
    by (simp add: member_to_change_def bindM_def WorkspacesService_findByIdOrFail_def reads_def guardM_def throw_def)
  moreover obtain m where m: "m \<in> set (members s)" "m_workspaceId m = w_id x" "m_userId m = w_ownerId x" "m_role m = ADMIN"
    using app_ok_members(3) [OF assms] by (auto simp: owner_is_admin_def exists_row_def)
  moreover have "find_member (w_id x) (w_ownerId x) s = Some m"
    using find_member_in [OF assms(1) m(1)] m by simp
  ultimately show ?thesis
    by (auto simp: WorkspacesService_updateMemberRole_def WorkspacesService_removeMember_def bindM_def on_db_def)
qed

theorem owner_protected_witness:
  "\<exists>x \<in> set (workspaces ex_app).
    WorkspacesService_updateMemberRole memory_cache (w_id x) (w_ownerId x) MEMBER ([], ex_app) =
      (Inl (Forbidden ''The workspace owner role cannot be changed''), ([], ex_app))"
proof -
  obtain x where x: "x \<in> set (workspaces ex_app)" by (auto simp: ex_app_def)
  from owner_protected [OF ex_app_ok x, of memory_cache MEMBER "[]"] x show ?thesis by blast
qed



end
