(* ===== verification/Auth.thy ===== *)
theory Auth
  imports Example
begin

text \<open>
  Accounts and sessions: \<open>UsersService\<close> (\<open>src/modules/users\<close>), \<open>PasswordService\<close>,
  \<open>RefreshTokenService\<close> and \<open>AuthService\<close> (\<open>src/modules/auth\<close>).

  The packages \<open>argon2\<close> and \<open>@nestjs/jwt\<close> and the hash function of \<open>crypto\<close> are parameters
  (\<open>auth_env\<close>).  What a call draws at random (a salt, a raw token, the ids the database gives) is an
  argument, and so are the clock and the database's \<open>now()\<close>: a call reads each of them once.
\<close>

record session_context =
  ctx_userAgent :: "string option"
  ctx_ip :: "string option"

text \<open>\<open>argon2_verify\<close> is None where \<open>argon2.verify\<close> throws (a hash it cannot parse).\<close>

record auth_env =
  sha256_hex :: "string \<Rightarrow> string"
  argon2_hash :: "string \<Rightarrow> string \<Rightarrow> string"
  argon2_verify :: "string \<Rightarrow> string \<Rightarrow> bool option"
  jwt_sign :: "uuid \<times> string \<Rightarrow> js_date \<Rightarrow> string"

section \<open>Users\<close>

definition UsersService_create :: "string \<Rightarrow> string \<Rightarrow> string \<Rightarrow> uuid \<Rightarrow> pg_time \<Rightarrow> (app, user) svc" where
  "UsersService_create email name passwordHash uid now =
     (let user = \<lparr>u_id = uid, u_email = email, u_passwordHash = passwordHash, u_name = name,
                  u_isActive = True, u_createdAt = now, u_updatedAt = now\<rparr>
      in bindM (writes (insert_user user)) (\<lambda>_. ret user))"

definition UsersService_findById :: "uuid \<Rightarrow> app \<Rightarrow> user option" where
  "UsersService_findById i s = List.find (\<lambda>u. u_id u = i) (users s)"

definition UsersService_findByEmail :: "string \<Rightarrow> app \<Rightarrow> user option" where
  "UsersService_findByEmail email s = List.find (\<lambda>u. ci_eq (u_email u) email) (users s)"

definition UsersService_findByEmailWithSecret :: "string \<Rightarrow> app \<Rightarrow> user option" where
  "UsersService_findByEmailWithSecret email s = List.find (\<lambda>u. ci_eq (u_email u) email) (users s)"

definition UsersService_existsByEmail :: "string \<Rightarrow> app \<Rightarrow> bool" where
  "UsersService_existsByEmail email s \<longleftrightarrow>
     0 < length (filter (\<lambda>u. ci_eq (u_email u) email) (users s))"

text \<open>\<open>GET /users/me\<close>: the columns shown.\<close>

definition UsersController_me :: "uuid \<Rightarrow> (app, uuid \<times> string \<times> string \<times> bool \<times> pg_time) svc" where
  "UsersController_me userId = reads (\<lambda>s.
     case UsersService_findById userId s of
       None \<Rightarrow> Inl (NotFound ''User not found'')
     | Some u \<Rightarrow> Inr (u_id u, u_email u, u_name u, u_isActive u, u_createdAt u))"

section \<open>Passwords\<close>

definition PasswordService_hash :: "auth_env \<Rightarrow> string \<Rightarrow> string \<Rightarrow> string" where
  "PasswordService_hash env salt password = argon2_hash env salt password"

definition PasswordService_verify :: "auth_env \<Rightarrow> string \<Rightarrow> string \<Rightarrow> bool" where
  "PasswordService_verify env hash password =
     (case argon2_verify env hash password of Some b \<Rightarrow> b | None \<Rightarrow> False)"

section \<open>Refresh tokens\<close>

definition RefreshTokenService_hashToken :: "auth_env \<Rightarrow> string \<Rightarrow> string" where
  "RefreshTokenService_hashToken env raw = sha256_hex env raw"

definition RefreshTokenService_createToken ::
    "auth_env \<Rightarrow> int \<Rightarrow> uuid \<Rightarrow> uuid \<Rightarrow> session_context \<Rightarrow> string \<Rightarrow> uuid \<Rightarrow> js_date \<Rightarrow> pg_time \<Rightarrow>
     (app, string) svc" where
  "RefreshTokenService_createToken env ttlMs userId familyId ctx raw rid date now =
     (let token = \<lparr>rt_id = rid, rt_userId = userId,
                   rt_tokenHash = RefreshTokenService_hashToken env raw, rt_familyId = familyId,
                   rt_expiresAt = date + ttlMs, rt_revokedAt = None,
                   rt_userAgent = ctx_userAgent ctx, rt_ip = ctx_ip ctx, rt_createdAt = now\<rparr>
      in bindM (writes (insert_token token)) (\<lambda>_. ret raw))"

definition RefreshTokenService_issueForNewSession ::
    "auth_env \<Rightarrow> int \<Rightarrow> uuid \<Rightarrow> session_context \<Rightarrow> uuid \<Rightarrow> string \<Rightarrow> uuid \<Rightarrow> js_date \<Rightarrow> pg_time \<Rightarrow>
     (app, string) svc" where
  "RefreshTokenService_issueForNewSession env ttlMs userId ctx familyId raw rid date now =
     RefreshTokenService_createToken env ttlMs userId familyId ctx raw rid date now"

definition set_revoked :: "js_date \<Rightarrow> refresh_token \<Rightarrow> refresh_token" where
  "set_revoked date t = t\<lparr>rt_revokedAt := Some date\<rparr>"

definition RefreshTokenService_revokeFamily :: "uuid \<Rightarrow> js_date \<Rightarrow> (app, unit) svc" where
  "RefreshTokenService_revokeFamily familyId date =
     modifies (\<lambda>s. s\<lparr>tokens := update_where (\<lambda>t. rt_familyId t = familyId \<and> rt_revokedAt t = None)
                               (set_revoked date) (tokens s)\<rparr>)"

definition RefreshTokenService_revoke :: "auth_env \<Rightarrow> string \<Rightarrow> js_date \<Rightarrow> (app, unit) svc" where
  "RefreshTokenService_revoke env rawToken date =
     modifies (\<lambda>s. s\<lparr>tokens := update_where
       (\<lambda>t. rt_tokenHash t = RefreshTokenService_hashToken env rawToken \<and> rt_revokedAt t = None)
       (set_revoked date) (tokens s)\<rparr>)"

definition RefreshTokenService_rotate ::
    "auth_env \<Rightarrow> int \<Rightarrow> string \<Rightarrow> session_context \<Rightarrow> string \<Rightarrow> uuid \<Rightarrow> js_date \<Rightarrow> pg_time \<Rightarrow>
     (app, uuid \<times> string) svc" where
  "RefreshTokenService_rotate env ttlMs rawToken ctx nextRaw rid date now =
     bindM (reads (\<lambda>s.
         case List.find (\<lambda>t. rt_tokenHash t = RefreshTokenService_hashToken env rawToken) (tokens s) of
           None \<Rightarrow> Inl (Unauthorized ''Invalid refresh token'') | Some t \<Rightarrow> Inr t)) (\<lambda>current.
     if rt_revokedAt current \<noteq> None
     then bindM (RefreshTokenService_revokeFamily (rt_familyId current) date) (\<lambda>_.
          throw (Unauthorized ''Refresh token reuse detected''))
     else
     bindM (guardM (\<not> rt_expiresAt current < date) (Unauthorized ''Refresh token expired'')) (\<lambda>_.
     bindM (modifies (\<lambda>s. s\<lparr>tokens := update_row rt_id (set_revoked date current) (tokens s)\<rparr>)) (\<lambda>_.
     bindM (RefreshTokenService_createToken env ttlMs (rt_userId current) (rt_familyId current) ctx
              nextRaw rid date now) (\<lambda>raw.
     ret (rt_userId current, raw)))))"

section \<open>Signing up, in and out\<close>

record signup_dto =
  su_email :: string
  su_name :: string
  su_password :: string

record login_dto =
  li_email :: string
  li_password :: string

record auth_response =
  ar_tokenType :: string
  ar_accessToken :: string
  ar_refreshToken :: string
  ar_user :: "uuid \<times> string \<times> string"

definition AuthService_signAccessToken :: "auth_env \<Rightarrow> user \<Rightarrow> js_date \<Rightarrow> string" where
  "AuthService_signAccessToken env user date = jwt_sign env (u_id user, u_email user) date"

definition AuthService_toResponse :: "user \<Rightarrow> string \<Rightarrow> string \<Rightarrow> auth_response" where
  "AuthService_toResponse user accessToken refreshToken =
     \<lparr>ar_tokenType = ''Bearer'', ar_accessToken = accessToken, ar_refreshToken = refreshToken,
      ar_user = (u_id user, u_email user, u_name user)\<rparr>"

definition AuthService_issueTokens ::
    "auth_env \<Rightarrow> int \<Rightarrow> user \<Rightarrow> session_context \<Rightarrow> uuid \<Rightarrow> string \<Rightarrow> uuid \<Rightarrow> js_date \<Rightarrow> pg_time \<Rightarrow>
     (app, auth_response) svc" where
  "AuthService_issueTokens env ttlMs user ctx familyId raw rid date now =
     (let accessToken = AuthService_signAccessToken env user date in
      bindM (RefreshTokenService_issueForNewSession env ttlMs (u_id user) ctx familyId raw rid date now)
        (\<lambda>refreshToken. ret (AuthService_toResponse user accessToken refreshToken)))"

definition AuthService_signup ::
    "auth_env \<Rightarrow> int \<Rightarrow> signup_dto \<Rightarrow> session_context \<Rightarrow> string \<Rightarrow> uuid \<Rightarrow> uuid \<Rightarrow> string \<Rightarrow> uuid \<Rightarrow>
     js_date \<Rightarrow> pg_time \<Rightarrow> (app, auth_response) svc" where
  "AuthService_signup env ttlMs dto ctx salt uid familyId raw rid date now =
     bindM (reads (\<lambda>s. if UsersService_existsByEmail (su_email dto) s
                       then Inl (Conflict ''Email already registered'') else Inr ())) (\<lambda>_.
     let passwordHash = PasswordService_hash env salt (su_password dto) in
     bindM (UsersService_create (su_email dto) (su_name dto) passwordHash uid now) (\<lambda>user.
     AuthService_issueTokens env ttlMs user ctx familyId raw rid date now))"

definition AuthService_login ::
    "auth_env \<Rightarrow> int \<Rightarrow> login_dto \<Rightarrow> session_context \<Rightarrow> uuid \<Rightarrow> string \<Rightarrow> uuid \<Rightarrow> js_date \<Rightarrow> pg_time \<Rightarrow>
     (app, auth_response) svc" where
  "AuthService_login env ttlMs dto ctx familyId raw rid date now =
     bindM (reads (\<lambda>s.
         case UsersService_findByEmailWithSecret (li_email dto) s of
           None \<Rightarrow> Inl (Unauthorized ''Invalid credentials'')
         | Some u \<Rightarrow> if u_isActive u then Inr u else Inl (Unauthorized ''Invalid credentials''))) (\<lambda>user.
     bindM (guardM (PasswordService_verify env (u_passwordHash user) (li_password dto))
              (Unauthorized ''Invalid credentials'')) (\<lambda>_.
     AuthService_issueTokens env ttlMs user ctx familyId raw rid date now))"

definition AuthService_refresh ::
    "auth_env \<Rightarrow> int \<Rightarrow> string \<Rightarrow> session_context \<Rightarrow> string \<Rightarrow> uuid \<Rightarrow> js_date \<Rightarrow> pg_time \<Rightarrow>
     (app, auth_response) svc" where
  "AuthService_refresh env ttlMs rawRefreshToken ctx nextRaw rid date now =
     bindM (RefreshTokenService_rotate env ttlMs rawRefreshToken ctx nextRaw rid date now)
       (\<lambda>(userId, rawToken).
     bindM (reads (\<lambda>s. case UsersService_findById userId s of
                         None \<Rightarrow> Inl (Unauthorized ''Invalid session'')
                       | Some u \<Rightarrow> if u_isActive u then Inr u else Inl (Unauthorized ''Invalid session'')))
       (\<lambda>user.
     ret (AuthService_toResponse user (AuthService_signAccessToken env user date) rawToken)))"

definition AuthService_logout :: "auth_env \<Rightarrow> string \<Rightarrow> js_date \<Rightarrow> (app, unit) svc" where
  "AuthService_logout env rawRefreshToken date = RefreshTokenService_revoke env rawRefreshToken date"

section \<open>Sessions, abstractly\<close>

text \<open>
  What a client can do with a session is decided by one thing: the hash of the only refresh token of
  its family that still works, or None when the session is over.  \<open>session_of\<close> abstracts the table
  of tokens to that.
\<close>

definition session_of :: "app \<Rightarrow> uuid \<Rightarrow> string option" where
  "session_of s f = map_option rt_tokenHash (List.find (\<lambda>t. rt_familyId t = f \<and> live t) (tokens s))"

lemma app_ok_tokens:
  assumes "app_ok s"
  shows "distinct (map rt_id (tokens s))" "distinct (map rt_tokenHash (tokens s))"
    and "t \<in> set (tokens s) \<Longrightarrow> t' \<in> set (tokens s) \<Longrightarrow> rt_familyId t = rt_familyId t' \<Longrightarrow>
      rt_userId t = rt_userId t' \<and> (live t \<longrightarrow> live t' \<longrightarrow> t = t')"
    and "t \<in> set (tokens s) \<Longrightarrow> has_id u_id (users s) (rt_userId t)"
  using assms unfolding app_ok_def tokens_ok_def by blast+

lemma session_of_Some:
  assumes "app_ok s"
  shows "session_of s f = Some h \<longleftrightarrow> (\<exists>t \<in> set (tokens s). rt_familyId t = f \<and> live t \<and> rt_tokenHash t = h)"
proof
  assume "\<exists>t \<in> set (tokens s). rt_familyId t = f \<and> live t \<and> rt_tokenHash t = h"
  then obtain t where t: "t \<in> set (tokens s)" "rt_familyId t = f" "live t" "rt_tokenHash t = h" by blast
  then obtain t' where t': "List.find (\<lambda>t. rt_familyId t = f \<and> live t) (tokens s) = Some t'"
    using find_None_iff2 [of "\<lambda>t. rt_familyId t = f \<and> live t" "tokens s"] by fastforce
  with find_SomeD [OF t'] t app_ok_tokens(3) [OF assms, of t t'] have "t' = t" by simp
  with t' t show "session_of s f = Some h" by (simp add: session_of_def)
qed (auto simp: session_of_def dest: find_SomeD)

lemma option_eqI: "(\<And>x. a = Some x \<longleftrightarrow> b = Some x) \<Longrightarrow> a = b"
  by (metis not_None_eq)

lemma find_token:
  assumes "app_ok s" and "t \<in> set (tokens s)"
  shows "List.find (\<lambda>x. rt_tokenHash x = rt_tokenHash t) (tokens s) = Some t"
  by (rule find_key [OF app_ok_tokens(2) [OF assms(1)] assms(2)])

lemma set_revoked_simps [simp]:
  "rt_id (set_revoked d t) = rt_id t" "rt_tokenHash (set_revoked d t) = rt_tokenHash t"
  "rt_familyId (set_revoked d t) = rt_familyId t" "rt_userId (set_revoked d t) = rt_userId t"
  "rt_revokedAt (set_revoked d t) = Some d" "\<not> live (set_revoked d t)"
  by (simp_all add: set_revoked_def live_def)

text \<open>Revoking tokens, whichever they are, leaves the data in order and ends their sessions only.\<close>

lemma revoke_where_ok:
  assumes ok: "app_ok s"
  shows "app_ok (s\<lparr>tokens := update_where P (set_revoked d) (tokens s)\<rparr>)"
proof -
  let ?ts = "update_where P (set_revoked d) (tokens s)"
  have row: "\<exists>x \<in> set (tokens s). rt_familyId t = rt_familyId x \<and> rt_userId t = rt_userId x \<and> (live t \<longrightarrow> t = x)"
    if "t \<in> set ?ts" for t
    using that by (auto simp: set_update_where)
  have pair: "rt_userId t = rt_userId t' \<and> (live t \<longrightarrow> live t' \<longrightarrow> t = t')"
    if t: "t \<in> set ?ts" "t' \<in> set ?ts" "rt_familyId t = rt_familyId t'" for t t'
  proof -
    obtain x where x: "x \<in> set (tokens s)" "rt_familyId t = rt_familyId x" "rt_userId t = rt_userId x"
        "live t \<longrightarrow> t = x"
      using row [OF t(1)] by blast
    obtain x' where x': "x' \<in> set (tokens s)" "rt_familyId t' = rt_familyId x'" "rt_userId t' = rt_userId x'"
        "live t' \<longrightarrow> t' = x'"
      using row [OF t(2)] by blast
    have "rt_userId x = rt_userId x' \<and> (live x \<longrightarrow> live x' \<longrightarrow> x = x')"
      using app_ok_tokens(3) [OF ok x(1) x'(1)] x(2) x'(2) t(3) by simp
    with x x' show ?thesis by auto
  qed
  have "\<forall>t \<in> set ?ts. has_id u_id (users s) (rt_userId t)"
    using app_ok_tokens(4) [OF ok] by (auto simp: set_update_where)
  moreover have "distinct (map rt_id ?ts)" "distinct (map rt_tokenHash ?ts)"
    using app_ok_tokens(1,2) [OF ok] by simp_all
  ultimately have "tokens_ok (users s) ?ts"
    unfolding tokens_ok_def using pair by blast
  with ok show ?thesis by (simp add: app_ok_def)
qed

lemma session_of_revoke_where:
  assumes ok: "app_ok s"
  shows "session_of (s\<lparr>tokens := update_where P (set_revoked d) (tokens s)\<rparr>) f =
    (if \<exists>t \<in> set (tokens s). rt_familyId t = f \<and> live t \<and> P t then None else session_of s f)"
proof (rule option_eqI)
  fix h
  let ?s = "s\<lparr>tokens := update_where P (set_revoked d) (tokens s)\<rparr>"
  have survivors: "session_of ?s f = Some h \<longleftrightarrow>
      (\<exists>t \<in> set (tokens s). \<not> P t \<and> rt_familyId t = f \<and> live t \<and> rt_tokenHash t = h)"
    using session_of_Some [OF revoke_where_ok [OF ok]] by (auto simp: set_update_where)
  have "t = t'" if "t \<in> set (tokens s)" "t' \<in> set (tokens s)" "rt_familyId t = f" "rt_familyId t' = f"
      "live t" "live t'" for t t'
    using app_ok_tokens(3) [OF ok that(1,2)] that by simp
  note only = this
  show "session_of ?s f = Some h \<longleftrightarrow>
      (if \<exists>t \<in> set (tokens s). rt_familyId t = f \<and> live t \<and> P t then None else session_of s f) = Some h"
  proof (cases "\<exists>t \<in> set (tokens s). rt_familyId t = f \<and> live t \<and> P t")
    case True
    then obtain t where t: "t \<in> set (tokens s)" "rt_familyId t = f" "live t" "P t" by blast
    have "P t'" if "t' \<in> set (tokens s)" "rt_familyId t' = f" "live t'" for t'
      using only [OF t(1) that(1) t(2) that(2) t(3) that(3)] t(4) by simp
    with True survivors show ?thesis by auto
  next
    case False
    with survivors session_of_Some [OF ok, of f h] show ?thesis by auto
  qed
qed

lemma update_row_where:
  assumes "app_ok s" and "t \<in> set (tokens s)"
  shows "update_row rt_id (set_revoked d t) (tokens s) =
    update_where (\<lambda>x. rt_id x = rt_id t) (set_revoked d) (tokens s)"
  unfolding update_row_def update_where_def
  using distinct_key_eq [OF app_ok_tokens(1) [OF assms(1)] _ assms(2)] by auto

lemma insert_token_session:
  assumes ok: "app_ok s" and ok': "app_ok s'" and ins: "insert_token r s = Inr s'" and l: "live r"
  shows "session_of s' = (session_of s)(rt_familyId r := Some (rt_tokenHash r))"
proof (rule ext, rule option_eqI)
  fix f h
  have s': "s' = s\<lparr>tokens := tokens s @ [r]\<rparr>" using ins by (simp add: insert_token_def)
  have "\<not> live t" if "t \<in> set (tokens s)" "rt_familyId t = rt_familyId r" for t
  proof
    assume "live t"
    with app_ok_tokens(3) [OF ok', of t r] that l have "t = r" by (simp add: s')
    with that ins show False by (simp add: insert_token_def has_id_def)
  qed
  then show "session_of s' f = Some h \<longleftrightarrow> ((session_of s)(rt_familyId r := Some (rt_tokenHash r))) f = Some h"
    using session_of_Some [OF ok'] session_of_Some [OF ok] l by (auto simp: s')
qed

section \<open>The calls keep the invariant and act on sessions\<close>

abbreviation fresh_family :: "app \<Rightarrow> uuid \<Rightarrow> bool" where
  "fresh_family s f \<equiv> \<not> has_id rt_familyId (tokens s) f"

text \<open>
  A token may be minted in a family of the same user whose session is over, and in a new one.
\<close>

lemma createToken_runs:
  assumes ok: "app_ok s"
    and fam: "\<And>t. t \<in> set (tokens s) \<Longrightarrow> rt_familyId t = f \<Longrightarrow> rt_userId t = u \<and> \<not> live t"
    and run: "RefreshTokenService_createToken env ttl u f ctx raw rid d now s = (r, s')"
  shows "app_ok s'" and "users s' = users s"
    and "case r of
        Inl e \<Rightarrow> s' = s \<and> (\<exists>q. e = QueryFailed q)
      | Inr n \<Rightarrow> n = raw \<and> session_of s' = (session_of s)(f := Some (sha256_hex env raw))"
proof -
  let ?tok = "\<lparr>rt_id = rid, rt_userId = u, rt_tokenHash = sha256_hex env raw, rt_familyId = f,
      rt_expiresAt = d + ttl, rt_revokedAt = None, rt_userAgent = ctx_userAgent ctx, rt_ip = ctx_ip ctx,
      rt_createdAt = now\<rparr>"
  have cases: "(\<exists>q. r = Inl (QueryFailed q)) \<and> s' = s \<or> r = Inr raw \<and> insert_token ?tok s = Inr s'"
    using run
    by (cases r) (auto simp: RefreshTokenService_createToken_def RefreshTokenService_hashToken_def
        Let_def bindM_Inr_iff bindM_Inl_iff)
  have new: "app_ok s'" if "insert_token ?tok s = Inr s'"
    by (rule insert_token_ok [OF ok that]) (use fam in simp_all)
  with cases ok show "app_ok s'" by auto
  from cases show "users s' = users s" by (auto simp: insert_token_def)
  have "session_of s' = (session_of s)(f := Some (sha256_hex env raw))" if "insert_token ?tok s = Inr s'"
    using insert_token_session [OF ok new [OF that] that] by (simp add: live_def)
  with cases show "case r of
        Inl e \<Rightarrow> s' = s \<and> (\<exists>q. e = QueryFailed q)
      | Inr n \<Rightarrow> n = raw \<and> session_of s' = (session_of s)(f := Some (sha256_hex env raw))"
    by auto
qed

text \<open>The three ways of a known token, and what a rotation is once the old token is revoked.\<close>

lemma rotate_known:
  assumes ok: "app_ok s" and t: "t \<in> set (tokens s)" "rt_tokenHash t = sha256_hex env raw"
  shows "RefreshTokenService_rotate env ttl raw ctx n rid d now s =
    (if \<not> live t then
       (Inl (Unauthorized ''Refresh token reuse detected''),
        s\<lparr>tokens := update_where (\<lambda>x. rt_familyId x = rt_familyId t \<and> rt_revokedAt x = None)
                     (set_revoked d) (tokens s)\<rparr>)
     else if rt_expiresAt t < d then (Inl (Unauthorized ''Refresh token expired''), s)
     else bindM (RefreshTokenService_createToken env ttl (rt_userId t) (rt_familyId t) ctx n rid d now)
            (\<lambda>raw. ret (rt_userId t, raw))
            (s\<lparr>tokens := update_where (\<lambda>x. rt_id x = rt_id t) (set_revoked d) (tokens s)\<rparr>))"
  using find_token [OF ok t(1)] t(2) update_row_where [OF ok t(1)]
  by (simp add: RefreshTokenService_rotate_def RefreshTokenService_hashToken_def bindM_def reads_def
      guardM_def throw_def ret_def modifies_def RefreshTokenService_revokeFamily_def live_def)

lemma rotate_unknown:
  assumes "\<not> exists_row (\<lambda>t. rt_tokenHash t = sha256_hex env raw) (tokens s)"
  shows "RefreshTokenService_rotate env ttl raw ctx n rid d now s =
    (Inl (Unauthorized ''Invalid refresh token''), s)"
  using assms
  by (simp add: RefreshTokenService_rotate_def RefreshTokenService_hashToken_def bindM_def reads_def
      exists_row_find)

lemma rotate_live:
  assumes ok: "app_ok s" and t: "t \<in> set (tokens s)" "rt_tokenHash t = sha256_hex env raw"
    and l: "live t" "\<not> rt_expiresAt t < d"
    and run: "RefreshTokenService_rotate env ttl raw ctx n rid d now s = (r, s')"
  shows "app_ok s'" and "users s' = users s"
    and "case r of
        Inl e \<Rightarrow> (\<exists>q. e = QueryFailed q) \<and> session_of s' = (session_of s)(rt_familyId t := None)
      | Inr (u, m) \<Rightarrow> u = rt_userId t \<and> m = n \<and>
          session_of s' = (session_of s)(rt_familyId t := Some (sha256_hex env n))"
proof -
  let ?P = "\<lambda>x. rt_id x = rt_id t"
  let ?s = "s\<lparr>tokens := update_where ?P (set_revoked d) (tokens s)\<rparr>"
  have ok1: "app_ok ?s" by (rule revoke_where_ok [OF ok])
  have dead: "rt_userId x = rt_userId t \<and> \<not> live x"
    if x: "x \<in> set (tokens ?s)" "rt_familyId x = rt_familyId t" for x
  proof -
    from x(1) obtain y where y: "y \<in> set (tokens s)" "x = y \<and> rt_id y \<noteq> rt_id t \<or> x = set_revoked d y"
      by (auto simp: set_update_where)
    with x(2) app_ok_tokens(3) [OF ok y(1) t(1)] l(1) show ?thesis by auto
  qed
  have ses: "session_of ?s = (session_of s)(rt_familyId t := None)"
  proof (rule ext)
    fix f
    have "(\<exists>x \<in> set (tokens s). rt_familyId x = f \<and> live x \<and> rt_id x = rt_id t) \<longleftrightarrow> f = rt_familyId t"
      using distinct_key_eq [OF app_ok_tokens(1) [OF ok] _ t(1)] t(1) l(1) by blast
    then show "session_of ?s f = ((session_of s)(rt_familyId t := None)) f"
      by (simp only: session_of_revoke_where [OF ok]) simp
  qed
  obtain c s2 where c: "RefreshTokenService_createToken env ttl (rt_userId t) (rt_familyId t) ctx n rid d now ?s = (c, s2)"
    by (metis surj_pair)
  note made = createToken_runs [OF ok1 dead c]
  have rs: "s' = s2" "r = map_sum id (Pair (rt_userId t)) c"
    using run rotate_known [OF ok t, of ttl ctx n rid d now] l c
    by (auto simp: bindM_def ret_def split: sum.splits)
  from made(1,2) rs show "app_ok s'" "users s' = users s" by simp_all
  show "case r of
        Inl e \<Rightarrow> (\<exists>q. e = QueryFailed q) \<and> session_of s' = (session_of s)(rt_familyId t := None)
      | Inr (u, m) \<Rightarrow> u = rt_userId t \<and> m = n \<and>
          session_of s' = (session_of s)(rt_familyId t := Some (sha256_hex env n))"
    using made(3) ses by (cases c) (simp_all add: rs)
qed

lemma rotate_keeps: "keeps app_ok (RefreshTokenService_rotate env ttl raw ctx n rid d now)"
proof (rule keepsI)
  fix s r s'
  assume ok: "app_ok s" and run: "RefreshTokenService_rotate env ttl raw ctx n rid d now s = (r, s')"
  show "app_ok s'"
  proof (cases "exists_row (\<lambda>t. rt_tokenHash t = sha256_hex env raw) (tokens s)")
    case False
    with rotate_unknown [OF this] run ok show ?thesis by simp
  next
    case True
    then obtain t where t: "t \<in> set (tokens s)" "rt_tokenHash t = sha256_hex env raw"
      by (auto simp: exists_row_def)
    show ?thesis
    proof (cases "live t \<and> \<not> rt_expiresAt t < d")
      case True
      then show ?thesis using rotate_live(1) [OF ok t _ _ run] by blast
    next
      case False
      then show ?thesis
        using rotate_known [OF ok t, of ttl ctx n rid d now] run ok revoke_where_ok [OF ok]
        by (auto split: if_splits)
    qed
  qed
qed

lemma issueTokens_runs:
  assumes ok: "app_ok s" and new: "fresh_family s f"
    and run: "AuthService_issueTokens env ttl u ctx f raw rid d now s = (r, s')"
  shows "app_ok s'" and "users s' = users s"
    and "case r of
        Inl e \<Rightarrow> s' = s \<and> (\<exists>q. e = QueryFailed q)
      | Inr a \<Rightarrow> a = AuthService_toResponse u (jwt_sign env (u_id u, u_email u) d) raw \<and>
          session_of s' = (session_of s)(f := Some (sha256_hex env raw))"
proof -
  obtain c s2 where c: "RefreshTokenService_createToken env ttl (u_id u) f ctx raw rid d now s = (c, s2)"
    by (metis surj_pair)
  have "rt_userId t = u_id u \<and> \<not> live t" if "t \<in> set (tokens s)" "rt_familyId t = f" for t
    using new that by (auto simp: has_id_def)
  note made = createToken_runs [OF ok this c]
  have rs: "s' = s2" "r = map_sum id (AuthService_toResponse u (jwt_sign env (u_id u, u_email u) d)) c"
    using run c
    by (auto simp: AuthService_issueTokens_def RefreshTokenService_issueForNewSession_def
        AuthService_signAccessToken_def Let_def bindM_def ret_def split: sum.splits)
  from made(1,2) rs show "app_ok s'" "users s' = users s" by simp_all
  show "case r of
        Inl e \<Rightarrow> s' = s \<and> (\<exists>q. e = QueryFailed q)
      | Inr a \<Rightarrow> a = AuthService_toResponse u (jwt_sign env (u_id u, u_email u) d) raw \<and>
          session_of s' = (session_of s)(f := Some (sha256_hex env raw))"
    using made(3) by (cases c) (simp_all add: rs)
qed

text \<open>Whom a login lets in: an active user, found by an address in any case, with the right password.\<close>

definition may_login :: "auth_env \<Rightarrow> login_dto \<Rightarrow> user \<Rightarrow> bool" where
  "may_login env dto u \<longleftrightarrow>
     ci_eq (u_email u) (li_email dto) \<and> u_isActive u \<and>
     argon2_verify env (u_passwordHash u) (li_password dto) = Some True"

lemma app_ok_emails:
  assumes "app_ok s" and "u \<in> set (users s)" "v \<in> set (users s)" "ci_eq (u_email u) (u_email v)"
  shows "u = v"
  using assms distinct_key_eq [of "\<lambda>u. toLowerCase (u_email u)" "users s" u v]
  by (simp add: app_ok_def users_ok_def ci_eq_def)

lemma findByEmail_row:
  "UsersService_findByEmailWithSecret e s = Some u \<Longrightarrow> u \<in> set (users s) \<and> ci_eq (u_email u) e"
  by (auto simp: UsersService_findByEmailWithSecret_def dest: find_SomeD)

lemma login_cases:
  assumes ok: "app_ok s"
  shows "AuthService_login env ttl dto ctx f raw rid d now s =
    (case List.find (may_login env dto) (users s) of
       None \<Rightarrow> (Inl (Unauthorized ''Invalid credentials''), s)
     | Some u \<Rightarrow> AuthService_issueTokens env ttl u ctx f raw rid d now s)"
proof (cases "UsersService_findByEmailWithSecret (li_email dto) s")
  case None
  then have "List.find (may_login env dto) (users s) = None"
    by (simp add: find_None_iff2 may_login_def UsersService_findByEmailWithSecret_def)
  with None show ?thesis by (simp add: AuthService_login_def bindM_def reads_def)
next
  case (Some u)
  note row = findByEmail_row [OF Some]
  have only: "v = u" if "v \<in> set (users s)" "may_login env dto v" for v
    using app_ok_emails [OF ok, of v u] that row by (simp add: may_login_def ci_eq_def)
  have "List.find (may_login env dto) (users s) = (if may_login env dto u then Some u else None)"
  proof (cases "may_login env dto u")
    case True
    then obtain v where "List.find (may_login env dto) (users s) = Some v"
      using row find_None_iff2 [of "may_login env dto" "users s"] by fastforce
    with only find_SomeD [OF this] True show ?thesis by simp
  qed (use only find_None_iff2 [of "may_login env dto" "users s"] in auto)
  with Some row show ?thesis
    by (auto simp: AuthService_login_def bindM_def reads_def guardM_def ret_def throw_def may_login_def
        PasswordService_verify_def split: option.splits)
qed

lemma login_runs_ok:
  assumes "app_ok s" and "fresh_family s f"
    and "AuthService_login env ttl dto ctx f raw rid d now s = (r, s')"
  shows "app_ok s'"
  using assms issueTokens_runs(1) [OF assms(1,2)]
  by (auto simp: login_cases split: option.splits)

lemma signup_runs:
  assumes ok: "app_ok s" and new: "fresh_family s f"
    and run: "AuthService_signup env ttl dto ctx salt uid f raw rid d now s = (r, s')"
  shows "app_ok s'"
    and "case r of
        Inl (Conflict m) \<Rightarrow> s' = s \<and> exists_row (\<lambda>u. ci_eq (u_email u) (su_email dto)) (users s)
      | Inl e \<Rightarrow> \<exists>q. e = QueryFailed q
      | Inr a \<Rightarrow> (\<exists>u. users s' = users s @ [u] \<and> u_email u = su_email dto \<and> u_isActive u \<and>
          u_id u = uid \<and> u_name u = su_name dto \<and>
          u_passwordHash u = argon2_hash env salt (su_password dto) \<and>
          a = AuthService_toResponse u (jwt_sign env (uid, su_email dto) d) raw \<and>
          session_of s' = (session_of s)(f := Some (sha256_hex env raw)))"
proof -
  let ?u = "\<lparr>u_id = uid, u_email = su_email dto, u_passwordHash = argon2_hash env salt (su_password dto),
      u_name = su_name dto, u_isActive = True, u_createdAt = now, u_updatedAt = now\<rparr>"
  let ?known = "exists_row (\<lambda>u. ci_eq (u_email u) (su_email dto)) (users s)"
  have unf: "AuthService_signup env ttl dto ctx salt uid f raw rid d now s =
      (if ?known then (Inl (Conflict ''Email already registered''), s)
       else case insert_user ?u s of
          Inl q \<Rightarrow> (Inl (QueryFailed q), s)
        | Inr s1 \<Rightarrow> AuthService_issueTokens env ttl ?u ctx f raw rid d now s1)"
    by (auto simp: AuthService_signup_def UsersService_existsByEmail_def UsersService_create_def
        PasswordService_hash_def Let_def bindM_def reads_def writes_def ret_def exists_row_def
        filter_empty_conv split: sum.splits)
  consider (known) ?known "r = Inl (Conflict ''Email already registered'')" "s' = s"
    | (failed) q where "r = Inl (QueryFailed q)" "s' = s"
    | (made) s1 where "insert_user ?u s = Inr s1"
        "AuthService_issueTokens env ttl ?u ctx f raw rid d now s1 = (r, s')"
    using run unf by (auto split: if_splits sum.splits)
  then have "app_ok s' \<and> (case r of
        Inl (Conflict m) \<Rightarrow> s' = s \<and> ?known
      | Inl e \<Rightarrow> \<exists>q. e = QueryFailed q
      | Inr a \<Rightarrow> (\<exists>u. users s' = users s @ [u] \<and> u_email u = su_email dto \<and> u_isActive u \<and>
          u_id u = uid \<and> u_name u = su_name dto \<and>
          u_passwordHash u = argon2_hash env salt (su_password dto) \<and>
          a = AuthService_toResponse u (jwt_sign env (uid, su_email dto) d) raw \<and>
          session_of s' = (session_of s)(f := Some (sha256_hex env raw))))"
  proof cases
    case made
    have s1: "s1 = s\<lparr>users := users s @ [?u]\<rparr>" using made(1) by (simp add: insert_user_def)
    have "fresh_family s1 f" using new by (simp add: s1)
    note out = issueTokens_runs [OF insert_user_ok [OF ok made(1)] this made(2)]
    have "session_of s1 = session_of s" by (rule ext) (simp add: session_of_def s1)
    with out show ?thesis by (cases r) (auto simp: s1)
  qed (use ok in auto)
  then show "app_ok s'"
    and "case r of
        Inl (Conflict m) \<Rightarrow> s' = s \<and> exists_row (\<lambda>u. ci_eq (u_email u) (su_email dto)) (users s)
      | Inl e \<Rightarrow> \<exists>q. e = QueryFailed q
      | Inr a \<Rightarrow> (\<exists>u. users s' = users s @ [u] \<and> u_email u = su_email dto \<and> u_isActive u \<and>
          u_id u = uid \<and> u_name u = su_name dto \<and>
          u_passwordHash u = argon2_hash env salt (su_password dto) \<and>
          a = AuthService_toResponse u (jwt_sign env (uid, su_email dto) d) raw \<and>
          session_of s' = (session_of s)(f := Some (sha256_hex env raw)))"
    by blast+
qed

lemma refresh_keeps: "keeps app_ok (AuthService_refresh env ttl raw ctx n rid d now)"
  unfolding AuthService_refresh_def
  by (rule keeps_bindM [OF rotate_keeps]) (auto split: prod.split intro!: keeps_intros)

lemma logout_keeps: "keeps app_ok (AuthService_logout env raw d)"
  unfolding AuthService_logout_def RefreshTokenService_revoke_def
  by (rule keeps_modifies) (rule revoke_where_ok)

section \<open>Properties\<close>

definition ex_env :: auth_env where
  "ex_env = \<lparr>sha256_hex = (\<lambda>s. s), argon2_hash = (\<lambda>salt p. p), argon2_verify = (\<lambda>h p. Some (h = p)),
     jwt_sign = (\<lambda>(i, e) d. i)\<rparr>"

definition ex_ctx :: session_context where
  "ex_ctx = \<lparr>ctx_userAgent = Some ''curl'', ctx_ip = None\<rparr>"

text \<open>
  C10.  Rotation refines the session state machine: presenting a token to \<open>rotate\<close> touches the session
  of that token's family and no other, and answers by that session alone.  A token that is not the
  working one ends the session; the working one, expired, is refused and changes nothing; otherwise
  it is replaced by the new token, or the session ends when the new token cannot be stored.
\<close>

theorem rotate_refines_session:
  assumes "app_ok s" and "t \<in> set (tokens s)" and "rt_tokenHash t = sha256_hex env raw"
    and "RefreshTokenService_rotate env ttl raw ctx n rid d now s = (r, s')"
  shows "app_ok s' \<and>
    session_of s' = (session_of s)(rt_familyId t :=
      (if session_of s (rt_familyId t) \<noteq> Some (sha256_hex env raw) then None
       else if rt_expiresAt t < d then Some (sha256_hex env raw)
       else case r of Inl e \<Rightarrow> None | Inr (u, m) \<Rightarrow> Some (sha256_hex env n))) \<and>
    (case r of
       Inl (Unauthorized m) \<Rightarrow>
         m = (if session_of s (rt_familyId t) \<noteq> Some (sha256_hex env raw)
              then ''Refresh token reuse detected'' else ''Refresh token expired'')
     | Inl e \<Rightarrow> \<exists>q. e = QueryFailed q
     | Inr (u, m) \<Rightarrow> u = rt_userId t \<and> m = n \<and>
         session_of s (rt_familyId t) = Some (sha256_hex env raw) \<and> \<not> rt_expiresAt t < d)"
proof -
  note ok = assms(1) and t = assms(2,3) and run = assms(4)
  have working: "session_of s (rt_familyId t) = Some (sha256_hex env raw) \<longleftrightarrow> live t"
    using session_of_Some [OF ok] t distinct_key_eq [OF app_ok_tokens(2) [OF ok] _ t(1)] by metis
  have ok': "app_ok s'" by (rule keepsD [OF rotate_keeps ok run])
  show ?thesis
  proof (cases "live t")
    case False
    let ?P = "\<lambda>x. rt_familyId x = rt_familyId t \<and> rt_revokedAt x = None"
    have "session_of (s\<lparr>tokens := update_where ?P (set_revoked d) (tokens s)\<rparr>) =
        (session_of s)(rt_familyId t := None)"
    proof (rule ext)
      fix f
      show "session_of (s\<lparr>tokens := update_where ?P (set_revoked d) (tokens s)\<rparr>) f =
          ((session_of s)(rt_familyId t := None)) f"
        using session_of_Some [OF ok, of f "the (session_of s f)"]
        by (cases "session_of s f") (auto simp: session_of_revoke_where [OF ok] live_def)
    qed
    with False working ok' rotate_known [OF ok t, of ttl ctx n rid d now] run show ?thesis by auto
  next
    case live: True
    then have keep: "(session_of s)(rt_familyId t := Some (sha256_hex env raw)) = session_of s"
      using working by auto
    show ?thesis
    proof (cases "rt_expiresAt t < d")
      case True
      with live working ok' keep rotate_known [OF ok t, of ttl ctx n rid d now] run show ?thesis by auto
    next
      case False
      with live working ok' rotate_live(3) [OF ok t live False run] show ?thesis
        by (auto split: sum.splits http_error.splits)
    qed
  qed
qed

lemma ex_rotate:
  "RefreshTokenService_rotate ex_env 500 ''secret'' ex_ctx ''next'' ''k2'' 7 7 ex_app =
    (Inr (''u1'', ''next''),
     ex_app\<lparr>tokens := [ex_token\<lparr>rt_revokedAt := Some 7\<rparr>,
       \<lparr>rt_id = ''k2'', rt_userId = ''u1'', rt_tokenHash = ''next'', rt_familyId = ''f1'',
        rt_expiresAt = 507, rt_revokedAt = None, rt_userAgent = Some ''curl'', rt_ip = None, rt_createdAt = 7\<rparr>]\<rparr>)"
  by code_simp

lemma ex_token_hash: "ex_token \<in> set (tokens ex_app)" "rt_tokenHash ex_token = sha256_hex ex_env ''secret''"
  by (simp_all add: ex_token_def ex_env_def)

theorem rotate_refines_session_witness:
  "session_of (snd (RefreshTokenService_rotate ex_env 500 ''secret'' ex_ctx ''next'' ''k2'' 7 7 ex_app)) ''f1'' =
    Some ''next''"
  using rotate_refines_session [OF ex_app_ok ex_token_hash ex_rotate]
  by (simp add: ex_rotate) (simp add: session_of_def ex_token_def ex_env_def live_def)

text \<open>
  C14.  A stolen refresh token is found out: once a token was rotated, presenting it again, from
  whatever client, is answered with the reuse error, and after that the token that replaced it is
  refused as well, so thief and owner both have to log in.
\<close>

theorem replay_ends_session:
  assumes "app_ok s" and "RefreshTokenService_rotate env ttl raw ctx n rid d now s = (Inr (u, m), s1)"
  shows "\<exists>s2. RefreshTokenService_rotate env ttl raw ctx2 n2 rid2 d2 now2 s1 =
      (Inl (Unauthorized ''Refresh token reuse detected''), s2) \<and>
    fst (RefreshTokenService_rotate env ttl m ctx3 n3 rid3 d3 now3 s2) =
      Inl (Unauthorized ''Refresh token reuse detected'')"
proof -
  note ok = assms(1) and run = assms(2)
  obtain t where t: "t \<in> set (tokens s)" "rt_tokenHash t = sha256_hex env raw"
    using run rotate_unknown [of env raw s ttl ctx n rid d now] by (auto simp: exists_row_def)
  have l: "live t" "\<not> rt_expiresAt t < d"
    using run rotate_known [OF ok t, of ttl ctx n rid d now] by (auto split: if_splits)
  have ok1: "app_ok s1" by (rule rotate_live(1) [OF ok t l run])
  have m: "m = n" and ses: "session_of s1 (rt_familyId t) = Some (sha256_hex env n)"
    using rotate_live(3) [OF ok t l run] by simp_all
  from ses obtain t' where t': "t' \<in> set (tokens s1)" "rt_familyId t' = rt_familyId t" "live t'"
      "rt_tokenHash t' = sha256_hex env n"
    using session_of_Some [OF ok1] by auto
  let ?s = "s\<lparr>tokens := update_where (\<lambda>x. rt_id x = rt_id t) (set_revoked d) (tokens s)\<rparr>"
  have "set_revoked d t \<in> set (tokens ?s)" using t by (auto simp: set_update_where)
  moreover have "set (tokens ?s) \<subseteq> set (tokens s1)"
    using run l rotate_known [OF ok t, of ttl ctx n rid d now]
    by (auto simp: bindM_Inr_iff RefreshTokenService_createToken_def Let_def insert_token_def)
  ultimately have old: "set_revoked d t \<in> set (tokens s1)" by blast
  let ?P = "\<lambda>x. rt_familyId x = rt_familyId t \<and> rt_revokedAt x = None"
  let ?s2 = "s1\<lparr>tokens := update_where ?P (set_revoked d2) (tokens s1)\<rparr>"
  have 1: "RefreshTokenService_rotate env ttl raw ctx2 n2 rid2 d2 now2 s1 =
      (Inl (Unauthorized ''Refresh token reuse detected''), ?s2)"
    using rotate_known [OF ok1 old, of env raw ttl ctx2 n2 rid2 d2 now2] t by simp
  have ok2: "app_ok ?s2" by (rule revoke_where_ok [OF ok1])
  have "set_revoked d2 t' \<in> set (tokens ?s2)"
    using t' by (auto simp: set_update_where live_def intro!: imageI)
  from rotate_known [OF ok2 this, of env m ttl ctx3 n3 rid3 d3 now3] t' m
  have "fst (RefreshTokenService_rotate env ttl m ctx3 n3 rid3 d3 now3 ?s2) =
      Inl (Unauthorized ''Refresh token reuse detected'')" by simp
  with 1 show ?thesis by blast
qed

theorem replay_ends_session_witness:
  "\<exists>s2. RefreshTokenService_rotate ex_env 500 ''secret'' ex_ctx ''other'' ''k3'' 8 8
        (snd (RefreshTokenService_rotate ex_env 500 ''secret'' ex_ctx ''next'' ''k2'' 7 7 ex_app)) =
      (Inl (Unauthorized ''Refresh token reuse detected''), s2) \<and>
    fst (RefreshTokenService_rotate ex_env 500 ''next'' ex_ctx ''more'' ''k4'' 9 9 s2) =
      Inl (Unauthorized ''Refresh token reuse detected'')"
  using replay_ends_session [OF ex_app_ok ex_rotate, of ex_ctx "''other''" "''k3''" 8 8 ex_ctx "''more''" "''k4''" 9 9]
  by (simp add: ex_rotate)

text \<open>
  \<open>rotate\<close> is not atomic: the old token is revoked before the new one is stored and no
  transaction spans the two, so a client whose \<open>User-Agent\<close> header is longer than its column
  (512) gets an error instead of a token, and its session is over all the same.
\<close>

theorem long_user_agent_ends_session:
  assumes "app_ok s" and "t \<in> set (tokens s)" and "rt_tokenHash t = sha256_hex env raw"
    and "live t" and "\<not> rt_expiresAt t < d" and "ctx_userAgent ctx = Some a" and "512 < length a"
  shows "\<exists>q s'. AuthService_refresh env ttl raw ctx n rid d now s = (Inl (QueryFailed q), s') \<and>
    session_of s' = (session_of s)(rt_familyId t := None)"
proof -
  obtain r s' where run: "RefreshTokenService_rotate env ttl raw ctx n rid d now s = (r, s')"
    by (metis surj_pair)
  have "\<nexists>v. r = Inr v"
    using run rotate_known [OF assms(1-3), of ttl ctx n rid d now] assms(4-7)
    by (auto simp: bindM_Inr_iff RefreshTokenService_createToken_def Let_def insert_token_def)
  then obtain e where r: "r = Inl e" by (cases r) auto
  with rotate_live(3) [OF assms(1-5) run] obtain q where "e = QueryFailed q"
      "session_of s' = (session_of s)(rt_familyId t := None)" by auto
  with run r show ?thesis by (auto simp: AuthService_refresh_def bindM_def)
qed

theorem long_user_agent_ends_session_witness:
  "\<exists>q s'. AuthService_refresh ex_env 500 ''secret'' \<lparr>ctx_userAgent = Some (replicate 513 CHR ''x''), ctx_ip = None\<rparr>
       ''next'' ''k2'' 7 7 ex_app = (Inl (QueryFailed q), s') \<and>
     session_of s' = (session_of ex_app)(rt_familyId ex_token := None)"
  by (rule long_user_agent_ends_session [OF ex_app_ok ex_token_hash, where a = "replicate 513 CHR ''x''"])
    (simp_all add: ex_token_def live_def del: replicate.simps)

text \<open>
  C36.  A login lets in exactly the active users who give their password, the address in any case.
  Everybody else gets the same error, whether the address is unknown, the account inactive, the
  password wrong or its stored hash unreadable, and nothing changes; whoever is let in gets their
  own access token and a session of their own, and no other session changes.
\<close>

theorem login_outcome:
  assumes "app_ok s" and "fresh_family s f"
    and "AuthService_login env ttl dto ctx f raw rid d now s = (r, s')"
  shows "case r of
      Inl (Unauthorized m) \<Rightarrow> m = ''Invalid credentials'' \<and> s' = s \<and> \<not> exists_row (may_login env dto) (users s)
    | Inl e \<Rightarrow> (\<exists>q. e = QueryFailed q) \<and> s' = s
    | Inr a \<Rightarrow> (\<exists>u \<in> set (users s). may_login env dto u \<and>
        a = AuthService_toResponse u (jwt_sign env (u_id u, u_email u) d) raw \<and>
        session_of s' = (session_of s)(f := Some (sha256_hex env raw)))"
proof (cases "List.find (may_login env dto) (users s)")
  case None
  with assms login_cases [OF assms(1)] show ?thesis by (auto simp: exists_row_find)
next
  case (Some u)
  with assms(3) login_cases [OF assms(1)]
  have "AuthService_issueTokens env ttl u ctx f raw rid d now s = (r, s')" by simp
  from issueTokens_runs(3) [OF assms(1,2) this] find_SomeD [OF Some] show ?thesis
    by (auto split: sum.splits http_error.splits)
qed

theorem login_outcome_witness:
  "case AuthService_login ex_env 500 \<lparr>li_email = ''B@X'', li_password = ''pw''\<rparr> ex_ctx ''f2'' ''raw'' ''k2'' 7 7 ex_app of
     (Inr a, s') \<Rightarrow> \<exists>u \<in> set (users ex_app). may_login ex_env \<lparr>li_email = ''B@X'', li_password = ''pw''\<rparr> u \<and>
        a = AuthService_toResponse u (jwt_sign ex_env (u_id u, u_email u) 7) ''raw''
   | (Inl e, s') \<Rightarrow> False"
proof -
  have "\<not> isl (fst (AuthService_login ex_env 500 \<lparr>li_email = ''B@X'', li_password = ''pw''\<rparr> ex_ctx ''f2'' ''raw'' ''k2'' 7 7 ex_app))"
    by code_simp
  then obtain a s' where run: "AuthService_login ex_env 500 \<lparr>li_email = ''B@X'', li_password = ''pw''\<rparr> ex_ctx ''f2'' ''raw'' ''k2'' 7 7 ex_app =
      (Inr a, s')"
    by (metis isl_def prod.collapse sum.exhaust_sel)
  have "fresh_family ex_app ''f2''" by (simp add: has_id_def ex_token_def)
  from login_outcome [OF ex_app_ok this run] run show ?thesis by auto
qed

text \<open>
  What was signed up can log in: when argon2 accepts the hashes it makes, a sign-up is followed
  by logins, with the address in any case and the same password, that are those of the new user;
  and a second sign-up with the address in any case is refused and changes nothing.
\<close>

theorem signup_then_login:
  assumes "app_ok s" and "fresh_family s f" and "\<And>salt p. argon2_verify env (argon2_hash env salt p) p = Some True"
    and "AuthService_signup env ttl dto ctx salt uid f raw rid d now s = (Inr a, s1)"
    and "toLowerCase e = toLowerCase (su_email dto)"
  shows "(\<exists>u. users s1 = users s @ [u] \<and> u_id u = uid \<and> u_email u = su_email dto \<and>
      AuthService_login env ttl \<lparr>li_email = e, li_password = su_password dto\<rparr> ctx2 f2 raw2 rid2 d2 now2 s1 =
        AuthService_issueTokens env ttl u ctx2 f2 raw2 rid2 d2 now2 s1) \<and>
    AuthService_signup env ttl \<lparr>su_email = e, su_name = name2, su_password = pw2\<rparr> ctx2 salt2 uid2 f2 raw2 rid2 d2 now2 s1 =
      (Inl (Conflict ''Email already registered''), s1)"
proof -
  from signup_runs(2) [OF assms(1,2,4)] obtain u where
    u: "users s1 = users s @ [u]" "u_email u = su_email dto" "u_isActive u" "u_id u = uid"
      "u_passwordHash u = argon2_hash env salt (su_password dto)" by auto
  have ok1: "app_ok s1" by (rule signup_runs(1) [OF assms(1,2,4)])
  let ?dto = "\<lparr>li_email = e, li_password = su_password dto\<rparr>"
  have may: "may_login env ?dto u"
    using u assms(3,5) by (simp add: may_login_def ci_eq_def)
  then obtain v where v: "List.find (may_login env ?dto) (users s1) = Some v"
    using u(1) find_None_iff2 [of "may_login env ?dto" "users s1"] by fastforce
  have "v = u"
    using find_SomeD [OF v] app_ok_emails [OF ok1, of v u] may u(1) by (simp add: may_login_def ci_eq_def)
  with v login_cases [OF ok1, of env ttl ?dto] u show ?thesis
    using assms(5)
    by (auto simp: AuthService_signup_def UsersService_existsByEmail_def bindM_def reads_def ci_eq_def)
qed

lemma ex_signup:
  "AuthService_signup ex_env 500 \<lparr>su_email = ''d@x'', su_name = ''Dee'', su_password = ''password''\<rparr> ex_ctx
      ''salt'' ''u4'' ''f2'' ''raw'' ''k2'' 7 7 ex_app =
    (Inr \<lparr>ar_tokenType = ''Bearer'', ar_accessToken = ''u4'', ar_refreshToken = ''raw'',
          ar_user = (''u4'', ''d@x'', ''Dee'')\<rparr>,
     snd (AuthService_signup ex_env 500 \<lparr>su_email = ''d@x'', su_name = ''Dee'', su_password = ''password''\<rparr> ex_ctx
      ''salt'' ''u4'' ''f2'' ''raw'' ''k2'' 7 7 ex_app))"
  by code_simp

theorem signup_then_login_witness:
  "\<exists>s1 u. users s1 = users ex_app @ [u] \<and> u_id u = ''u4'' \<and>
     AuthService_login ex_env 500 \<lparr>li_email = ''D@X'', li_password = ''password''\<rparr> ex_ctx ''f3'' ''raw2'' ''k3'' 8 8 s1 =
       AuthService_issueTokens ex_env 500 u ex_ctx ''f3'' ''raw2'' ''k3'' 8 8 s1"
proof -
  have "fresh_family ex_app ''f2''" by (simp add: has_id_def ex_token_def)
  moreover have "argon2_verify ex_env (argon2_hash ex_env salt p) p = Some True" for salt p
    by (simp add: ex_env_def)
  moreover have "toLowerCase ''D@X'' = toLowerCase (su_email \<lparr>su_email = ''d@x'', su_name = ''Dee'', su_password = ''password''\<rparr>)"
    by code_simp
  ultimately show ?thesis
    using signup_then_login [OF ex_app_ok _ _ ex_signup, of "''D@X''" ex_ctx "''f3''" "''raw2''" "''k3''" 8 8]
    by simp blast
qed

end
