(* ===== verification/Invitations.thy ===== *)
theory Invitations
  imports Auth Workspaces
begin

text \<open>
  \<open>InvitationsService\<close> (\<open>src/modules/workspaces/invitations.service.ts\<close>): inviting an address to a
  workspace, accepting and revoking an invitation.  The random token, the ids and the clocks are
  arguments, as in \<open>Auth\<close>.
\<close>

record create_invitation_dto =
  cinv_email :: string
  cinv_role :: "workspace_role option"

definition INVITE_TTL_MS :: js_date where
  "INVITE_TTL_MS = 7 * 24 * 60 * 60 * 1000"

section \<open>The operations\<close>

definition save_invitation :: "invitation \<Rightarrow> (app, unit) svc" where
  "save_invitation i = modifies (\<lambda>s. s\<lparr>invitations := update_row i_id i (invitations s)\<rparr>)"

definition InvitationsService_invite ::
    "uuid \<Rightarrow> uuid \<Rightarrow> create_invitation_dto \<Rightarrow> string \<Rightarrow> uuid \<Rightarrow> js_date \<Rightarrow> pg_time \<Rightarrow> (app, invitation) svc" where
  "InvitationsService_invite workspaceId inviterId dto token iid date now =
     bindM (reads (\<lambda>s.
         case UsersService_findByEmail (cinv_email dto) s of
           None \<Rightarrow> Inr ()
         | Some u \<Rightarrow>
             (case find_member workspaceId (u_id u) s of
                None \<Rightarrow> Inr ()
              | Some _ \<Rightarrow> Inl (Conflict ''User is already a member of this workspace'')))) (\<lambda>_.
     bindM (reads (\<lambda>s.
         case List.find (\<lambda>i. i_workspaceId i = workspaceId \<and> ci_eq (i_email i) (cinv_email dto) \<and>
                             i_status i = INV_PENDING) (invitations s) of
           None \<Rightarrow> Inr ()
         | Some _ \<Rightarrow> Inl (Conflict ''A pending invitation already exists for this email''))) (\<lambda>_.
     let invitation =
           \<lparr>i_id = iid, i_workspaceId = workspaceId, i_email = cinv_email dto,
            i_role = (case cinv_role dto of None \<Rightarrow> MEMBER | Some r \<Rightarrow> r), i_token = token,
            i_status = INV_PENDING, i_invitedBy = inviterId, i_expiresAt = date + INVITE_TTL_MS,
            i_createdAt = now\<rparr>
     in bindM (writes (insert_invitation invitation)) (\<lambda>_. ret invitation)))"

definition InvitationsService_listForWorkspace :: "uuid \<Rightarrow> (app, invitation list) svc" where
  "InvitationsService_listForWorkspace workspaceId =
     reads (\<lambda>s. Inr (sort_key (\<lambda>i. - i_createdAt i)
       (filter (\<lambda>i. i_workspaceId i = workspaceId) (invitations s))))"

definition InvitationsService_accept ::
    "uuid \<Rightarrow> string \<Rightarrow> string \<Rightarrow> uuid \<Rightarrow> js_date \<Rightarrow> pg_time \<Rightarrow> (app, member) svc" where
  "InvitationsService_accept userId userEmail token mid date now =
     bindM (reads (\<lambda>s.
         case List.find (\<lambda>i. i_token i = token) (invitations s) of
           None \<Rightarrow> Inl (NotFound ''Invitation not found or no longer pending'')
         | Some i \<Rightarrow> if i_status i = INV_PENDING then Inr i
             else Inl (NotFound ''Invitation not found or no longer pending''))) (\<lambda>invitation.
     if i_expiresAt invitation < date
     then bindM (save_invitation (invitation\<lparr>i_status := INV_EXPIRED\<rparr>)) (\<lambda>_.
          throw (Gone ''Invitation has expired''))
     else
     bindM (guardM (toLowerCase (i_email invitation) = toLowerCase userEmail)
              (Forbidden ''This invitation was issued to a different email address'')) (\<lambda>_.
     transaction (
       bindM (reads (\<lambda>s. Inr (find_member (i_workspaceId invitation) userId s))) (\<lambda>found.
       bindM (case found of
                Some m \<Rightarrow> ret m
              | None \<Rightarrow>
                  (let m = \<lparr>m_id = mid, m_workspaceId = i_workspaceId invitation, m_userId = userId,
                            m_role = i_role invitation, m_joinedAt = now\<rparr>
                   in bindM (writes (insert_member m)) (\<lambda>_. ret m))) (\<lambda>membership.
       bindM (save_invitation (invitation\<lparr>i_status := INV_ACCEPTED\<rparr>)) (\<lambda>_.
       ret membership))))))"

definition InvitationsService_revoke :: "uuid \<Rightarrow> uuid \<Rightarrow> (app, unit) svc" where
  "InvitationsService_revoke workspaceId invitationId =
     bindM (reads (\<lambda>s.
         case List.find (\<lambda>i. i_id i = invitationId \<and> i_workspaceId i = workspaceId) (invitations s) of
           None \<Rightarrow> Inl (NotFound ''Invitation not found'') | Some i \<Rightarrow> Inr i)) (\<lambda>invitation.
     bindM (guardM (i_status invitation = INV_PENDING)
              (Conflict ''Only pending invitations can be revoked'')) (\<lambda>_.
     save_invitation (invitation\<lparr>i_status := INV_REVOKED\<rparr>)))"

section \<open>The invariant of the data\<close>

lemma app_ok_invitations:
  assumes "app_ok s"
  shows "distinct (map i_id (invitations s))" "distinct (map i_token (invitations s))"
  using assms by (auto simp: app_ok_def invitations_ok_def)

text \<open>An invitation may leave the state \<open>PENDING\<close> for any other.\<close>

lemma close_invitation_ok:
  assumes ok: "app_ok s" and i: "i \<in> set (invitations s)" and st: "st \<noteq> INV_PENDING"
  shows "app_ok (s\<lparr>invitations := update_row i_id (i\<lparr>i_status := st\<rparr>) (invitations s)\<rparr>)"
proof -
  let ?r = "i\<lparr>i_status := st\<rparr>" and ?is = "invitations s"
  let ?is' = "update_row i_id ?r ?is"
  have old: "invitations_ok (users s) (workspaces s) ?is" using ok by (simp add: app_ok_def)
  have same: "x = i" if "x \<in> set ?is" "i_id x = i_id i" for x
    using distinct_key_eq [OF app_ok_invitations(1) [OF ok] that(1) i that(2)] .
  have "map i_token ?is' = map i_token ?is" by (rule map_update_row) (auto dest: same)
  then have tok: "distinct (map i_token ?is')" using app_ok_invitations(2) [OF ok] by simp
  have "filter (\<lambda>i. i_status i = INV_PENDING) (update_row i_id ?r t) =
      filter (\<lambda>x. i_id x \<noteq> i_id i) (filter (\<lambda>i. i_status i = INV_PENDING) t)" for t
    unfolding update_row_def using st by (induction t) auto
  from this [of ?is] have "distinct (map pending_key (filter (\<lambda>i. i_status i = INV_PENDING) ?is'))"
    using old by (simp only: invitations_ok_def distinct_map_filterI)
  then have "invitations_ok (users s) (workspaces s) ?is'"
    using old tok i by (auto simp: invitations_ok_def dest!: in_update_rowD)
  then show ?thesis using ok by (simp add: app_ok_def)
qed

lemma InvitationsService_invite_keeps: "keeps app_ok (InvitationsService_invite w u dto token iid d now)"
  unfolding InvitationsService_invite_def Let_def
  by (intro keeps_intros keeps_writes) (rule insert_invitation_ok)

lemma InvitationsService_revoke_cases:
  assumes "app_ok s" and "InvitationsService_revoke w j s = (r, s')"
  shows "app_ok s' \<and> (case r of Inl e \<Rightarrow> s' = s
    | Inr _ \<Rightarrow> \<exists>i \<in> set (invitations s). i_id i = j \<and> i_workspaceId i = w \<and> i_status i = INV_PENDING \<and>
        s' = s\<lparr>invitations := update_row i_id (i\<lparr>i_status := INV_REVOKED\<rparr>) (invitations s)\<rparr>)"
  using assms
  by (cases r)
    (auto simp: InvitationsService_revoke_def save_invitation_def bindM_Inr_iff bindM_Inl_iff
      split: option.splits dest!: find_SomeD intro!: close_invitation_ok)

text \<open>Every way \<open>accept\<close> can end, for the invitation that has the token.\<close>

lemma accept_cases:
  assumes ok: "app_ok s" and i: "i \<in> set (invitations s)"
  shows "InvitationsService_accept u email (i_token i) mid d now s =
    (if i_status i \<noteq> INV_PENDING then (Inl (NotFound ''Invitation not found or no longer pending''), s)
     else if i_expiresAt i < d then
       (Inl (Gone ''Invitation has expired''),
        s\<lparr>invitations := update_row i_id (i\<lparr>i_status := INV_EXPIRED\<rparr>) (invitations s)\<rparr>)
     else if toLowerCase (i_email i) \<noteq> toLowerCase email then
       (Inl (Forbidden ''This invitation was issued to a different email address''), s)
     else let accepted = update_row i_id (i\<lparr>i_status := INV_ACCEPTED\<rparr>) (invitations s);
              m = \<lparr>m_id = mid, m_workspaceId = i_workspaceId i, m_userId = u, m_role = i_role i, m_joinedAt = now\<rparr>
       in case find_member (i_workspaceId i) u s of
            Some m' \<Rightarrow> (Inr m', s\<lparr>invitations := accepted\<rparr>)
          | None \<Rightarrow> (case insert_member m s of
              Inl e \<Rightarrow> (Inl (QueryFailed e), s) | Inr s1 \<Rightarrow> (Inr m, s1\<lparr>invitations := accepted\<rparr>)))"
proof -
  have f: "List.find (\<lambda>x. i_token x = i_token i) (invitations s) = Some i"
    by (rule find_key [OF app_ok_invitations(2) [OF ok] i])
  have inv: "invitations s1 = invitations s" if "insert_member m s = Inr s1" for m s1
    using that by (auto simp: insert_member_def)
  show ?thesis
    by (auto simp: InvitationsService_accept_def save_invitation_def bindM_def reads_def throw_def guardM_def
        ret_def modifies_def writes_def transaction_def Let_def f inv split: option.split sum.split)
qed

lemma accept_unknown:
  "\<not> exists_row (\<lambda>i. i_token i = token) (invitations s) \<Longrightarrow>
    InvitationsService_accept u email token mid d now s =
      (Inl (NotFound ''Invitation not found or no longer pending''), s)"
  by (simp add: InvitationsService_accept_def bindM_def reads_def exists_row_find)

lemma InvitationsService_accept_keeps: "keeps app_ok (InvitationsService_accept u email token mid d now)"
proof (rule keepsI)
  fix s r s'
  assume ok: "app_ok s" and run: "InvitationsService_accept u email token mid d now s = (r, s')"
  show "app_ok s'"
  proof (cases "exists_row (\<lambda>i. i_token i = token) (invitations s)")
    case False
    with run ok accept_unknown [OF this, of u email mid d now] show ?thesis by simp
  next
    case True
    then obtain i where i: "i \<in> set (invitations s)" "i_token i = token" by (auto simp: exists_row_def)
    have closed: "app_ok (s\<lparr>invitations := update_row i_id (i\<lparr>i_status := st\<rparr>) (invitations s)\<rparr>)"
      if "st \<noteq> INV_PENDING" for st
      by (rule close_invitation_ok [OF ok i(1) that])
    have joined: "app_ok (s1\<lparr>invitations := update_row i_id (i\<lparr>i_status := INV_ACCEPTED\<rparr>) (invitations s)\<rparr>)"
      if "insert_member m s = Inr s1" for m s1
      using close_invitation_ok [OF insert_member_ok [OF ok that], of i INV_ACCEPTED] i that
      by (auto simp: insert_member_def)
    show ?thesis
      using run accept_cases [OF ok i(1), of u email mid d now] i(2) ok closed joined
      by (auto simp: Let_def split: if_splits option.splits sum.splits)
  qed
qed

section \<open>Memberships an acceptance makes\<close>

lemma find_member_insert:
  assumes "insert_member m s = Inr s'"
  shows "find_member w u s' =
    (if w = m_workspaceId m \<and> u = m_userId m then Some m else find_member w u s)"
proof -
  have s': "members s' = members s @ [m]"
    and new: "\<not> exists_row (\<lambda>x. m_workspaceId x = m_workspaceId m \<and> m_userId x = m_userId m) (members s)"
    using assms by (auto simp: insert_member_def)
  have snoc: "List.find P (t @ [x]) = (case List.find P t of None \<Rightarrow> if P x then Some x else None | Some y \<Rightarrow> Some y)"
    for P and x :: member and t by (induction t) auto
  show ?thesis
    using new by (auto simp: find_member_def s' snoc exists_row_find split: option.split)
qed

lemma find_member_invitations [simp]: "find_member w u (s\<lparr>invitations := is\<rparr>) = find_member w u s"
  by (simp add: find_member_def)

text \<open>A closed invitation cannot be accepted, by anybody, at any time.\<close>

lemma accept_closed:
  assumes ok: "app_ok s" and i: "i \<in> set (invitations s)" "i_status i \<noteq> INV_PENDING"
  shows "InvitationsService_accept u email (i_token i) mid d now s =
    (Inl (NotFound ''Invitation not found or no longer pending''), s)"
  using accept_cases [OF ok i(1), of u email mid d now] i(2) by simp

text \<open>What an acceptance that succeeded says of the invitation and does to the members.\<close>

definition accepted_by ::
    "uuid \<Rightarrow> string \<Rightarrow> js_date \<Rightarrow> app \<Rightarrow> invitation \<Rightarrow> member \<Rightarrow> app \<Rightarrow> bool" where
  "accepted_by u email d s i m s' \<longleftrightarrow>
     i \<in> set (invitations s) \<and> i_status i = INV_PENDING \<and> \<not> i_expiresAt i < d \<and>
     toLowerCase (i_email i) = toLowerCase email \<and>
     i\<lparr>i_status := INV_ACCEPTED\<rparr> \<in> set (invitations s') \<and>
     find_member (i_workspaceId i) u s' = Some m \<and>
     (case find_member (i_workspaceId i) u s of Some m' \<Rightarrow> m = m' | None \<Rightarrow> m_role m = i_role i) \<and>
     (\<forall>w' u'. w' = i_workspaceId i \<and> u' = u \<or> find_member w' u' s' = find_member w' u' s)"

lemma accept_Inr:
  assumes ok: "app_ok s" and run: "InvitationsService_accept u email token mid d now s = (Inr m, s')"
  shows "\<exists>i. i_token i = token \<and> accepted_by u email d s i m s'"
proof -
  obtain i where i: "i \<in> set (invitations s)" "i_token i = token"
    using run accept_unknown [of token s u email mid d now] by (auto simp: exists_row_def)
  let ?r = "i\<lparr>i_status := INV_ACCEPTED\<rparr>"
  let ?m = "\<lparr>m_id = mid, m_workspaceId = i_workspaceId i, m_userId = u, m_role = i_role i, m_joinedAt = now\<rparr>"
  note cases = accept_cases [OF ok i(1), of u email mid d now]
  have pend: "i_status i = INV_PENDING" "\<not> i_expiresAt i < d" "toLowerCase (i_email i) = toLowerCase email"
    using run cases i(2) by (auto split: if_splits)
  have mem: "?r \<in> set (update_row i_id ?r (invitations s))"
    using i(1) by (auto simp: set_update_row)
  from run cases i(2) pend consider
      (member) "find_member (i_workspaceId i) u s = Some m"
        "s' = s\<lparr>invitations := update_row i_id ?r (invitations s)\<rparr>"
    | (new) s1 where "find_member (i_workspaceId i) u s = None" "insert_member ?m s = Inr s1" "m = ?m"
        "s' = s1\<lparr>invitations := update_row i_id ?r (invitations s)\<rparr>"
    by (auto simp: Let_def split: option.splits sum.splits)
  then have "accepted_by u email d s i m s'"
  proof cases
    case member
    with i pend mem show ?thesis by (simp add: accepted_by_def)
  next
    case new
    with i pend mem show ?thesis
      by (auto simp: accepted_by_def find_member_insert [OF new(2)])
  qed
  with i(2) show ?thesis by blast
qed

section \<open>Properties\<close>

text \<open>
  C16.  An invitation makes one member and only the one invited: an acceptance succeeds for a pending
  invitation that has not expired and a user of that address, who is then a member with the
  invitation's role, or keeps the membership held before; no other membership changes, and the
  token is worth nothing to anybody afterwards.  Every refusal leaves the database as it was, but for
  an expired invitation, which is marked so.
\<close>

theorem accept_outcome:
  assumes "app_ok s" and "InvitationsService_accept u email token mid d now s = (r, s')"
  shows "case r of
      Inl (Gone msg) \<Rightarrow> (\<exists>i \<in> set (invitations s). i_token i = token \<and> i_status i = INV_PENDING \<and>
        i_expiresAt i < d \<and>
        s' = s\<lparr>invitations := update_row i_id (i\<lparr>i_status := INV_EXPIRED\<rparr>) (invitations s)\<rparr>)
    | Inl e \<Rightarrow> s' = s
    | Inr m \<Rightarrow> (\<exists>i. i_token i = token \<and> accepted_by u email d s i m s') \<and>
        InvitationsService_accept u2 email2 token mid2 d2 now2 s' =
          (Inl (NotFound ''Invitation not found or no longer pending''), s')"
proof (cases r)
  case (Inr m)
  with accept_Inr [OF assms(1)] assms(2) obtain i where i: "i_token i = token" "accepted_by u email d s i m s'"
    by blast
  have ok': "app_ok s'" by (rule keepsD [OF InvitationsService_accept_keeps assms])
  have "i\<lparr>i_status := INV_ACCEPTED\<rparr> \<in> set (invitations s')" using i(2) by (simp add: accepted_by_def)
  from accept_closed [OF ok' this, of u2 email2 mid2 d2 now2] i Inr show ?thesis by auto
next
  case (Inl e)
  show ?thesis
  proof (cases "exists_row (\<lambda>i. i_token i = token) (invitations s)")
    case False
    with assms(2) accept_unknown [OF this, of u email mid d now] show ?thesis by auto
  next
    case True
    then obtain i where i: "i \<in> set (invitations s)" "i_token i = token" by (auto simp: exists_row_def)
    show ?thesis
      using assms(2) Inl accept_cases [OF assms(1) i(1), of u email mid d now] i
      by (auto simp: Let_def split: if_splits option.splits sum.splits)
  qed
qed

lemma ex_accept:
  "InvitationsService_accept ''u3'' ''C@X'' ''tok'' ''m3'' 7 7 ex_app =
    (Inr \<lparr>m_id = ''m3'', m_workspaceId = ''w1'', m_userId = ''u3'', m_role = MEMBER, m_joinedAt = 7\<rparr>,
     snd (InvitationsService_accept ''u3'' ''C@X'' ''tok'' ''m3'' 7 7 ex_app))"
  by code_simp

theorem accept_outcome_witness:
  "\<exists>i s'. i_token i = ''tok'' \<and>
    accepted_by ''u3'' ''C@X'' 7 ex_app i
      \<lparr>m_id = ''m3'', m_workspaceId = ''w1'', m_userId = ''u3'', m_role = MEMBER, m_joinedAt = 7\<rparr> s' \<and>
    fst (InvitationsService_accept ''u1'' ''c@x'' ''tok'' ''m4'' 8 8 s') =
      Inl (NotFound ''Invitation not found or no longer pending'')"
  using accept_outcome [OF ex_app_ok ex_accept, of "''u1''" "''c@x''" "''m4''" 8 8]
  by (simp del: ex_app_tables) (metis fst_conv)

definition joined_already :: "uuid \<Rightarrow> string \<Rightarrow> app \<Rightarrow> bool" where
  "joined_already w email s \<longleftrightarrow> (\<exists>u \<in> set (users s). ci_eq (u_email u) email \<and> find_member w (u_id u) s \<noteq> None)"

definition invited_already :: "uuid \<Rightarrow> string \<Rightarrow> app \<Rightarrow> bool" where
  "invited_already w email s \<longleftrightarrow>
     exists_row (\<lambda>i. i_workspaceId i = w \<and> ci_eq (i_email i) email \<and> i_status i = INV_PENDING) (invitations s)"

lemma joined_found:
  assumes ok: "app_ok s"
  shows "joined_already w email s \<longleftrightarrow>
    (\<exists>u. UsersService_findByEmail email s = Some u \<and> find_member w (u_id u) s \<noteq> None)"
proof
  assume "joined_already w email s"
  then obtain u where u: "u \<in> set (users s)" "ci_eq (u_email u) email" "find_member w (u_id u) s \<noteq> None"
    by (auto simp: joined_already_def)
  then obtain v where v: "UsersService_findByEmail email s = Some v"
    using find_None_iff2 [of "\<lambda>u. ci_eq (u_email u) email" "users s"]
    by (fastforce simp: UsersService_findByEmail_def)
  then have "v = u"
    using app_ok_emails [OF ok, of v u] u by (auto simp: UsersService_findByEmail_def ci_eq_def dest: find_SomeD)
  with u v show "\<exists>u. UsersService_findByEmail email s = Some u \<and> find_member w (u_id u) s \<noteq> None" by blast
qed (auto simp: joined_already_def UsersService_findByEmail_def dest: find_SomeD)

definition new_invitation ::
    "uuid \<Rightarrow> uuid \<Rightarrow> create_invitation_dto \<Rightarrow> string \<Rightarrow> uuid \<Rightarrow> js_date \<Rightarrow> pg_time \<Rightarrow> invitation" where
  "new_invitation w inviter dto token iid d now =
     \<lparr>i_id = iid, i_workspaceId = w, i_email = cinv_email dto,
      i_role = (case cinv_role dto of None \<Rightarrow> MEMBER | Some r \<Rightarrow> r), i_token = token,
      i_status = INV_PENDING, i_invitedBy = inviter, i_expiresAt = d + INVITE_TTL_MS, i_createdAt = now\<rparr>"

lemma invite_cases:
  assumes ok: "app_ok s"
  shows "InvitationsService_invite w inviter dto token iid d now s =
    (if joined_already w (cinv_email dto) s then (Inl (Conflict ''User is already a member of this workspace''), s)
     else if invited_already w (cinv_email dto) s
     then (Inl (Conflict ''A pending invitation already exists for this email''), s)
     else case insert_invitation (new_invitation w inviter dto token iid d now) s of
            Inl e \<Rightarrow> (Inl (QueryFailed e), s)
          | Inr s1 \<Rightarrow> (Inr (new_invitation w inviter dto token iid d now), s1))"
  unfolding joined_found [OF ok] invited_already_def exists_row_find
  by (auto simp: InvitationsService_invite_def bindM_def reads_def writes_def ret_def Let_def new_invitation_def
      split: option.split sum.split)

text \<open>The invited person can accept until the invitation expires.\<close>

lemma new_invitation_accept:
  assumes ok: "app_ok s" and ins: "insert_invitation i s = Inr s'" and i: "i_status i = INV_PENDING"
    and u: "u \<in> set (users s)" "ci_eq (u_email u) (i_email i)" "\<not> has_id m_id (members s) mid"
    and new: "find_member (i_workspaceId i) (u_id u) s = None"
  shows "case fst (InvitationsService_accept (u_id u) (u_email u) (i_token i) mid d2 now2 s') of
      Inr m \<Rightarrow> d2 \<le> i_expiresAt i \<and>
        m = \<lparr>m_id = mid, m_workspaceId = i_workspaceId i, m_userId = u_id u, m_role = i_role i, m_joinedAt = now2\<rparr>
    | Inl e \<Rightarrow> i_expiresAt i < d2 \<and> e = Gone ''Invitation has expired''"
proof -
  have s': "s' = s\<lparr>invitations := invitations s @ [i]\<rparr>" using ins by (simp add: insert_invitation_def)
  have ok': "app_ok s'" by (rule insert_invitation_ok [OF ok ins])
  have none: "find_member (i_workspaceId i) (u_id u) s' = None" using new by (simp add: s')
  let ?m = "\<lparr>m_id = mid, m_workspaceId = i_workspaceId i, m_userId = u_id u, m_role = i_role i, m_joinedAt = now2\<rparr>"
  have "\<exists>s2. insert_member ?m s' = Inr s2"
    using u none ins by (auto simp: s' insert_member_def insert_invitation_def exists_row_find find_member_def)
  then obtain s2 where "insert_member ?m s' = Inr s2" by blast
  with none u i accept_cases [OF ok', of i "u_id u" "u_email u" mid d2 now2] show ?thesis
    by (simp add: s' ci_eq_def Let_def)
qed

text \<open>
  An invitation goes to people who are not members yet and is alone: it is refused when a user of
  that address, in any case, is a member, or an invitation for it is pending, and changes nothing
  then.  Otherwise it is stored pending, and whoever has that address can accept it until it expires
  seven days later, and not a moment after.
\<close>

theorem invite_outcome:
  assumes "app_ok s" and "InvitationsService_invite w inviter dto token iid d now s = (r, s')"
  shows "case r of
      Inl e \<Rightarrow> s' = s \<and> (case e of
          Conflict m \<Rightarrow> joined_already w (cinv_email dto) s \<or> invited_already w (cinv_email dto) s
        | _ \<Rightarrow> \<exists>q. e = QueryFailed q)
    | Inr i \<Rightarrow> app_ok s' \<and> s' = s\<lparr>invitations := invitations s @ [i]\<rparr> \<and> i_status i = INV_PENDING \<and>
        \<not> joined_already w (cinv_email dto) s \<and>
        (u \<in> set (users s) \<and> ci_eq (u_email u) (cinv_email dto) \<and> \<not> has_id m_id (members s) mid \<longrightarrow>
          (case fst (InvitationsService_accept (u_id u) (u_email u) token mid d2 now2 s') of
             Inr m \<Rightarrow> d2 \<le> d + INVITE_TTL_MS \<and>
               m = \<lparr>m_id = mid, m_workspaceId = w, m_userId = u_id u, m_role = i_role i, m_joinedAt = now2\<rparr>
           | Inl e \<Rightarrow> d + INVITE_TTL_MS < d2 \<and> e = Gone ''Invitation has expired''))"
proof (cases "\<not> joined_already w (cinv_email dto) s \<and> \<not> invited_already w (cinv_email dto) s")
  case free: True
  let ?i = "new_invitation w inviter dto token iid d now"
  show ?thesis
  proof (cases "insert_invitation ?i s")
    case (Inr s1)
    with assms free have eq: "r = Inr ?i" "s' = s1" by (simp_all add: invite_cases)
    have i: "i_status ?i = INV_PENDING" "i_email ?i = cinv_email dto" "i_token ?i = token" "i_workspaceId ?i = w"
        "i_expiresAt ?i = d + INVITE_TTL_MS"
      by (simp_all add: new_invitation_def)
    have "s1 = s\<lparr>invitations := invitations s @ [?i]\<rparr>" using Inr by (simp add: insert_invitation_def)
    moreover have "app_ok s1" by (rule insert_invitation_ok [OF assms(1) Inr])
    ultimately show ?thesis
      using new_invitation_accept [OF assms(1) Inr i(1), of u mid d2 now2, unfolded i] free
      by (auto simp: eq i joined_already_def)
  qed (use assms free in \<open>auto simp: invite_cases\<close>)
qed (use assms in \<open>auto simp: invite_cases split: if_splits\<close>)

lemma ex_invite:
  "InvitationsService_invite ''w1'' ''u1'' \<lparr>cinv_email = ''D@x'', cinv_role = Some ADMIN\<rparr> ''t2'' ''i2'' 7 7 ex_app =
    (Inr \<lparr>i_id = ''i2'', i_workspaceId = ''w1'', i_email = ''D@x'', i_role = ADMIN, i_token = ''t2'',
          i_status = INV_PENDING, i_invitedBy = ''u1'', i_expiresAt = 604800007, i_createdAt = 7\<rparr>,
     snd (InvitationsService_invite ''w1'' ''u1'' \<lparr>cinv_email = ''D@x'', cinv_role = Some ADMIN\<rparr> ''t2'' ''i2'' 7 7 ex_app))"
  by code_simp

theorem invite_outcome_witness:
  "app_ok (snd (InvitationsService_invite ''w1'' ''u1'' \<lparr>cinv_email = ''D@x'', cinv_role = Some ADMIN\<rparr> ''t2'' ''i2'' 7 7 ex_app)) \<and>
   fst (InvitationsService_invite ''w1'' ''u1'' \<lparr>cinv_email = ''C@x'', cinv_role = None\<rparr> ''t2'' ''i2'' 7 7 ex_app) =
     Inl (Conflict ''A pending invitation already exists for this email'')"
proof
  show "app_ok (snd (InvitationsService_invite ''w1'' ''u1'' \<lparr>cinv_email = ''D@x'', cinv_role = Some ADMIN\<rparr> ''t2'' ''i2'' 7 7 ex_app))"
    by (rule invite_outcome [OF ex_app_ok ex_invite, unfolded sum.case, THEN conjunct1])
  show "fst (InvitationsService_invite ''w1'' ''u1'' \<lparr>cinv_email = ''C@x'', cinv_role = None\<rparr> ''t2'' ''i2'' 7 7 ex_app) =
     Inl (Conflict ''A pending invitation already exists for this email'')" by code_simp
qed

end
