(* ===== verification/Notifications.thy ===== *)
theory Notifications
  imports Example Pagination
begin

text \<open>
  Notifications (\<open>src/modules/notifications\<close>): the inbox (\<open>NotificationsService\<close>), the mapping of
  domain events to notifications, and the two ways they are delivered: in the process that emitted
  the event (\<open>NotificationListener\<close>), or through a job queue (\<open>NotificationQueueListener\<close> and
  \<open>NotificationProcessor\<close>).  The queue is the package \<open>bullmq\<close>, so its operations are a parameter.
\<close>

record create_notification_input =
  cn_recipientId :: uuid
  cn_type :: notification_type
  cn_title :: string
  cn_body :: "string option"
  cn_entityType :: "string option"
  cn_entityId :: "uuid option"
  cn_workspaceId :: "uuid option"

section \<open>The inbox\<close>

definition NotificationsService_create ::
    "create_notification_input \<Rightarrow> uuid \<Rightarrow> pg_time \<Rightarrow> (app, notification) svc" where
  "NotificationsService_create input nid now =
     (let notification =
        \<lparr>n_id = nid, n_recipientId = cn_recipientId input, n_type = cn_type input,
         n_title = cn_title input, n_body = cn_body input, n_entityType = cn_entityType input,
         n_entityId = cn_entityId input, n_workspaceId = cn_workspaceId input,
         n_isRead = False, n_readAt = None, n_createdAt = now\<rparr>
      in bindM (writes (insert_notification notification)) (\<lambda>_.
         bindM (modifies (emit (NotificationCreated notification))) (\<lambda>_.
         ret notification)))"

definition notifications_scope :: "uuid \<Rightarrow> bool option \<Rightarrow> app \<Rightarrow> notification list" where
  "notifications_scope userId unread s =
     filter (\<lambda>n. n_recipientId n = userId \<and> (unread = Some True \<longrightarrow> \<not> n_isRead n)) (notifications s)"

definition NotificationsService_list ::
    "casts \<Rightarrow> uuid \<Rightarrow> bool option \<Rightarrow> nat option \<Rightarrow> string option \<Rightarrow> (app, notification page) svc" where
  "NotificationsService_list cs userId unread lim cursor =
     reads (\<lambda>s. keyset_page cs n_createdAt n_id lim cursor (notifications_scope userId unread s))"

definition NotificationsService_unreadCount :: "uuid \<Rightarrow> (app, nat) svc" where
  "NotificationsService_unreadCount userId =
     reads (\<lambda>s. Inr (length (filter (\<lambda>n. n_recipientId n = userId \<and> \<not> n_isRead n) (notifications s))))"

definition set_read :: "js_date \<Rightarrow> notification \<Rightarrow> notification" where
  "set_read date n = n\<lparr>n_isRead := True, n_readAt := Some date\<rparr>"

definition NotificationsService_markRead :: "uuid \<Rightarrow> uuid \<Rightarrow> js_date \<Rightarrow> (app, notification) svc" where
  "NotificationsService_markRead userId i date =
     bindM (reads (\<lambda>s. case List.find (\<lambda>n. n_id n = i \<and> n_recipientId n = userId) (notifications s) of
                         None \<Rightarrow> Inl (NotFound ''Notification not found'') | Some n \<Rightarrow> Inr n)) (\<lambda>n.
     if n_isRead n then ret n
     else let r = set_read date n
          in bindM (modifies (\<lambda>s. s\<lparr>notifications := update_row n_id r (notifications s)\<rparr>)) (\<lambda>_. ret r))"

definition NotificationsService_markAllRead :: "uuid \<Rightarrow> js_date \<Rightarrow> (app, nat) svc" where
  "NotificationsService_markAllRead userId date =
     bindM (NotificationsService_unreadCount userId) (\<lambda>affected.
     bindM (modifies (\<lambda>s. s\<lparr>notifications := update_where (\<lambda>n. n_recipientId n = userId \<and> \<not> n_isRead n)
              (set_read date) (notifications s)\<rparr>)) (\<lambda>_.
     ret affected))"

section \<open>Who is notified of what\<close>

definition notify :: "uuid \<Rightarrow> notification_type \<Rightarrow> string \<Rightarrow> string \<Rightarrow> uuid \<Rightarrow> create_notification_input" where
  "notify recipient ty title entity i =
     \<lparr>cn_recipientId = recipient, cn_type = ty, cn_title = title, cn_body = None,
      cn_entityType = Some entity, cn_entityId = Some i, cn_workspaceId = None\<rparr>"

text \<open>The mappers take the fields of their event, in its order.\<close>

definition mapTaskAssigned :: "uuid \<Rightarrow> uuid \<Rightarrow> uuid \<Rightarrow> create_notification_input option" where
  "mapTaskAssigned taskId assigneeId actorId =
     (if \<not> truthy (Some assigneeId) \<or> assigneeId = actorId then None
      else Some (notify assigneeId TASK_ASSIGNED ''You were assigned a task'' ''task'' taskId))"

definition mapTaskCompleted :: "uuid \<Rightarrow> uuid \<Rightarrow> uuid option \<Rightarrow> create_notification_input option" where
  "mapTaskCompleted taskId actorId creatorId =
     (if \<not> truthy creatorId \<or> creatorId = Some actorId then None
      else Some (notify (the creatorId) TASK_COMPLETED ''A task you created was completed'' ''task'' taskId))"

definition mapCommentCreated ::
    "uuid \<Rightarrow> uuid \<Rightarrow> uuid \<Rightarrow> uuid option \<Rightarrow> uuid option \<Rightarrow> create_notification_input option" where
  "mapCommentCreated commentId taskId authorId parentCommentId taskAssigneeId =
     (if \<not> truthy taskAssigneeId \<or> taskAssigneeId = Some authorId then None
      else Some (notify (the taskAssigneeId) COMMENT_ADDED ''New comment on your task'' ''task'' taskId))"

definition mapCommentReplied ::
    "uuid \<Rightarrow> uuid \<Rightarrow> uuid \<Rightarrow> uuid \<Rightarrow> uuid \<Rightarrow> create_notification_input option" where
  "mapCommentReplied commentId taskId parentCommentId parentAuthorId authorId =
     (if \<not> truthy (Some parentAuthorId) \<or> parentAuthorId = authorId then None
      else Some (notify parentAuthorId COMMENT_REPLY ''Someone replied to your comment'' ''comment'' commentId))"

text \<open>The mapper each \<open>@OnEvent\<close> handler of the two listeners applies; other events have none.\<close>

fun notification_for :: "domain_event \<Rightarrow> create_notification_input option" where
  "notification_for (TaskAssigned t a u) = mapTaskAssigned t a u"
| "notification_for (TaskCompleted t u c) = mapTaskCompleted t u c"
| "notification_for (CommentCreated c t a p u) = mapCommentCreated c t a p u"
| "notification_for (CommentReplied c t p pa a) = mapCommentReplied c t p pa a"
| "notification_for _ = None"

section \<open>Delivery\<close>

definition NotificationListener_deliver ::
    "create_notification_input option \<Rightarrow> uuid \<Rightarrow> pg_time \<Rightarrow> (app, unit) svc" where
  "NotificationListener_deliver input nid now =
     (case input of
        None \<Rightarrow> ret ()
      | Some i \<Rightarrow> bindM (NotificationsService_create i nid now) (\<lambda>_. ret ()))"

definition NotificationListener_on :: "domain_event \<Rightarrow> uuid \<Rightarrow> pg_time \<Rightarrow> (app, unit) svc" where
  "NotificationListener_on e nid now = NotificationListener_deliver (notification_for e) nid now"

definition notificationJobId :: "create_notification_input \<Rightarrow> string" where
  "notificationJobId input =
     ''notif_'' @ cn_recipientId input @ ''_'' @ notification_type_text (cn_type input) @ ''_'' @
     (case cn_entityId input of None \<Rightarrow> ''none'' | Some i \<Rightarrow> i)"

text \<open>
  A queue: \<open>queue_add\<close> with a job id and the job's data, None where the promise is rejected (no
  connection to Redis); \<open>queue_jobs\<close> lists the jobs the queue knows with their ids, those that are
  finished and kept among them.
\<close>

record ('q, 'd) queue_ops =
  queue_add :: "'q \<Rightarrow> string \<Rightarrow> 'd \<Rightarrow> 'q option"
  queue_jobs :: "'q \<Rightarrow> (string \<times> 'd) list"

text \<open>Documented of \<open>bullmq\<close>: adding a job whose id the queue knows does nothing.\<close>

definition dedupes :: "('q, 'd) queue_ops \<Rightarrow> bool" where
  "dedupes ops \<longleftrightarrow>
     (\<forall>q j d q'. queue_add ops q j d = Some q' \<longrightarrow>
        queue_jobs ops q' = (if j \<in> fst ` set (queue_jobs ops q) then queue_jobs ops q
                             else queue_jobs ops q @ [(j, d)]))"

definition NotificationQueueListener_enqueue ::
    "('q, create_notification_input) queue_ops \<Rightarrow> create_notification_input option \<Rightarrow> ('q, unit) svc" where
  "NotificationQueueListener_enqueue ops input =
     (case input of
        None \<Rightarrow> ret ()
      | Some i \<Rightarrow> (\<lambda>q. case queue_add ops q (notificationJobId i) i of
                           None \<Rightarrow> (Inl (JsError ''queue''), q) | Some q' \<Rightarrow> (Inr (), q')))"

definition NotificationQueueListener_on ::
    "('q, create_notification_input) queue_ops \<Rightarrow> domain_event \<Rightarrow> ('q, unit) svc" where
  "NotificationQueueListener_on ops e = NotificationQueueListener_enqueue ops (notification_for e)"

text \<open>The worker: a job goes to every channel, one after the other; the only channel is the inbox.\<close>

type_synonym channel = "create_notification_input \<Rightarrow> (app, unit) svc"

definition InAppChannel_deliver :: "uuid \<Rightarrow> pg_time \<Rightarrow> channel" where
  "InAppChannel_deliver nid now input = bindM (NotificationsService_create input nid now) (\<lambda>_. ret ())"

fun NotificationProcessor_process :: "channel list \<Rightarrow> create_notification_input \<Rightarrow> (app, unit) svc" where
  "NotificationProcessor_process [] input = ret ()"
| "NotificationProcessor_process (c # cs) input = bindM (c input) (\<lambda>_. NotificationProcessor_process cs input)"

section \<open>The invariant of the data\<close>

lemma app_ok_notifications:
  assumes "app_ok s"
  shows "distinct (map n_id (notifications s))"
    and "n \<in> set (notifications s) \<Longrightarrow> n_isRead n \<longleftrightarrow> n_readAt n \<noteq> None"
  using assms by (auto simp: app_ok_def notifications_ok_def)

lemma NotificationsService_create_cases:
  "NotificationsService_create input nid now s = (r, s') \<Longrightarrow>
     (case r of
        Inl e \<Rightarrow> s' = s \<and> (\<exists>q. e = QueryFailed q)
      | Inr n \<Rightarrow> insert_notification n s = Inr (s\<lparr>notifications := notifications s @ [n]\<rparr>) \<and>
          s' = emit (NotificationCreated n) (s\<lparr>notifications := notifications s @ [n]\<rparr>) \<and>
          n = \<lparr>n_id = nid, n_recipientId = cn_recipientId input, n_type = cn_type input,
               n_title = cn_title input, n_body = cn_body input, n_entityType = cn_entityType input,
               n_entityId = cn_entityId input, n_workspaceId = cn_workspaceId input,
               n_isRead = False, n_readAt = None, n_createdAt = now\<rparr>)"
  by (cases r)
    (auto simp: NotificationsService_create_def Let_def bindM_Inr_iff bindM_Inl_iff insert_notification_def)

lemma NotificationsService_create_keeps: "keeps app_ok (NotificationsService_create input nid now)"
proof (rule keepsI)
  fix s r s' assume ok: "app_ok s" and run: "NotificationsService_create input nid now s = (r, s')"
  from NotificationsService_create_cases [OF run] show "app_ok s'"
    using ok by (cases r) (auto elim: insert_notification_ok)
qed

text \<open>Marking notifications as read, whichever they are.\<close>

lemma read_where_ok:
  assumes ok: "app_ok s"
  shows "app_ok (s\<lparr>notifications := update_where P (set_read d) (notifications s)\<rparr>)"
proof -
  let ?ns = "update_where P (set_read d) (notifications s)"
  have old: "notifications_ok (users s) (workspaces s) (notifications s)" using ok by (simp add: app_ok_def)
  have "distinct (map n_id ?ns)" using old by (simp add: notifications_ok_def set_read_def)
  with old have "notifications_ok (users s) (workspaces s) ?ns"
    by (auto simp: notifications_ok_def set_update_where set_read_def)
  then show ?thesis using ok by (simp add: app_ok_def)
qed

lemma read_row_where:
  assumes "app_ok s" and "n \<in> set (notifications s)"
  shows "update_row n_id (set_read d n) (notifications s) =
    update_where (\<lambda>x. n_id x = n_id n) (set_read d) (notifications s)"
  unfolding update_row_def update_where_def
  using distinct_key_eq [OF app_ok_notifications(1) [OF assms(1)] _ assms(2)]
  by (auto simp: set_read_def)

lemma NotificationsService_markRead_cases:
  assumes ok: "app_ok s"
  shows "NotificationsService_markRead u i d s =
    (case List.find (\<lambda>n. n_id n = i \<and> n_recipientId n = u) (notifications s) of
       None \<Rightarrow> (Inl (NotFound ''Notification not found''), s)
     | Some n \<Rightarrow> if n_isRead n then (Inr n, s)
         else (Inr (set_read d n),
               s\<lparr>notifications := update_where (\<lambda>x. n_id x = i) (set_read d) (notifications s)\<rparr>))"
  using read_row_where [OF ok]
  by (auto simp: NotificationsService_markRead_def bindM_def reads_def ret_def modifies_def Let_def
      split: option.split dest!: find_SomeD)

lemma NotificationsService_markRead_keeps: "keeps app_ok (NotificationsService_markRead u i d)"
  by (rule keepsI)
    (auto simp: NotificationsService_markRead_cases split: option.splits if_splits intro: read_where_ok)

lemma NotificationsService_markAllRead_keeps: "keeps app_ok (NotificationsService_markAllRead u d)"
  unfolding NotificationsService_markAllRead_def NotificationsService_unreadCount_def
  by (intro keeps_intros keeps_modifies read_where_ok)

lemma NotificationListener_on_keeps: "keeps app_ok (NotificationListener_on e nid now)"
  unfolding NotificationListener_on_def NotificationListener_deliver_def
  by (cases "notification_for e") (auto intro!: keeps_intros NotificationsService_create_keeps)

lemma InAppChannel_deliver_keeps: "keeps app_ok (InAppChannel_deliver nid now input)"
  unfolding InAppChannel_deliver_def by (intro keeps_intros NotificationsService_create_keeps)

interpretation notification_feed: paged_feed cs n_createdAt n_id app_ok "\<lambda>_ _. None"
    "\<lambda>s (u, unread). notifications_scope u unread s"
    "\<lambda>s (u, unread) lim c. fst (NotificationsService_list cs u unread lim c s)"
  for cs
proof
  fix s :: app and q
  assume "app_ok s"
  then show "distinct (map n_id (case q of (u, unread) \<Rightarrow> notifications_scope u unread s))"
    by (auto simp: notifications_scope_def app_ok_def notifications_ok_def distinct_map_filterI split: prod.split)
qed (auto simp: NotificationsService_list_def reads_def)

section \<open>The inbox, abstractly\<close>

text \<open>What a user has not read: a set of ids for each user.\<close>

definition unread :: "app \<Rightarrow> uuid \<Rightarrow> uuid set" where
  "unread s u = n_id ` {n \<in> set (notifications s). n_recipientId n = u \<and> \<not> n_isRead n}"

lemma unread_count:
  assumes "app_ok s"
  shows "fst (NotificationsService_unreadCount u s) = Inr (card (unread s u))"
proof -
  let ?t = "filter (\<lambda>n. n_recipientId n = u \<and> \<not> n_isRead n) (notifications s)"
  have "distinct (map n_id ?t)"
    by (rule distinct_map_filterI [OF app_ok_notifications(1) [OF assms]])
  then have "card (set (map n_id ?t)) = length ?t" using distinct_card by fastforce
  moreover have "set (map n_id ?t) = unread s u" by (auto simp: unread_def)
  ultimately show ?thesis by (simp add: NotificationsService_unreadCount_def reads_def)
qed

lemma unread_read_where:
  "unread (s\<lparr>notifications := update_where P (set_read d) (notifications s)\<rparr>) u =
    n_id ` {n \<in> set (notifications s). n_recipientId n = u \<and> \<not> n_isRead n \<and> \<not> P n}"
  by (auto simp: unread_def set_update_where set_read_def)

lemma unread_create:
  assumes "NotificationsService_create input nid now s = (Inr n, s')"
  shows "unread s' = (unread s)(cn_recipientId input := insert nid (unread s (cn_recipientId input)))"
proof -
  have s': "notifications s' = notifications s @ [n]"
    and m: "n_id n = nid" "n_recipientId n = cn_recipientId input" "\<not> n_isRead n"
    using NotificationsService_create_cases [OF assms] by simp_all
  have "{x \<in> set (notifications s'). n_recipientId x = v \<and> \<not> n_isRead x} =
      {x \<in> set (notifications s). n_recipientId x = v \<and> \<not> n_isRead x} \<union>
        (if cn_recipientId input = v then {n} else {})" for v
    by (auto simp: s' m)
  note new = this
  show ?thesis
  proof (rule ext)
    fix v
    show "unread s' v = ((unread s)(cn_recipientId input := insert nid (unread s (cn_recipientId input)))) v"
      unfolding unread_def using new [of v] by (simp add: m)
  qed
qed

lemma unread_markRead:
  assumes ok: "app_ok s" and run: "NotificationsService_markRead u i d s = (Inr n, s')"
  shows "unread s' = (unread s)(u := unread s u - {i})"
proof -
  from run obtain m where m: "List.find (\<lambda>n. n_id n = i \<and> n_recipientId n = u) (notifications s) = Some m"
    by (auto simp: NotificationsService_markRead_cases [OF ok] split: option.splits)
  then have row: "m \<in> set (notifications s)" "n_id m = i" "n_recipientId m = u" by (auto dest: find_SomeD)
  have only: "x = m" if "x \<in> set (notifications s)" "n_id x = i" for x
    using distinct_key_eq [OF app_ok_notifications(1) [OF ok] that(1) row(1)] that(2) row(2) by simp
  show ?thesis
  proof (cases "n_isRead m")
    case True
    with run m have "s' = s" by (simp add: NotificationsService_markRead_cases [OF ok])
    moreover have "i \<notin> unread s u" using only True by (auto simp: unread_def)
    ultimately show ?thesis by auto
  next
    case False
    with run m have s': "s' = s\<lparr>notifications := update_where (\<lambda>x. n_id x = i) (set_read d) (notifications s)\<rparr>"
      by (simp add: NotificationsService_markRead_cases [OF ok])
    show ?thesis
    proof (rule ext)
      fix v
      show "unread s' v = ((unread s)(u := unread s u - {i})) v"
        unfolding s' unread_read_where using only row(3) by (auto simp: unread_def)
    qed
  qed
qed

lemma unread_markAllRead:
  "NotificationsService_markAllRead u d s = (Inr k, s') \<Longrightarrow> unread s' = (unread s)(u := {})"
  by (rule ext)
    (auto simp: NotificationsService_markAllRead_def NotificationsService_unreadCount_def bindM_Inr_iff
      unread_read_where, auto simp: unread_def)

section \<open>Jobs\<close>

text \<open>Ids hold no underscore, so the id of a job tells recipient, type and entity apart.\<close>

definition plain_input :: "create_notification_input \<Rightarrow> bool" where
  "plain_input i \<longleftrightarrow> CHR ''_'' \<notin> set (cn_recipientId i) \<and>
     (\<exists>e. cn_entityId i = Some e \<and> CHR ''_'' \<notin> set e)"

definition input_key :: "create_notification_input \<Rightarrow> uuid \<times> notification_type \<times> uuid option" where
  "input_key i = (cn_recipientId i, cn_type i, cn_entityId i)"

lemma append_sep_inject:
  "c \<notin> set a \<Longrightarrow> c \<notin> set b \<Longrightarrow> a @ c # x = b @ c # y \<longleftrightarrow> a = b \<and> x = y"
proof (induction a arbitrary: b)
  case Nil
  then show ?case by (cases b) auto
next
  case (Cons h a)
  then show ?case by (cases b) auto
qed

lemma snoc_sep_inject:
  assumes "c \<notin> set x" and "c \<notin> set y"
  shows "a @ c # x = b @ c # y \<longleftrightarrow> a = b \<and> x = y"
proof -
  have "a @ c # x = b @ c # y \<longleftrightarrow> rev x @ c # rev a = rev y @ c # rev b"
    by (metis append.assoc append_Cons append_Nil rev.simps(2) rev_append rev_rev_ident)
  also have "\<dots> \<longleftrightarrow> rev x = rev y \<and> rev a = rev b"
    by (rule append_sep_inject) (use assms in simp_all)
  finally show ?thesis by auto
qed

lemma notification_type_text_inject: "notification_type_text a = notification_type_text b \<longleftrightarrow> a = b"
  by (cases a; cases b) simp_all

lemma notificationJobId_inject:
  assumes "plain_input i" and "plain_input j"
  shows "notificationJobId i = notificationJobId j \<longleftrightarrow> input_key i = input_key j"
  using assms
  by (auto simp: notificationJobId_def plain_input_def input_key_def append_sep_inject snoc_sep_inject
      notification_type_text_inject)

text \<open>Each event's listener in turn, as long as the queue takes the jobs.\<close>

fun enqueue_all ::
    "('q, create_notification_input) queue_ops \<Rightarrow> domain_event list \<Rightarrow> 'q \<Rightarrow> 'q option" where
  "enqueue_all ops [] q = Some q"
| "enqueue_all ops (e # es) q =
     (case NotificationQueueListener_on ops e q of (Inl _, _) \<Rightarrow> None | (Inr _, q') \<Rightarrow> enqueue_all ops es q')"

definition inputs_of :: "domain_event list \<Rightarrow> create_notification_input list" where
  "inputs_of es = List.map_filter notification_for es"

lemma enqueue_all_jobs:
  assumes d: "dedupes ops"
  shows "enqueue_all ops es q = Some q' \<Longrightarrow>
    distinct (map fst (queue_jobs ops q) @ map notificationJobId (inputs_of es)) \<Longrightarrow>
    queue_jobs ops q' = queue_jobs ops q @ map (\<lambda>i. (notificationJobId i, i)) (inputs_of es)"
proof (induction es arbitrary: q)
  case Nil
  then show ?case by (simp add: inputs_of_def map_filter_simps)
next
  case (Cons e es)
  show ?case
  proof (cases "notification_for e")
    case None
    with Cons.IH [of q] Cons.prems show ?thesis
      by (simp add: NotificationQueueListener_on_def NotificationQueueListener_enqueue_def ret_def
          inputs_of_def map_filter_simps)
  next
    case (Some i)
    with Cons.prems(1) obtain q1 where q1: "queue_add ops q (notificationJobId i) i = Some q1"
        "enqueue_all ops es q1 = Some q'"
      by (auto simp: NotificationQueueListener_on_def NotificationQueueListener_enqueue_def split: option.splits)
    have new: "notificationJobId i \<notin> fst ` set (queue_jobs ops q)"
      using Cons.prems(2) Some by (auto simp: inputs_of_def map_filter_simps)
    have "queue_jobs ops q1 = queue_jobs ops q @ [(notificationJobId i, i)]"
      using d q1(1) new unfolding dedupes_def by metis
    with Cons.IH [OF q1(2)] Cons.prems(2) Some show ?thesis
      by (simp add: inputs_of_def map_filter_simps)
  qed
qed

text \<open>Delivery of a list of inputs, the way a listener or the worker does it: failures are logged.\<close>

fun deliver_each :: "(uuid \<Rightarrow> pg_time \<Rightarrow> 'i \<Rightarrow> (app, unit) svc) \<Rightarrow> (uuid \<times> pg_time \<times> 'i) list \<Rightarrow> app \<Rightarrow> app" where
  "deliver_each f [] s = s"
| "deliver_each f ((nid, now, i) # xs) s = deliver_each f xs (snd (f nid now i s))"

section \<open>Properties\<close>

text \<open>
  C37.  The inbox is a set of unread ids per user: creating a notification adds its id to the
  recipient's set, \<open>markRead\<close> takes one id out, \<open>markAllRead\<close> empties the user's set and returns how
  many there were, which is what \<open>unreadCount\<close> counts; nobody can mark a notification that is
  somebody else's, and no call touches another user's set.
\<close>

theorem inbox_refines:
  assumes "app_ok s"
  shows "(case NotificationsService_create input nid now s of
        (Inl e, s') \<Rightarrow> s' = s
      | (Inr n, s') \<Rightarrow> unread s' = (unread s)(cn_recipientId input := insert nid (unread s (cn_recipientId input)))) \<and>
    (case NotificationsService_markRead u i d s of
        (Inl e, s') \<Rightarrow> s' = s \<and> e = NotFound ''Notification not found'' \<and> i \<notin> unread s u
      | (Inr n, s') \<Rightarrow> n_id n = i \<and> n_recipientId n = u \<and> n_isRead n \<and> unread s' = (unread s)(u := unread s u - {i})) \<and>
    (case NotificationsService_markAllRead u d s of
        (Inl e, s') \<Rightarrow> False
      | (Inr k, s') \<Rightarrow> k = card (unread s u) \<and> unread s' = (unread s)(u := {})) \<and>
    fst (NotificationsService_unreadCount u s) = Inr (card (unread s u))"
proof (intro conjI)
  show "case NotificationsService_create input nid now s of
        (Inl e, s') \<Rightarrow> s' = s
      | (Inr n, s') \<Rightarrow> unread s' = (unread s)(cn_recipientId input := insert nid (unread s (cn_recipientId input)))"
  proof -
    obtain r s' where run: "NotificationsService_create input nid now s = (r, s')" by (metis surj_pair)
    show ?thesis
      using NotificationsService_create_cases [OF run] unread_create [of input nid now s _ s'] run
      by (cases r) simp_all
  qed
  show "case NotificationsService_markRead u i d s of
        (Inl e, s') \<Rightarrow> s' = s \<and> e = NotFound ''Notification not found'' \<and> i \<notin> unread s u
      | (Inr n, s') \<Rightarrow> n_id n = i \<and> n_recipientId n = u \<and> n_isRead n \<and> unread s' = (unread s)(u := unread s u - {i})"
  proof -
    obtain r s' where run: "NotificationsService_markRead u i d s = (r, s')" by (metis surj_pair)
    have "case r of Inl e \<Rightarrow> s' = s \<and> e = NotFound ''Notification not found'' \<and> i \<notin> unread s u
        | Inr n \<Rightarrow> n_id n = i \<and> n_recipientId n = u \<and> n_isRead n"
      using run
      by (auto simp: NotificationsService_markRead_cases [OF assms] find_None_iff2 unread_def set_read_def
          split: option.splits if_splits dest!: find_SomeD)
    with unread_markRead [OF assms, of u i d _ s'] run show ?thesis by (cases r) simp_all
  qed
  obtain k s' where run: "NotificationsService_markAllRead u d s = (Inr k, s')"
    by (simp add: NotificationsService_markAllRead_def NotificationsService_unreadCount_def bindM_def reads_def
        modifies_def ret_def)
  moreover have "k = card (unread s u)"
    using run unread_count [OF assms, of u]
    by (auto simp: NotificationsService_markAllRead_def bindM_Inr_iff)
  ultimately show "case NotificationsService_markAllRead u d s of
        (Inl e, s') \<Rightarrow> False
      | (Inr k, s') \<Rightarrow> k = card (unread s u) \<and> unread s' = (unread s)(u := {})"
    using unread_markAllRead [OF run] by simp
  show "fst (NotificationsService_unreadCount u s) = Inr (card (unread s u))"
    by (rule unread_count [OF assms])
qed

theorem inbox_refines_witness:
  "unread (snd (NotificationsService_markRead ''u2'' ''n1'' 5 ex_app)) ''u2'' = {} \<and>
   fst (NotificationsService_unreadCount ''u2'' ex_app) = Inr 1 \<and>
   snd (NotificationsService_markRead ''u1'' ''n1'' 5 ex_app) = ex_app"
proof -
  have n: "n_id ex_notification = ''n1''" "n_recipientId ex_notification = ''u2''" "\<not> n_isRead ex_notification"
    by (simp_all add: ex_notification_def)
  then have "{n \<in> set (notifications ex_app). n_recipientId n = ''u2'' \<and> \<not> n_isRead n} = {ex_notification}"
    unfolding ex_app_tables by force
  then have un: "unread ex_app ''u2'' = {''n1''}" by (simp add: unread_def n(1))
  have run: "NotificationsService_markRead ''u2'' ''n1'' 5 ex_app =
      (Inr (set_read 5 ex_notification), snd (NotificationsService_markRead ''u2'' ''n1'' 5 ex_app))"
    by (simp add: NotificationsService_markRead_cases [OF ex_app_ok] n)
  have other: "fst (NotificationsService_markRead ''u1'' ''n1'' 5 ex_app) = Inl (NotFound ''Notification not found'')"
    by (simp add: NotificationsService_markRead_cases [OF ex_app_ok] n)
  have "snd (NotificationsService_markRead ''u1'' ''n1'' 5 ex_app) = ex_app"
    using inbox_refines [OF ex_app_ok, THEN conjunct2, THEN conjunct1, of "''n1''" "''u1''" 5] other
    by (cases "NotificationsService_markRead ''u1'' ''n1'' 5 ex_app") simp
  moreover have "unread (snd (NotificationsService_markRead ''u2'' ''n1'' 5 ex_app)) ''u2'' = {}"
    using inbox_refines [OF ex_app_ok, THEN conjunct2, THEN conjunct1, of "''n1''" "''u2''" 5] un
    by (subst (asm) run) simp
  moreover have "fst (NotificationsService_unreadCount ''u2'' ex_app) = Inr 1"
    using inbox_refines [OF ex_app_ok, THEN conjunct2, THEN conjunct2, THEN conjunct2, of "''u2''"] un by simp
  ultimately show ?thesis by blast
qed

text \<open>
  Nobody is notified of what they did themselves, and each event notifies the one it concerns: the
  new assignee of a task, the creator of a completed one, the assignee of a task that was commented
  on, the author of a comment that was replied to; nothing else is notified.
\<close>

theorem notified_party:
  "notification_for e = Some i \<longleftrightarrow>
    (\<exists>t a u. e = TaskAssigned t a u \<and> a \<noteq> [] \<and> a \<noteq> u \<and>
        i = notify a TASK_ASSIGNED ''You were assigned a task'' ''task'' t) \<or>
    (\<exists>t u c. e = TaskCompleted t u (Some c) \<and> c \<noteq> [] \<and> c \<noteq> u \<and>
        i = notify c TASK_COMPLETED ''A task you created was completed'' ''task'' t) \<or>
    (\<exists>c t a p u. e = CommentCreated c t a p (Some u) \<and> u \<noteq> [] \<and> u \<noteq> a \<and>
        i = notify u COMMENT_ADDED ''New comment on your task'' ''task'' t) \<or>
    (\<exists>c t p pa a. e = CommentReplied c t p pa a \<and> pa \<noteq> [] \<and> pa \<noteq> a \<and>
        i = notify pa COMMENT_REPLY ''Someone replied to your comment'' ''comment'' c)"
proof (cases e)
  case (TaskCompleted t u c)
  then show ?thesis by (cases c) (auto simp: mapTaskCompleted_def)
next
  case (CommentCreated c t a p u)
  then show ?thesis by (cases u) (auto simp: mapCommentCreated_def)
qed (auto simp: mapTaskAssigned_def mapCommentReplied_def)


text \<open>A queue that keeps its jobs in a list.\<close>

definition list_queue :: "((string \<times> 'd) list, 'd) queue_ops" where
  "list_queue = \<lparr>queue_add = (\<lambda>q j d. Some (if j \<in> fst ` set q then q else q @ [(j, d)])), queue_jobs = (\<lambda>q. q)\<rparr>"

lemma list_queue_dedupes: "dedupes list_queue"
  by (simp add: dedupes_def list_queue_def)


text \<open>
  The id of a job is made of recipient, type and entity alone, and the queue knows a job also after
  it is done.  So of two notifications the queue takes one after the other the second is dropped
  exactly when it agrees with the first in these three: when somebody comments on a task a second
  time its assignee is not notified, nor is a user who is assigned a task again.
\<close>

theorem second_notification_lost:
  assumes "dedupes ops" and "notification_for e = Some i" and "notification_for e' = Some i'"
    and "plain_input i" and "plain_input i'"
    and "NotificationQueueListener_on ops e q = (Inr (), q1)"
    and "NotificationQueueListener_on ops e' q1 = (Inr (), q2)"
    and "notificationJobId i' \<notin> fst ` set (queue_jobs ops q)"
  shows "queue_jobs ops q2 = queue_jobs ops q1 \<longleftrightarrow> input_key i' = input_key i"
proof -
  have add: "queue_add ops q (notificationJobId i) i = Some q1" "queue_add ops q1 (notificationJobId i') i' = Some q2"
    using assms(2,3,6,7)
    by (auto simp: NotificationQueueListener_on_def NotificationQueueListener_enqueue_def split: option.splits)
  note taken = assms(1) [unfolded dedupes_def, rule_format]
  have "notificationJobId i' \<in> fst ` set (queue_jobs ops q1) \<longleftrightarrow> notificationJobId i' = notificationJobId i"
    using taken [OF add(1)] assms(8) by (force split: if_splits)
  then show ?thesis
    using taken [OF add(2)] notificationJobId_inject [OF assms(5,4)] by auto
qed

theorem second_notification_lost_witness:
  "\<exists>q1 q2. NotificationQueueListener_on list_queue (CommentCreated ''c1'' ''t1'' ''u1'' None (Some ''u2'')) [] = (Inr (), q1) \<and>
     NotificationQueueListener_on list_queue (CommentCreated ''c2'' ''t1'' ''u1'' None (Some ''u2'')) q1 = (Inr (), q2) \<and>
     queue_jobs list_queue q2 = queue_jobs list_queue q1"
proof -
  let ?i = "notify ''u2'' COMMENT_ADDED ''New comment on your task'' ''task'' ''t1''"
  have n: "notification_for (CommentCreated c ''t1'' ''u1'' None (Some ''u2'')) = Some ?i" for c
    by (simp add: mapCommentCreated_def)
  have on: "NotificationQueueListener_on list_queue (CommentCreated c ''t1'' ''u1'' None (Some ''u2'')) q =
      (Inr (), if notificationJobId ?i \<in> fst ` set q then q else q @ [(notificationJobId ?i, ?i)])" for c q
    by (simp only: NotificationQueueListener_on_def NotificationQueueListener_enqueue_def n option.case)
      (simp add: list_queue_def)
  obtain q1 q2 where q: "NotificationQueueListener_on list_queue (CommentCreated ''c1'' ''t1'' ''u1'' None (Some ''u2'')) [] = (Inr (), q1)"
      "NotificationQueueListener_on list_queue (CommentCreated ''c2'' ''t1'' ''u1'' None (Some ''u2'')) q1 = (Inr (), q2)"
    unfolding on by blast
  have "plain_input ?i" by (simp add: plain_input_def notify_def)
  from second_notification_lost [OF list_queue_dedupes n n this this q] q show ?thesis
    by (auto simp: list_queue_def)
qed

end
