(* ===== verification/Activity.thy ===== *)
theory Activity
  imports Comments
begin

text \<open>
  The audit trail of a task (\<open>src/modules/activity\<close>): \<open>ActivityService\<close>, which appends and lists
  entries, and \<open>ActivityListener\<close>, which turns domain events into entries.  Metadata is the list of
  an object's properties in the order they are written.
\<close>

section \<open>The service\<close>

definition ActivityService_record ::
    "uuid \<Rightarrow> uuid option \<Rightarrow> activity_action \<Rightarrow> (string \<times> string) list \<Rightarrow> uuid \<Rightarrow> pg_time \<Rightarrow> (app, unit) svc" where
  "ActivityService_record taskId actorId action metadata aid now =
     writes (insert_activity \<lparr>a_id = aid, a_taskId = taskId, a_actorId = actorId, a_action = action,
       a_metadata = metadata, a_createdAt = now\<rparr>)"

definition activity_scope :: "uuid \<Rightarrow> app \<Rightarrow> task_activity list" where
  "activity_scope taskId s = filter (\<lambda>a. a_taskId a = taskId) (activities s)"

definition ActivityService_listForTask ::
    "casts \<Rightarrow> uuid \<Rightarrow> uuid \<Rightarrow> uuid \<Rightarrow> nat option \<Rightarrow> string option \<Rightarrow> (app, task_activity page) svc" where
  "ActivityService_listForTask cs workspaceId projectId taskId lim cursor =
     bindM (TasksService_findOneOrFail workspaceId projectId taskId) (\<lambda>_.
     reads (\<lambda>s. keyset_page cs a_createdAt a_id lim cursor (activity_scope taskId s)))"

section \<open>The listener\<close>

definition ActivityListener_onTaskCreated :: "uuid \<Rightarrow> uuid \<Rightarrow> uuid \<Rightarrow> uuid \<Rightarrow> pg_time \<Rightarrow> (app, unit) svc" where
  "ActivityListener_onTaskCreated taskId projectId actorId =
     ActivityService_record taskId (Some actorId) CREATED [(''projectId'', projectId)]"

definition ActivityListener_onTaskAssigned :: "uuid \<Rightarrow> uuid \<Rightarrow> uuid \<Rightarrow> uuid \<Rightarrow> pg_time \<Rightarrow> (app, unit) svc" where
  "ActivityListener_onTaskAssigned taskId assigneeId actorId =
     ActivityService_record taskId (Some actorId) ASSIGNED [(''assigneeId'', assigneeId)]"

definition ActivityListener_onTaskStatusChanged ::
    "uuid \<Rightarrow> task_status \<Rightarrow> task_status \<Rightarrow> uuid \<Rightarrow> uuid \<Rightarrow> pg_time \<Rightarrow> (app, unit) svc" where
  "ActivityListener_onTaskStatusChanged taskId old new actorId =
     ActivityService_record taskId (Some actorId) STATUS_CHANGED
       [(''from'', status_text old), (''to'', status_text new)]"

definition ActivityListener_onTaskCompleted :: "uuid \<Rightarrow> uuid \<Rightarrow> uuid \<Rightarrow> pg_time \<Rightarrow> (app, unit) svc" where
  "ActivityListener_onTaskCompleted taskId actorId =
     ActivityService_record taskId (Some actorId) COMPLETED []"

definition ActivityListener_onCommentCreated ::
    "uuid \<Rightarrow> uuid \<Rightarrow> uuid \<Rightarrow> uuid option \<Rightarrow> uuid \<Rightarrow> pg_time \<Rightarrow> (app, unit) svc" where
  "ActivityListener_onCommentCreated commentId taskId authorId parentCommentId =
     (let action = (if truthy parentCommentId then REPLIED else COMMENTED)
      in ActivityService_record taskId (Some authorId) action
           ([(''commentId'', commentId)] @
            (if truthy parentCommentId then [(''parentCommentId'', the parentCommentId)] else [])))"

text \<open>Which handler each event has; a reply and a new notification have none.\<close>

fun ActivityListener_on :: "domain_event \<Rightarrow> uuid \<Rightarrow> pg_time \<Rightarrow> (app, unit) svc" where
  "ActivityListener_on (TaskCreated t p u) = ActivityListener_onTaskCreated t p u"
| "ActivityListener_on (TaskAssigned t a u) = ActivityListener_onTaskAssigned t a u"
| "ActivityListener_on (TaskStatusChanged t old new u) = ActivityListener_onTaskStatusChanged t old new u"
| "ActivityListener_on (TaskCompleted t u c) = ActivityListener_onTaskCompleted t u"
| "ActivityListener_on (CommentCreated c t a p u) = ActivityListener_onCommentCreated c t a p"
| "ActivityListener_on (CommentReplied c t p pa a) = (\<lambda>aid now. ret ())"
| "ActivityListener_on (NotificationCreated n) = (\<lambda>aid now. ret ())"

lemmas activity_handlers =
  ActivityListener_onTaskCreated_def ActivityListener_onTaskAssigned_def
  ActivityListener_onTaskStatusChanged_def ActivityListener_onTaskCompleted_def
  ActivityListener_onCommentCreated_def

section \<open>Lemmas\<close>

lemma ActivityService_record_keeps: "keeps app_ok (ActivityService_record t u act m aid now)"
  unfolding ActivityService_record_def by (rule keeps_writes) (rule insert_activity_ok)

lemma ActivityListener_on_keeps: "keeps app_ok (ActivityListener_on e aid now)"
  by (cases e) (simp_all add: activity_handlers Let_def ActivityService_record_keeps keeps_ret)

lemma ActivityService_listForTask_keeps: "keeps app_ok (ActivityService_listForTask cs w p t lim c)"
  unfolding ActivityService_listForTask_def by (intro keeps_intros svc_ok)

text \<open>What an entry says of the event it records: action, actor and details.\<close>

fun entry_of :: "domain_event \<Rightarrow> (activity_action \<times> uuid \<times> (string \<times> string) list) option" where
  "entry_of (TaskCreated t p u) = Some (CREATED, u, [(''projectId'', p)])"
| "entry_of (TaskAssigned t a u) = Some (ASSIGNED, u, [(''assigneeId'', a)])"
| "entry_of (TaskStatusChanged t old new u) =
     Some (STATUS_CHANGED, u, [(''from'', status_text old), (''to'', status_text new)])"
| "entry_of (TaskCompleted t u c) = Some (COMPLETED, u, [])"
| "entry_of (CommentCreated c t a p u) =
     (if truthy p then Some (REPLIED, a, [(''commentId'', c), (''parentCommentId'', the p)])
      else Some (COMMENTED, a, [(''commentId'', c)]))"
| "entry_of (CommentReplied c t p pa a) = None"
| "entry_of (NotificationCreated n) = None"

lemma ActivityListener_on_entry:
  "ActivityListener_on e aid now =
     (case entry_of e of
        None \<Rightarrow> ret ()
      | Some (act, u, m) \<Rightarrow> ActivityService_record (ev_task e) (Some u) act m aid now)"
  by (cases e) (simp_all add: activity_handlers Let_def)

lemma ActivityService_record_cases:
  "ActivityService_record t u act m aid now s = (r, s') \<Longrightarrow>
     (case r of
        Inl e \<Rightarrow> s' = s
      | Inr _ \<Rightarrow> s' = s\<lparr>activities := activities s @
          [\<lparr>a_id = aid, a_taskId = t, a_actorId = u, a_action = act, a_metadata = m, a_createdAt = now\<rparr>]\<rparr>)"
  by (cases r) (auto simp: ActivityService_record_def insert_activity_def)

interpretation activity_feed: paged_feed cs a_createdAt a_id app_ok
    "\<lambda>s (w, p, t). task_denied w p t s"
    "\<lambda>s (w, p, t). activity_scope t s"
    "\<lambda>s (w, p, t) lim c. fst (ActivityService_listForTask cs w p t lim c s)"
  for cs
proof
  fix s :: app and q
  assume "app_ok s"
  then show "distinct (map a_id (case q of (w, p, t) \<Rightarrow> activity_scope t s))"
    by (auto simp: activity_scope_def app_ok_def activities_ok_def distinct_map_filterI split: prod.split)
qed (auto simp: ActivityService_listForTask_def TasksService_findOneOrFail_denied split: prod.splits)

end
