(* ===== verification/Reminders.thy ===== *)
theory Reminders
  imports Notifications
begin

text \<open>
  Reminders of due tasks (\<open>src/modules/reminders\<close>): the scan that \<open>RemindersService\<close> makes every five
  minutes, the delivery of a reminder in the process or by the worker of a job queue, and the
  scheduler's guard.  The state is the pair of the queue and the database; the queue is a parameter
  as in \<open>Notifications\<close>, and None when the process has none (\<open>QUEUE_ENABLED\<close> is not set).

  The ids the database gives to what a scan inserts are drawn from a supply, a list of pairs of a
  reminder's id and a notification's; a scan needs a pair for each task it reminds of.
\<close>

section \<open>Operations\<close>

definition DUE_SOON_WINDOW_MS :: js_date where
  "DUE_SOON_WINDOW_MS = 24 * 60 * 60 * 1000"

record scan_result =
  scannedDueSoon :: nat
  scannedOverdue :: nat
  created :: nat
  delivered :: nat
  enqueued :: nat

record outcome =
  o_created :: bool
  o_delivered :: bool
  o_enqueued :: bool

definition RemindersService_openTasks :: "app \<Rightarrow> task list" where
  "RemindersService_openTasks s =
     filter (\<lambda>t. t_dueDate t \<noteq> None \<and> t_status t \<notin> {DONE, CANCELLED}) (tasks s)"

definition due_soon :: "js_date \<Rightarrow> app \<Rightarrow> task list" where
  "due_soon now s = filter (\<lambda>t. now < the (t_dueDate t) \<and> the (t_dueDate t) \<le> now + DUE_SOON_WINDOW_MS)
     (RemindersService_openTasks s)"

definition overdue :: "js_date \<Rightarrow> app \<Rightarrow> task list" where
  "overdue now s = filter (\<lambda>t. the (t_dueDate t) \<le> now) (RemindersService_openTasks s)"

definition RemindersService_createReminder ::
    "uuid \<Rightarrow> reminder_type \<Rightarrow> js_date \<Rightarrow> uuid \<Rightarrow> pg_time \<Rightarrow> (app, uuid option) svc" where
  "RemindersService_createReminder taskId ty scheduledFor rid pg = (\<lambda>s.
     case insert_reminder_or_ignore
            \<lparr>r_id = rid, r_taskId = taskId, r_type = ty, r_scheduledFor = scheduledFor, r_status = REM_PENDING,
             r_attempts = 0, r_sentAt = None, r_createdAt = pg\<rparr> s of
       Inl e \<Rightarrow> (Inl (QueryFailed e), s)
     | Inr (i, s') \<Rightarrow> (Inr i, s'))"

definition RemindersService_notifyAssignee ::
    "uuid \<Rightarrow> uuid \<Rightarrow> reminder_type \<Rightarrow> uuid \<Rightarrow> pg_time \<Rightarrow> (app, notification) svc" where
  "RemindersService_notifyAssignee taskId assigneeId ty nid pg =
     NotificationsService_create
       (notify assigneeId (if ty = DUE_SOON then TASK_DUE_SOON else TASK_OVERDUE)
          (if ty = DUE_SOON then ''A task is due soon'' else ''A task is overdue'') ''task'' taskId) nid pg"

definition update_reminder :: "uuid \<Rightarrow> (reminder \<Rightarrow> reminder) \<Rightarrow> (app, unit) svc" where
  "update_reminder i f =
     modifies (\<lambda>s. s\<lparr>reminders := update_where (\<lambda>r. r_id r = i) f (reminders s)\<rparr>)"

definition on_app :: "('s, 'a) svc \<Rightarrow> ('q \<times> 's, 'a) svc" where
  "on_app m = (\<lambda>(q, s). case m s of (r, s') \<Rightarrow> (r, (q, s')))"

definition RemindersService_dispatch ::
    "('q, uuid) queue_ops option \<Rightarrow> task \<Rightarrow> reminder_type \<Rightarrow> uuid \<times> uuid \<Rightarrow> js_date \<Rightarrow> pg_time \<Rightarrow>
     ('q \<times> app, outcome) svc" where
  "RemindersService_dispatch queue task ty ids date pg =
     bindM (on_app (RemindersService_createReminder (t_id task) ty (the (t_dueDate task)) (fst ids) pg))
       (\<lambda>reminderId.
     if \<not> truthy reminderId then ret \<lparr>o_created = False, o_delivered = False, o_enqueued = False\<rparr>
     else (case queue of
       Some ops \<Rightarrow> (\<lambda>(q, s). case queue_add ops q (the reminderId) (the reminderId) of
           None \<Rightarrow> (Inl (JsError ''queue''), (q, s))
         | Some q' \<Rightarrow> (Inr \<lparr>o_created = True, o_delivered = False, o_enqueued = True\<rparr>, (q', s)))
     | None \<Rightarrow>
         bindM (on_app (if truthy (t_assigneeId task)
                        then bindM (RemindersService_notifyAssignee (t_id task) (the (t_assigneeId task)) ty (snd ids) pg)
                               (\<lambda>_. ret ())
                        else ret ())) (\<lambda>_.
         bindM (on_app (update_reminder (the reminderId) (\<lambda>r. r\<lparr>r_status := REM_SENT, r_sentAt := Some date\<rparr>))) (\<lambda>_.
         ret \<lparr>o_created = True, o_delivered = True, o_enqueued = False\<rparr>))))"

definition tally :: "outcome \<Rightarrow> scan_result \<Rightarrow> scan_result" where
  "tally o' r = r\<lparr>created := created r + (if o_created o' then 1 else 0),
     delivered := delivered r + (if o_delivered o' then 1 else 0),
     enqueued := enqueued r + (if o_enqueued o' then 1 else 0)\<rparr>"

text \<open>The loops of a scan: one reminder after the other; the first that throws ends the scan.\<close>

fun dispatch_each ::
    "('q, uuid) queue_ops option \<Rightarrow> (task \<times> reminder_type \<times> uuid \<times> uuid) list \<Rightarrow> js_date \<Rightarrow> pg_time \<Rightarrow> scan_result \<Rightarrow>
     ('q \<times> app, scan_result) svc" where
  "dispatch_each queue [] date pg r = ret r"
| "dispatch_each queue ((t, ty, ids) # ts) date pg r =
     bindM (RemindersService_dispatch queue t ty ids date pg) (\<lambda>o'. dispatch_each queue ts date pg (tally o' r))"

definition scan_list :: "task list \<Rightarrow> task list \<Rightarrow> (uuid \<times> uuid) list \<Rightarrow> (task \<times> reminder_type \<times> uuid \<times> uuid) list" where
  "scan_list soon over ids =
     zip (soon @ over) (zip (replicate (length soon) DUE_SOON @ replicate (length over) OVERDUE) ids)"

definition RemindersService_scan ::
    "('q, uuid) queue_ops option \<Rightarrow> js_date \<Rightarrow> (uuid \<times> uuid) list \<Rightarrow> pg_time \<Rightarrow> ('q \<times> app, scan_result) svc" where
  "RemindersService_scan queue now ids pg = (\<lambda>(q, s).
     let dueSoon = due_soon now s; over = overdue now s in
     dispatch_each queue (scan_list dueSoon over ids) now pg
       \<lparr>scannedDueSoon = length dueSoon, scannedOverdue = length over, created = 0, delivered = 0, enqueued = 0\<rparr>
       (q, s))"

definition RemindersService_deliverReminder :: "uuid \<Rightarrow> uuid \<Rightarrow> js_date \<Rightarrow> pg_time \<Rightarrow> (app, unit) svc" where
  "RemindersService_deliverReminder reminderId nid date pg =
     bindM (reads (\<lambda>s. Inr (List.find (\<lambda>r. r_id r = reminderId) (reminders s)))) (\<lambda>found.
     case found of
       None \<Rightarrow> ret ()
     | Some reminder \<Rightarrow>
         if r_status reminder = REM_SENT then ret ()
         else
           bindM (reads (\<lambda>s. Inr (List.find (\<lambda>t. t_id t = r_taskId reminder) (tasks s)))) (\<lambda>task.
           bindM (case task of
                    Some t \<Rightarrow> if truthy (t_assigneeId t)
                      then bindM (RemindersService_notifyAssignee (t_id t) (the (t_assigneeId t)) (r_type reminder) nid pg)
                             (\<lambda>_. ret ())
                      else ret ()
                  | None \<Rightarrow> ret ()) (\<lambda>_.
           update_reminder (r_id reminder)
             (\<lambda>r. r\<lparr>r_status := REM_SENT, r_sentAt := Some date, r_attempts := r_attempts reminder + 1\<rparr>))))"

definition RemindersService_markFailed :: "uuid \<Rightarrow> nat \<Rightarrow> (app, unit) svc" where
  "RemindersService_markFailed reminderId attempts =
     update_reminder reminderId (\<lambda>r. r\<lparr>r_status := REM_FAILED, r_attempts := attempts\<rparr>)"

text \<open>The worker: a job's delivery, and what happens when an attempt failed.\<close>

record reminder_job =
  j_reminderId :: uuid
  j_attempts :: "nat option"
  j_attemptsMade :: nat

definition ReminderProcessor_process :: "reminder_job \<Rightarrow> uuid \<Rightarrow> js_date \<Rightarrow> pg_time \<Rightarrow> (app, unit) svc" where
  "ReminderProcessor_process job nid date pg = RemindersService_deliverReminder (j_reminderId job) nid date pg"

definition ReminderProcessor_onFailed :: "reminder_job \<Rightarrow> (app, unit) svc" where
  "ReminderProcessor_onFailed job =
     (let maxAttempts = (case j_attempts job of None \<Rightarrow> 1 | Some n \<Rightarrow> n)
      in if maxAttempts \<le> j_attemptsMade job
         then RemindersService_markFailed (j_reminderId job) (j_attemptsMade job) else ret ())"

text \<open>
  The cron handler: \<open>running\<close> is set for as long as a scan takes, so it is a step that starts a scan
  and one that ends it, whatever came of it.
\<close>

definition SchedulerService_start :: "bool \<Rightarrow> bool \<times> bool" where
  "SchedulerService_start running = (if running then (False, running) else (True, True))"

definition SchedulerService_handleReminderScan ::
    "('q, uuid) queue_ops option \<Rightarrow> js_date \<Rightarrow> (uuid \<times> uuid) list \<Rightarrow> pg_time \<Rightarrow> bool \<times> 'q \<times> app \<Rightarrow> bool \<times> 'q \<times> app" where
  "SchedulerService_handleReminderScan queue now ids pg = (\<lambda>(running, qs).
     case SchedulerService_start running of
       (False, r) \<Rightarrow> (r, qs)
     | (True, r) \<Rightarrow> (False, snd (RemindersService_scan queue now ids pg qs)))"

section \<open>The invariant of the data\<close>

lemma on_app_iff: "on_app m (q, s) = (r, qs') \<longleftrightarrow> (\<exists>s'. m s = (r, s') \<and> qs' = (q, s'))"
  by (auto simp: on_app_def split: prod.splits)

lemma keeps_on_app: "keeps I m \<Longrightarrow> keeps (\<lambda>qs. I (snd qs)) (on_app m)"
  by (auto simp: keeps_def on_app_def split: prod.splits)

lemma update_reminder_ok:
  assumes ok: "app_ok s"
    and f: "\<And>r. r_id (f r) = r_id r" "\<And>r. reminder_key (f r) = reminder_key r" "\<And>r. sent_dated (f r)"
  shows "app_ok (s\<lparr>reminders := update_where P f (reminders s)\<rparr>)"
proof -
  let ?rs = "update_where P f (reminders s)"
  have old: "reminders_ok (tasks s) (reminders s)" using ok by (simp add: app_ok_def)
  have "distinct (map r_id ?rs)" "distinct (map reminder_key ?rs)"
    using old f by (simp_all add: reminders_ok_def)
  moreover have "r_taskId (f r) = r_taskId r" for r using f(2) [of r] by (simp add: reminder_key_def)
  ultimately have "reminders_ok (tasks s) ?rs"
    using old f(3) by (auto simp: reminders_ok_def set_update_where)
  then show ?thesis using ok by (simp add: app_ok_def)
qed

lemma update_reminder_keeps:
  "(\<And>r. r_id (f r) = r_id r) \<Longrightarrow> (\<And>r. reminder_key (f r) = reminder_key r) \<Longrightarrow> (\<And>r. sent_dated (f r)) \<Longrightarrow>
    keeps app_ok (update_reminder i f)"
  unfolding update_reminder_def by (intro keeps_modifies update_reminder_ok)

lemma RemindersService_createReminder_keeps: "keeps app_ok (RemindersService_createReminder t ty d rid pg)"
  by (rule keepsI)
    (auto simp: RemindersService_createReminder_def sent_dated_def split: sum.splits prod.splits
      intro: insert_reminder_ok)

lemma RemindersService_notifyAssignee_keeps: "keeps app_ok (RemindersService_notifyAssignee t a ty nid pg)"
  unfolding RemindersService_notifyAssignee_def by (rule NotificationsService_create_keeps)

lemma sent_keeps:
  "keeps app_ok (update_reminder i (\<lambda>r. r\<lparr>r_status := REM_SENT, r_sentAt := Some d\<rparr>))"
  "keeps app_ok (update_reminder i (\<lambda>r. r\<lparr>r_status := REM_SENT, r_sentAt := Some d, r_attempts := k\<rparr>))"
  "keeps app_ok (update_reminder i (\<lambda>r. r\<lparr>r_status := REM_FAILED, r_attempts := k\<rparr>))"
  by (rule update_reminder_keeps; simp add: reminder_key_def sent_dated_def)+

lemma RemindersService_dispatch_keeps:
  "keeps (\<lambda>qs. app_ok (snd qs)) (RemindersService_dispatch queue t ty ids d pg)"
  unfolding RemindersService_dispatch_def
proof (rule keeps_bindM [OF keeps_on_app [OF RemindersService_createReminder_keeps]], rule keeps_if [OF keeps_ret])
  fix i
  show "keeps (\<lambda>qs. app_ok (snd qs)) (case queue of
       Some ops \<Rightarrow> (\<lambda>(q, s). case queue_add ops q (the i) (the i) of
           None \<Rightarrow> (Inl (JsError ''queue''), (q, s))
         | Some q' \<Rightarrow> (Inr \<lparr>o_created = True, o_delivered = False, o_enqueued = True\<rparr>, (q', s)))
     | None \<Rightarrow>
         bindM (on_app (if truthy (t_assigneeId t)
                        then bindM (RemindersService_notifyAssignee (t_id t) (the (t_assigneeId t)) ty (snd ids) pg)
                               (\<lambda>_. ret ())
                        else ret ())) (\<lambda>_.
         bindM (on_app (update_reminder (the i) (\<lambda>r. r\<lparr>r_status := REM_SENT, r_sentAt := Some d\<rparr>))) (\<lambda>_.
         ret \<lparr>o_created = True, o_delivered = True, o_enqueued = False\<rparr>)))"
  proof (cases queue)
    case None
    then show ?thesis
      by (auto intro!: keeps_intros keeps_on_app RemindersService_notifyAssignee_keeps sent_keeps)
  qed (auto simp: keeps_def split: option.splits)
qed

lemma dispatch_each_keeps: "keeps (\<lambda>qs. app_ok (snd qs)) (dispatch_each queue xs d pg r)"
  by (induction queue xs d pg r rule: dispatch_each.induct)
    (auto intro!: keeps_intros RemindersService_dispatch_keeps)

lemma RemindersService_scan_keeps: "keeps (\<lambda>qs. app_ok (snd qs)) (RemindersService_scan queue now ids pg)"
  by (rule keepsI)
    (auto simp: RemindersService_scan_def Let_def dest: keepsD [OF dispatch_each_keeps])

lemma RemindersService_deliverReminder_keeps: "keeps app_ok (RemindersService_deliverReminder i nid d pg)"
  unfolding RemindersService_deliverReminder_def
  by (rule keeps_bindM [OF keeps_reads])
    (auto split: option.splits intro!: keeps_intros RemindersService_notifyAssignee_keeps sent_keeps)

lemma ReminderProcessor_onFailed_keeps: "keeps app_ok (ReminderProcessor_onFailed job)"
  unfolding ReminderProcessor_onFailed_def RemindersService_markFailed_def Let_def
  by (intro keeps_intros sent_keeps)

section \<open>What a scan does\<close>

definition reminded :: "app \<Rightarrow> uuid \<times> reminder_type \<times> js_date \<Rightarrow> bool" where
  "reminded s k \<longleftrightarrow> k \<in> set (map reminder_key (reminders s))"

type_synonym dispatch_item = "task \<times> reminder_type \<times> uuid \<times> uuid"

definition item_key :: "dispatch_item \<Rightarrow> uuid \<times> reminder_type \<times> js_date" where
  "item_key x = (case x of (t, ty, ids) \<Rightarrow> (t_id t, ty, the (t_dueDate t)))"

definition n_key :: "notification \<Rightarrow> uuid \<times> notification_type \<times> uuid option" where
  "n_key n = (n_recipientId n, n_type n, n_entityId n)"

text \<open>Whom a new reminder notifies, and of what.\<close>

definition item_notice :: "dispatch_item \<Rightarrow> (uuid \<times> notification_type \<times> uuid option) list" where
  "item_notice x = (case x of (t, ty, ids) \<Rightarrow>
     if truthy (t_assigneeId t)
     then [(the (t_assigneeId t), if ty = DUE_SOON then TASK_DUE_SOON else TASK_OVERDUE, Some (t_id t))] else [])"

text \<open>The ids of the supply that a run of items uses are new and not empty.\<close>

definition supply_ok :: "app \<Rightarrow> dispatch_item list \<Rightarrow> bool" where
  "supply_ok s xs \<longleftrightarrow> distinct (map (\<lambda>(t, ty, ids). fst ids) xs) \<and>
     (\<forall>(t, ty, ids) \<in> set xs. fst ids \<noteq> [] \<and> fst ids \<notin> set (map r_id (reminders s)))"

lemma reminded_exists:
  "reminded s (t, ty, d) \<longleftrightarrow>
    exists_row (\<lambda>x. r_taskId x = t \<and> r_type x = ty \<and> r_scheduledFor x = d) (reminders s)"
  by (auto simp: reminded_def exists_row_def reminder_key_def)

lemma dispatch_known:
  "reminded s (item_key (t, ty, ids)) \<Longrightarrow>
    RemindersService_dispatch queue t ty ids d pg (q, s) =
      (Inr \<lparr>o_created = False, o_delivered = False, o_enqueued = False\<rparr>, (q, s))"
  by (simp add: item_key_def reminded_exists RemindersService_dispatch_def RemindersService_createReminder_def
      insert_reminder_or_ignore_def bindM_def on_app_def ret_def)

lemma createReminder_new:
  assumes "\<not> reminded s (t, ty, due)" and "\<not> has_id r_id (reminders s) rid"
    and "RemindersService_createReminder t ty due rid pg s = (Inr i, s1)"
  shows "i = Some rid \<and> s1 = s\<lparr>reminders := reminders s @
    [\<lparr>r_id = rid, r_taskId = t, r_type = ty, r_scheduledFor = due, r_status = REM_PENDING, r_attempts = 0,
      r_sentAt = None, r_createdAt = pg\<rparr>]\<rparr>"
  using assms
  by (auto simp: reminded_exists RemindersService_createReminder_def insert_reminder_or_ignore_def
      split: sum.splits)

lemma notice_runs:
  assumes "(if truthy (t_assigneeId t)
     then bindM (RemindersService_notifyAssignee (t_id t) (the (t_assigneeId t)) ty (snd ids) pg) (\<lambda>_. ret ())
     else ret ()) s1 = (Inr (), s2)"
  shows "tasks s2 = tasks s1 \<and> reminders s2 = reminders s1 \<and>
    map n_key (notifications s2) = map n_key (notifications s1) @ item_notice (t, ty, ids)"
proof (cases "truthy (t_assigneeId t)")
  case True
  with assms obtain n where run_n: "RemindersService_notifyAssignee (t_id t) (the (t_assigneeId t)) ty (snd ids) pg s1 = (Inr n, s2)"
    by (auto simp: bindM_Inr_iff)
  from NotificationsService_create_cases [OF this [unfolded RemindersService_notifyAssignee_def]] True
  show ?thesis by (auto simp: item_notice_def n_key_def notify_def)
next
  case False
  with assms show ?thesis by (simp add: item_notice_def)
qed

lemma dispatch_new:
  assumes new: "\<not> reminded s (item_key (t, ty, ids))" "fst ids \<noteq> []" "fst ids \<notin> set (map r_id (reminders s))"
    and run: "RemindersService_dispatch queue t ty ids d pg (q, s) = (Inr o', (q', s'))"
  shows "tasks s' = tasks s" and "map reminder_key (reminders s') = map reminder_key (reminders s) @ [item_key (t, ty, ids)]"
    and "map r_id (reminders s') = map r_id (reminders s) @ [fst ids]"
    and "o' = \<lparr>o_created = True, o_delivered = (queue = None), o_enqueued = (queue \<noteq> None)\<rparr>"
    and "map n_key (notifications s') = map n_key (notifications s) @
      (if queue = None then item_notice (t, ty, ids) else [])"
proof -
  let ?r = "\<lparr>r_id = fst ids, r_taskId = t_id t, r_type = ty, r_scheduledFor = the (t_dueDate t),
      r_status = REM_PENDING, r_attempts = 0, r_sentAt = None, r_createdAt = pg\<rparr>"
  let ?s1 = "s\<lparr>reminders := reminders s @ [?r]\<rparr>"
  from new(2) have ne: "truthy (Some (fst ids))" by simp
  have mk: "RemindersService_createReminder (t_id t) ty (the (t_dueDate t)) (fst ids) pg s = (Inr i, s1) \<Longrightarrow>
      i = Some (fst ids) \<and> s1 = ?s1" for i s1
    using createReminder_new [of s "t_id t" ty "the (t_dueDate t)" "fst ids" pg i s1] new
    by (simp add: item_key_def has_id_def)
  have "tasks s' = tasks s \<and> map reminder_key (reminders s') = map reminder_key (reminders s) @ [item_key (t, ty, ids)] \<and>
      map r_id (reminders s') = map r_id (reminders s) @ [fst ids] \<and>
      o' = \<lparr>o_created = True, o_delivered = (queue = None), o_enqueued = (queue \<noteq> None)\<rparr> \<and>
      map n_key (notifications s') = map n_key (notifications s) @
        (if queue = None then item_notice (t, ty, ids) else [])"
  proof (cases queue)
    case (Some ops)
    with run ne show ?thesis
      by (auto simp: RemindersService_dispatch_def bindM_Inr_iff on_app_iff item_key_def reminder_key_def
          dest!: mk split: option.splits if_splits)
  next
    case None
    let ?sent = "update_where (\<lambda>r. r_id r = fst ids) (\<lambda>r. r\<lparr>r_status := REM_SENT, r_sentAt := Some d\<rparr>)"
    have keys: "map reminder_key (?sent (reminders s @ [?r])) = map reminder_key (reminders s) @ [item_key (t, ty, ids)]"
      "map r_id (?sent (reminders s @ [?r])) = map r_id (reminders s) @ [fst ids]"
      by (simp_all add: item_key_def reminder_key_def update_where_def)
    from None run ne obtain s2 where
      s': "s' = s2\<lparr>reminders := ?sent (reminders s2)\<rparr>"
      and o': "o' = \<lparr>o_created = True, o_delivered = True, o_enqueued = False\<rparr>"
      and s2: "(if truthy (t_assigneeId t)
               then bindM (RemindersService_notifyAssignee (t_id t) (the (t_assigneeId t)) ty (snd ids) pg) (\<lambda>_. ret ())
               else ret ()) ?s1 = (Inr (), s2)"
      by (auto simp: RemindersService_dispatch_def bindM_Inr_iff on_app_iff update_reminder_def
          dest!: mk split: option.splits)
    from notice_runs [OF s2] have "tasks s2 = tasks s \<and> reminders s2 = reminders s @ [?r] \<and>
        map n_key (notifications s2) = map n_key (notifications s) @ item_notice (t, ty, ids)"
      by simp
    with s' o' keys None show ?thesis by simp
  qed
  then show "tasks s' = tasks s" and "map reminder_key (reminders s') = map reminder_key (reminders s) @ [item_key (t, ty, ids)]"
    and "map r_id (reminders s') = map r_id (reminders s) @ [fst ids]"
    and "o' = \<lparr>o_created = True, o_delivered = (queue = None), o_enqueued = (queue \<noteq> None)\<rparr>"
    and "map n_key (notifications s') = map n_key (notifications s) @
      (if queue = None then item_notice (t, ty, ids) else [])" by blast+
qed

text \<open>The items of a run that are new: their reminders are made, in order, the others are left alone.\<close>

definition new_items :: "app \<Rightarrow> dispatch_item list \<Rightarrow> dispatch_item list" where
  "new_items s xs = filter (\<lambda>x. \<not> reminded s (item_key x)) xs"

lemma dispatch_each_known:
  "new_items s xs = [] \<Longrightarrow> dispatch_each queue xs d pg r (q, s) = (Inr r, (q, s))"
proof (induction xs arbitrary: r)
  case (Cons x xs)
  obtain t ty ids where x: "x = (t, ty, ids)" by (cases x)
  from Cons.prems have "reminded s (item_key (t, ty, ids))" "new_items s xs = []"
    by (auto simp: new_items_def x split: if_splits)
  with Cons.IH show ?case by (simp add: x bindM_def dispatch_known tally_def)
qed (simp add: ret_def)

text \<open>The rest of a run after its first item has been new.\<close>

lemma supply_used:
  assumes "supply_ok s ((t, ty, rid, nid) # xs)"
    and "set (map r_id (reminders s1)) = insert rid (set (map r_id (reminders s)))"
  shows "supply_ok s1 xs"
proof -
  have others: "rid \<notin> (\<lambda>(t, ty, ids). fst ids) ` set xs" "distinct (map (\<lambda>(t, ty, ids). fst ids) xs)"
    and old: "\<forall>y \<in> set xs. case y of (t, ty, ids) \<Rightarrow> fst ids \<noteq> [] \<and> fst ids \<notin> set (map r_id (reminders s))"
    using assms(1) by (simp_all add: supply_ok_def)
  show ?thesis
    unfolding supply_ok_def assms(2)
  proof (intro conjI ballI others(2))
    fix y assume y: "y \<in> set xs"
    obtain t' ty' ids' where eq: "y = (t', ty', ids')" by (cases y)
    have "fst ids' \<noteq> rid" using others(1) y by (force simp: eq)
    with old y eq show "case y of (t, ty, ids) \<Rightarrow> fst ids \<noteq> [] \<and> fst ids \<notin> insert rid (set (map r_id (reminders s)))"
      by fastforce
  qed
qed

lemma new_items_used:
  assumes "distinct (map item_key (x # xs))" and "\<And>k. reminded s1 k \<longleftrightarrow> reminded s k \<or> k = item_key x"
  shows "new_items s1 xs = new_items s xs"
  unfolding new_items_def
proof (rule filter_cong [OF refl])
  fix y assume "y \<in> set xs"
  then have "item_key y \<in> item_key ` set xs" by (rule imageI)
  with assms(1) have "item_key y \<noteq> item_key x" by auto
  then show "(\<not> reminded s1 (item_key y)) = (\<not> reminded s (item_key y))" by (simp add: assms(2))
qed

lemma dispatch_each_runs:
  assumes "distinct (map item_key xs)" and "supply_ok s xs"
    and "dispatch_each queue xs d pg r0 (q, s) = (Inr r, (q', s'))"
  shows "tasks s' = tasks s \<and>
    map reminder_key (reminders s') = map reminder_key (reminders s) @ map item_key (new_items s xs) \<and>
    map n_key (notifications s') = map n_key (notifications s) @
      (if queue = None then concat (map item_notice (new_items s xs)) else []) \<and>
    created r = created r0 + length (new_items s xs) \<and>
    scannedDueSoon r = scannedDueSoon r0 \<and> scannedOverdue r = scannedOverdue r0"
  using assms
proof (induction xs arbitrary: q s r0)
  case Nil
  then show ?case by (simp add: new_items_def)
next
  case (Cons x xs)
  obtain t ty rid nid where x: "x = (t, ty, rid, nid)" by (cases x)
  from Cons.prems(3) obtain o1 q1 s1 where
    run: "RemindersService_dispatch queue t ty (rid, nid) d pg (q, s) = (Inr o1, (q1, s1))"
    and rest: "dispatch_each queue xs d pg (tally o1 r0) (q1, s1) = (Inr r, (q', s'))"
    by (auto simp: x bindM_Inr_iff)
  show ?case
  proof (cases "reminded s (item_key x)")
    case True
    with run have "o1 = \<lparr>o_created = False, o_delivered = False, o_enqueued = False\<rparr>" "q1 = q" "s1 = s"
      by (auto simp: x dispatch_known)
    moreover have "supply_ok s xs" using Cons.prems(2) by (auto simp: supply_ok_def)
    ultimately show ?thesis
      using Cons.IH [of s "tally o1 r0" q] Cons.prems(1) rest True by (simp add: new_items_def tally_def)
  next
    case False
    have ids: "rid \<noteq> []" "rid \<notin> set (map r_id (reminders s))"
      using Cons.prems(2) by (auto simp: supply_ok_def x)
    note d = dispatch_new [OF False [unfolded x] _ _ run, unfolded fst_conv, OF ids]
    have grown: "reminded s1 k \<longleftrightarrow> reminded s k \<or> k = item_key x" for k
      by (simp only: reminded_def d(2) x) auto
    have set1: "set (map r_id (reminders s1)) = insert rid (set (map r_id (reminders s)))"
      unfolding d(3) by simp
    have "supply_ok s1 xs" by (rule supply_used [OF Cons.prems(2) [unfolded x] set1])
    moreover have "new_items s1 xs = new_items s xs" by (rule new_items_used [OF Cons.prems(1) grown])
    ultimately show ?thesis
      using Cons.IH [of s1 "tally o1 r0" q1] Cons.prems(1) rest d(1,2,4,5) False
      by (simp only: new_items_def) (simp add: tally_def x)
  qed
qed

text \<open>A supply of ids that suffices for a scan.\<close>

definition fresh_ids :: "js_date \<Rightarrow> app \<Rightarrow> (uuid \<times> uuid) list \<Rightarrow> bool" where
  "fresh_ids now s ids \<longleftrightarrow> distinct (map fst ids) \<and> [] \<notin> set (map fst ids) \<and>
     set (map fst ids) \<inter> set (map r_id (reminders s)) = {} \<and>
     length (due_soon now s) + length (overdue now s) \<le> length ids"

definition scan_items :: "js_date \<Rightarrow> app \<Rightarrow> (uuid \<times> uuid) list \<Rightarrow> dispatch_item list" where
  "scan_items now s ids = scan_list (due_soon now s) (overdue now s) ids"

definition due_key :: "reminder_type \<Rightarrow> task \<Rightarrow> uuid \<times> reminder_type \<times> js_date" where
  "due_key ty t = (t_id t, ty, the (t_dueDate t))"

lemma scan_unfold:
  "RemindersService_scan queue now ids pg (q, s) =
    dispatch_each queue (scan_items now s ids) now pg
      \<lparr>scannedDueSoon = length (due_soon now s), scannedOverdue = length (overdue now s), created = 0,
       delivered = 0, enqueued = 0\<rparr> (q, s)"
  by (simp add: RemindersService_scan_def scan_items_def Let_def)

lemma zip_keys:
  "length ts \<le> length ids \<Longrightarrow>
    map item_key (zip ts (zip (replicate (length ts) ty) ids)) = map (due_key ty) ts"
proof (induction ts arbitrary: ids)
  case (Cons t ts)
  then show ?case by (cases ids) (auto simp: item_key_def due_key_def)
qed simp

lemma scan_items_keys:
  assumes "fresh_ids now s ids"
  shows "map item_key (scan_items now s ids) =
    map (due_key DUE_SOON) (due_soon now s) @ map (due_key OVERDUE) (overdue now s)"
proof -
  let ?a = "due_soon now s" and ?b = "overdue now s"
  have l: "length ?a + length ?b \<le> length ids" using assms by (simp add: fresh_ids_def)
  let ?k = "length ?a"
  have "scan_items now s ids =
      zip (?a @ ?b) (zip (replicate (length ?a) DUE_SOON @ replicate (length ?b) OVERDUE) (take ?k ids @ drop ?k ids))"
    by (simp add: scan_items_def scan_list_def)
  also have "\<dots> = zip ?a (zip (replicate (length ?a) DUE_SOON) (take ?k ids)) @
      zip ?b (zip (replicate (length ?b) OVERDUE) (drop ?k ids))"
    using l by (subst zip_append [of "replicate (length ?a) DUE_SOON"]) (simp_all add: zip_append)
  finally show ?thesis using l by (simp add: zip_keys)
qed

lemma scan_items_distinct:
  assumes "app_ok s" and "fresh_ids now s ids"
  shows "distinct (map item_key (scan_items now s ids))"
proof -
  have d: "distinct (map t_id (tasks s))" using assms(1) by (simp add: app_ok_def tasks_ok_def forest_def)
  have "distinct (map (due_key ty) (filter P (tasks s)))" for P ty
    using distinct_map_filterI [OF d, of P] by (auto simp: distinct_map due_key_def inj_on_def)
  moreover have "due_key DUE_SOON t \<noteq> due_key OVERDUE t'" "due_key OVERDUE t \<noteq> due_key DUE_SOON t'" for t t'
    by (simp_all add: due_key_def)
  ultimately show ?thesis
    by (auto simp: scan_items_keys [OF assms(2)] due_soon_def overdue_def RemindersService_openTasks_def)
qed

lemma scan_items_ids:
  "\<exists>k. map (\<lambda>(t, ty, ids). ids) (scan_items now s ids) = take k ids"
proof -
  have "map (\<lambda>(t, ty, i). i) (zip ts (zip tys ids)) = take (min (length ts) (length tys)) ids"
    for ts :: "task list" and tys :: "reminder_type list" and ids :: "(uuid \<times> uuid) list"
  proof (induction ts arbitrary: tys ids)
    case (Cons t ts)
    then show ?case by (cases tys; cases ids) auto
  qed simp
  then show ?thesis unfolding scan_items_def scan_list_def by blast
qed

lemma scan_items_supply:
  assumes "fresh_ids now s ids"
  shows "supply_ok s (scan_items now s ids)"
proof -
  obtain k where k: "map (\<lambda>(t, ty, ids). ids) (scan_items now s ids) = take k ids"
    using scan_items_ids by blast
  have "map (\<lambda>(t, ty, ids). fst ids) (scan_items now s ids) = map fst (take k ids)"
    by (simp flip: k add: comp_def split_beta)
  moreover have "distinct (map fst (take k ids))"
    using assms by (simp add: fresh_ids_def flip: take_map)
  moreover have "fst i \<noteq> [] \<and> fst i \<notin> set (map r_id (reminders s))"
    if "(t, ty, i) \<in> set (scan_items now s ids)" for t ty i
  proof -
    have "i \<in> set (map (\<lambda>(t, ty, ids). ids) (scan_items now s ids))" using that by force
    then have "i \<in> set ids" unfolding k by (rule in_set_takeD)
    then have "fst i \<in> set (map fst ids)" by simp
    with assms show ?thesis unfolding fresh_ids_def by (metis IntI empty_iff)
  qed
  ultimately show ?thesis
    unfolding supply_ok_def by (auto simp del: set_map)
qed

lemma scan_runs:
  assumes "app_ok s" and "fresh_ids now s ids" and "RemindersService_scan queue now ids pg (q, s) = (Inr r, (q', s'))"
  shows "tasks s' = tasks s"
    and "map reminder_key (reminders s') =
      map reminder_key (reminders s) @ map item_key (new_items s (scan_items now s ids))"
    and "map n_key (notifications s') = map n_key (notifications s) @
      (if queue = None then concat (map item_notice (new_items s (scan_items now s ids))) else [])"
    and "created r = length (new_items s (scan_items now s ids))"
    and "scannedDueSoon r = length (due_soon now s)" and "scannedOverdue r = length (overdue now s)"
  using dispatch_each_runs [OF scan_items_distinct [OF assms(1,2)] scan_items_supply [OF assms(2)]
      assms(3) [unfolded scan_unfold]]
  by simp_all

section \<open>Properties\<close>


text \<open>
  A scan is idempotent: repeated at the same time, whatever ids it is given, it makes no reminder,
  delivers and enqueues nothing and leaves queue and database as they are.
\<close>

theorem scan_idempotent:
  assumes "app_ok s" and "fresh_ids now s ids" and "fresh_ids now s' ids2"
    and "RemindersService_scan queue now ids pg (q, s) = (Inr r, (q', s'))"
  shows "RemindersService_scan queue now ids2 pg2 (q', s') =
    (Inr (r\<lparr>created := 0, delivered := 0, enqueued := 0\<rparr>), (q', s'))"
proof -
  note runs = scan_runs [OF assms(1,2,4)]
  have same: "due_soon now s' = due_soon now s" "overdue now s' = overdue now s"
    by (simp_all add: due_soon_def overdue_def RemindersService_openTasks_def runs(1))
  have "reminded s' k" if "k \<in> set (map item_key (scan_items now s ids))" for k
    using that unfolding reminded_def runs(2) by (auto simp: new_items_def reminded_def)
  moreover have "set (map item_key (scan_items now s' ids2)) = set (map item_key (scan_items now s ids))"
    by (simp only: scan_items_keys [OF assms(3)] scan_items_keys [OF assms(2)] same)
  ultimately have "new_items s' (scan_items now s' ids2) = []"
    unfolding new_items_def filter_empty_conv by (metis image_eqI set_map)
  from dispatch_each_known [OF this] show ?thesis
    using runs(5,6) by (cases r) (simp add: scan_unfold same)
qed

text \<open>The example with a task of user \<open>u2\<close> that is due at 10.\<close>

definition ex_due :: app where
  "ex_due = ex_app\<lparr>tasks := [ex_task ''t1'' None None, ex_task ''t2'' (Some ''t1'') None,
     (ex_task ''t3'' None (Some ''u2''))\<lparr>t_dueDate := Some 10\<rparr>]\<rparr>"

lemma ex_due_ok: "app_ok ex_due"
proof -
  have t: "tasks ex_due = update_row t_id ((ex_task ''t3'' None (Some ''u2''))\<lparr>t_dueDate := Some 10\<rparr>) (tasks ex_app)"
    by (simp add: ex_due_def update_row_def ex_task_def)
  have e: "map t_id (tasks ex_due) = map t_id (tasks ex_app)"
    "map t_parentTaskId (tasks ex_due) = map t_parentTaskId (tasks ex_app)"
    by (simp_all add: ex_due_def ex_task_def)
  have "tasks_ok (users ex_app) (projects ex_app) (tasks ex_app)" using ex_app_ok by (simp add: app_ok_def)
  then have "tasks_ok (users ex_app) (projects ex_app) (tasks ex_due)"
    using forest_cong [OF _ e]
    by (auto simp: tasks_ok_def t same_project_def completed_iff_done_def ex_task_def update_row_def)
  moreover have "has_id t_id (tasks ex_due) = has_id t_id (tasks ex_app)"
    by (rule ext) (simp only: has_id_def e)
  then have "comments_ok us (tasks ex_due) = comments_ok us (tasks ex_app)"
    "activities_ok us (tasks ex_due) = activities_ok us (tasks ex_app)"
    "reminders_ok (tasks ex_due) = reminders_ok (tasks ex_app)" for us
    by (simp_all add: comments_ok_def activities_ok_def reminders_ok_def fun_eq_iff)
  ultimately show ?thesis
    using ex_app_ok by (simp add: app_ok_def ex_due_def)
qed

lemma ex_scan:
  "RemindersService_scan None 5 [(''r1'', ''n2'')] 5 ((), ex_due) =
    (Inr \<lparr>scannedDueSoon = 1, scannedOverdue = 0, created = 1, delivered = 1, enqueued = 0\<rparr>,
     snd (RemindersService_scan (None :: (unit, uuid) queue_ops option) 5 [(''r1'', ''n2'')] 5 ((), ex_due)))"
  by code_simp

lemma ex_scan_state:
  "reminders (snd (snd (RemindersService_scan (None :: (unit, uuid) queue_ops option) 5 [(''r1'', ''n2'')] 5 ((), ex_due)))) =
    [\<lparr>r_id = ''r1'', r_taskId = ''t3'', r_type = DUE_SOON, r_scheduledFor = 10, r_status = REM_SENT,
      r_attempts = 0, r_sentAt = Some 5, r_createdAt = 5\<rparr>]"
  "tasks (snd (snd (RemindersService_scan (None :: (unit, uuid) queue_ops option) 5 [(''r1'', ''n2'')] 5 ((), ex_due)))) =
    tasks ex_due"
  by code_simp+

lemma ex_due_fresh: "fresh_ids 5 ex_due [(''r1'', ''n2'')]"
  by (simp add: fresh_ids_def due_soon_def overdue_def RemindersService_openTasks_def ex_due_def ex_task_def
      DUE_SOON_WINDOW_MS_def)


theorem scan_idempotent_witness:
  "\<exists>s'. RemindersService_scan (None :: (unit, uuid) queue_ops option) 5 [(''r2'', ''n3'')] 6 ((), s') =
      (Inr \<lparr>scannedDueSoon = 1, scannedOverdue = 0, created = 0, delivered = 0, enqueued = 0\<rparr>, ((), s')) \<and>
    (((), s') = snd (RemindersService_scan (None :: (unit, uuid) queue_ops option) 5 [(''r1'', ''n2'')] 5 ((), ex_due)))"
proof -
  obtain s' where s': "snd (RemindersService_scan (None :: (unit, uuid) queue_ops option) 5 [(''r1'', ''n2'')] 5 ((), ex_due)) = ((), s')"
    by (metis surj_pair unit.exhaust)
  have "fresh_ids 5 s' [(''r2'', ''n3'')]"
    using ex_scan_state unfolding s'
    by (simp add: fresh_ids_def due_soon_def overdue_def RemindersService_openTasks_def ex_due_def ex_task_def
        DUE_SOON_WINDOW_MS_def)
  from scan_idempotent [OF ex_due_ok ex_due_fresh this ex_scan [unfolded s']] s' show ?thesis by auto
qed

text \<open>
  A reminder whose job the queue refuses is lost: the scan fails, the reminder stays \<open>PENDING\<close> with
  no job for it, and every later scan finds it there and neither enqueues nor delivers it, with
  whatever queue and at whatever time.
\<close>

theorem refused_job_loses_reminder:
  assumes "\<not> reminded s (due_key ty t)" and "rid \<noteq> []" and "\<not> has_id r_id (reminders s) rid"
    and "has_id t_id (tasks s) (t_id t)" and "queue_add ops q rid rid = None"
  shows "\<exists>s' x. RemindersService_dispatch (Some ops) t ty (rid, nid) d pg (q, s) = (Inl (JsError ''queue''), (q, s')) \<and>
    x \<in> set (reminders s') \<and> r_id x = rid \<and> reminder_key x = due_key ty t \<and> r_status x = REM_PENDING \<and>
    RemindersService_dispatch queue2 t ty ids2 d2 pg2 (q2, s') =
      (Inr \<lparr>o_created = False, o_delivered = False, o_enqueued = False\<rparr>, (q2, s'))"
proof -
  let ?r = "\<lparr>r_id = rid, r_taskId = t_id t, r_type = ty, r_scheduledFor = the (t_dueDate t),
      r_status = REM_PENDING, r_attempts = 0, r_sentAt = None, r_createdAt = pg\<rparr>"
  let ?s = "s\<lparr>reminders := reminders s @ [?r]\<rparr>"
  have "RemindersService_createReminder (t_id t) ty (the (t_dueDate t)) rid pg s = (Inr (Some rid), ?s)"
    using assms(1,3,4)
    by (simp add: RemindersService_createReminder_def insert_reminder_or_ignore_def due_key_def reminded_exists
        enforce.simps)
  then have 1: "RemindersService_dispatch (Some ops) t ty (rid, nid) d pg (q, s) = (Inl (JsError ''queue''), (q, ?s))"
    using assms(2,5) by (simp add: RemindersService_dispatch_def bindM_def on_app_def)
  have key: "reminder_key ?r = due_key ty t" by (simp add: reminder_key_def due_key_def)
  then have "reminded ?s (item_key (t, ty, ids2))"
    by (simp add: reminded_def item_key_def due_key_def)
  with 1 key dispatch_known [of ?s t ty ids2 queue2 d2 pg2 q2] show ?thesis
    by (intro exI [of _ ?s] exI [of _ ?r]) simp
qed

definition down_queue :: "(unit, uuid) queue_ops" where
  "down_queue = \<lparr>queue_add = (\<lambda>q j d. None), queue_jobs = (\<lambda>q. [])\<rparr>"

theorem refused_job_loses_reminder_witness:
  "\<exists>s' x. RemindersService_dispatch (Some down_queue) (ex_task ''t1'' None None) OVERDUE (''r1'', ''n2'') 5 5 ((), ex_app) =
      (Inl (JsError ''queue''), ((), s')) \<and> x \<in> set (reminders s') \<and> r_status x = REM_PENDING \<and>
    RemindersService_dispatch None (ex_task ''t1'' None None) OVERDUE (''r2'', ''n3'') 9 9 ((), s') =
      (Inr \<lparr>o_created = False, o_delivered = False, o_enqueued = False\<rparr>, ((), s'))"
proof -
  have "\<not> reminded ex_app (due_key OVERDUE (ex_task ''t1'' None None))" "(''r1'' :: uuid) \<noteq> []"
    "\<not> has_id r_id (reminders ex_app) ''r1''"
    "has_id t_id (tasks ex_app) (t_id (ex_task ''t1'' None None))"
    "queue_add down_queue () ''r1'' ''r1'' = None"
    by (simp_all add: reminded_def has_id_def down_queue_def)
  from refused_job_loses_reminder [OF this, of "''n2''" 5 5 None "(''r2'', ''n3'')" 9 9 "()"] show ?thesis by blast
qed

text \<open>
  The worker delivers a reminder at most once: a delivery that succeeds marks it \<open>SENT\<close> with the
  time and one more attempt, notifies the assignee the task has then, if any, and nobody else, and
  after it delivering again, and failing again, does nothing to the inbox.
\<close>

theorem deliver_once:
  assumes "app_ok s" and "x \<in> set (reminders s)" and "r_status x \<noteq> REM_SENT"
    and "RemindersService_deliverReminder (r_id x) nid d pg s = (Inr (), s')"
  shows "x\<lparr>r_status := REM_SENT, r_sentAt := Some d, r_attempts := r_attempts x + 1\<rparr> \<in> set (reminders s') \<and>
    map n_key (notifications s') = map n_key (notifications s) @
      (case List.find (\<lambda>t. t_id t = r_taskId x) (tasks s) of
         None \<Rightarrow> [] | Some t \<Rightarrow> item_notice (t, r_type x, undefined)) \<and>
    RemindersService_deliverReminder (r_id x) nid2 d2 pg2 s' = (Inr (), s')"
proof -
  let ?f = "\<lambda>r. r\<lparr>r_status := REM_SENT, r_sentAt := Some d, r_attempts := r_attempts x + 1\<rparr>"
  have dis: "distinct (map r_id (reminders s))" using assms(1) by (simp add: app_ok_def reminders_ok_def)
  have f: "List.find (\<lambda>r. r_id r = r_id x) (reminders s) = Some x" by (rule find_key [OF dis assms(2)])
  let ?notify = "case List.find (\<lambda>t. t_id t = r_taskId x) (tasks s) of
      Some t \<Rightarrow> if truthy (t_assigneeId t)
        then bindM (RemindersService_notifyAssignee (t_id t) (the (t_assigneeId t)) (r_type x) nid pg) (\<lambda>_. ret ())
        else ret ()
    | None \<Rightarrow> ret ()"
  obtain s1 where s1: "?notify s = (Inr (), s1)"
    and s': "s' = s1\<lparr>reminders := update_where (\<lambda>r. r_id r = r_id x) ?f (reminders s1)\<rparr>"
    using assms(3,4) by (auto simp: RemindersService_deliverReminder_def bindM_Inr_iff f update_reminder_def)
  have n: "reminders s1 = reminders s \<and> map n_key (notifications s1) = map n_key (notifications s) @
      (case List.find (\<lambda>t. t_id t = r_taskId x) (tasks s) of
         None \<Rightarrow> [] | Some t \<Rightarrow> item_notice (t, r_type x, undefined))"
  proof (cases "List.find (\<lambda>t. t_id t = r_taskId x) (tasks s)")
    case None
    with s1 show ?thesis by simp
  next
    case (Some t)
    show ?thesis
    proof (cases "truthy (t_assigneeId t)")
      case True
      with s1 Some obtain m where
        "RemindersService_notifyAssignee (t_id t) (the (t_assigneeId t)) (r_type x) nid pg s = (Inr m, s1)"
        by (auto simp: bindM_Inr_iff)
      from NotificationsService_create_cases [OF this [unfolded RemindersService_notifyAssignee_def]] True Some
      show ?thesis by (auto simp: item_notice_def n_key_def notify_def)
    qed (use s1 Some in \<open>simp add: item_notice_def\<close>)
  qed
  have mem: "?f x \<in> set (reminders s')" using assms(2) n by (auto simp: s' set_update_where)
  have "map r_id (reminders s') = map r_id (reminders s)" using n by (simp add: s')
  then have "distinct (map r_id (reminders s'))" using dis by simp
  from find_key [OF this mem] have "List.find (\<lambda>r. r_id r = r_id x) (reminders s') = Some (?f x)" by simp
  then have "RemindersService_deliverReminder (r_id x) nid2 d2 pg2 s' = (Inr (), s')"
    by (simp add: RemindersService_deliverReminder_def bindM_def reads_def ret_def)
  with mem n show ?thesis by (simp add: s')
qed

definition ex_pending :: reminder where
  "ex_pending = \<lparr>r_id = ''r1'', r_taskId = ''t3'', r_type = OVERDUE, r_scheduledFor = 1, r_status = REM_PENDING,
     r_attempts = 0, r_sentAt = None, r_createdAt = 0\<rparr>"

definition ex_pending_app :: app where
  "ex_pending_app = ex_app\<lparr>reminders := [ex_pending]\<rparr>"

lemma ex_pending_ok: "app_ok ex_pending_app"
  using ex_app_ok
  by (simp add: app_ok_def ex_pending_app_def reminders_ok_def ex_pending_def sent_dated_def has_id_def ex_task_def)

theorem deliver_once_witness:
  "\<exists>s'. RemindersService_deliverReminder ''r1'' ''n2'' 5 5 ex_pending_app = (Inr (), s') \<and>
    map n_key (notifications s') = [(''u2'', TASK_ASSIGNED, Some ''t3''), (''u2'', TASK_OVERDUE, Some ''t3'')] \<and>
    RemindersService_deliverReminder ''r1'' ''n3'' 6 6 s' = (Inr (), s')"
proof -
  have ok: "fst (RemindersService_deliverReminder (r_id ex_pending) ''n2'' 5 5 ex_pending_app) = Inr ()"
    by code_simp
  then obtain s' where run: "RemindersService_deliverReminder (r_id ex_pending) ''n2'' 5 5 ex_pending_app = (Inr (), s')"
    by (metis prod.collapse)
  have p: "ex_pending \<in> set (reminders ex_pending_app)" "r_status ex_pending \<noteq> REM_SENT"
    by (simp_all add: ex_pending_app_def ex_pending_def)
  have i: "r_id ex_pending = ''r1''" "r_taskId ex_pending = ''t3''" "r_type ex_pending = OVERDUE"
    by (simp_all add: ex_pending_def)
  from deliver_once [OF ex_pending_ok p run, of "''n3''" 6 6] run
  show ?thesis
    unfolding i
    by (auto simp: ex_pending_app_def ex_task_def item_notice_def n_key_def ex_notification_def)
qed

end
