(* ===== verification/Realtime.thy ===== *)
theory Realtime
  imports Notifications
begin

text \<open>
  Live notifications (\<open>src/modules/realtime\<close>): \<open>NotificationsGateway\<close> admits a client's socket to the
  room of its user and pushes new notifications there; \<open>RealtimePublisher\<close> and \<open>RealtimeSubscriber\<close>
  bridge the worker and the API instances over a Redis channel.  Checking a token, JSON and
  Socket.IO's adapter are not part of the program: the first two are parameters, and an adapter is
  what it makes of an emit to a room, the sockets it reaches.
\<close>

record socket =
  sk_id :: string
  sk_userId :: "uuid option"
  sk_rooms :: "string list"
  sk_connected :: bool
  sk_unauthorized :: bool

definition NotificationsGateway_room :: "uuid \<Rightarrow> string" where
  "NotificationsGateway_room userId = ''user:'' @ userId"

text \<open>\<open>verify\<close> is the subject of a valid access token, None where \<open>verifyAsync\<close> throws.\<close>

definition NotificationsGateway_handleConnection ::
    "(string \<Rightarrow> uuid option) \<Rightarrow> string option \<Rightarrow> string option \<Rightarrow> socket \<Rightarrow> socket" where
  "NotificationsGateway_handleConnection verify authToken queryToken client =
     (let token = (case authToken of None \<Rightarrow> queryToken | Some t \<Rightarrow> Some t)
      in case verify (case token of None \<Rightarrow> [] | Some t \<Rightarrow> t) of
           Some sub \<Rightarrow> client\<lparr>sk_userId := Some sub, sk_rooms := NotificationsGateway_room sub # sk_rooms client\<rparr>
         | None \<Rightarrow> client\<lparr>sk_unauthorized := True, sk_connected := False\<rparr>)"

record push_payload =
  pp_id :: uuid
  pp_type :: notification_type
  pp_title :: string
  pp_body :: "string option"
  pp_entityType :: "string option"
  pp_entityId :: "uuid option"
  pp_createdAt :: pg_time

definition push_payload_of :: "notification \<Rightarrow> push_payload" where
  "push_payload_of n = \<lparr>pp_id = n_id n, pp_type = n_type n, pp_title = n_title n, pp_body = n_body n,
     pp_entityType = n_entityType n, pp_entityId = n_entityId n, pp_createdAt = n_createdAt n\<rparr>"

text \<open>
  \<open>server\<close> is None in a process without a WebSocket server; otherwise it lists the sockets its
  adapter reaches.  The result is what is sent, to which socket.
\<close>

definition NotificationsGateway_pushNotification ::
    "socket list option \<Rightarrow> notification \<Rightarrow> (string \<times> push_payload) list" where
  "NotificationsGateway_pushNotification server n =
     (case server of
        None \<Rightarrow> []
      | Some sockets \<Rightarrow>
          map (\<lambda>k. (sk_id k, push_payload_of n))
            (filter (\<lambda>k. sk_connected k \<and> NotificationsGateway_room (n_recipientId n) \<in> set (sk_rooms k)) sockets))"

section \<open>The bridge\<close>

record json_ops =
  json_stringify :: "notification \<Rightarrow> string"
  json_parse :: "string \<Rightarrow> notification option"

text \<open>What is published to the channel, and what a subscriber makes of a message: an event or nothing.\<close>

definition RealtimePublisher_publish :: "json_ops \<Rightarrow> notification \<Rightarrow> string" where
  "RealtimePublisher_publish json n = json_stringify json n"

definition RealtimeSubscriber_handleMessage :: "json_ops \<Rightarrow> string \<Rightarrow> domain_event list" where
  "RealtimeSubscriber_handleMessage json message =
     (case json_parse json message of None \<Rightarrow> [] | Some n \<Rightarrow> [NotificationCreated n])"

text \<open>
  A message at every API instance: each subscriber emits the event in its process, whose gateway
  pushes it through its adapter.  With the adapter of \<open>RedisIoAdapter\<close> an emit reaches the sockets
  of all instances, with the default one those of its own instance.
\<close>

definition reach :: "bool \<Rightarrow> socket list list \<Rightarrow> socket list \<Rightarrow> socket list" where
  "reach redisAdapter instances own = (if redisAdapter then concat instances else own)"

definition bridge_push ::
    "json_ops \<Rightarrow> bool \<Rightarrow> socket list list \<Rightarrow> string \<Rightarrow> (string \<times> push_payload) list" where
  "bridge_push json redisAdapter instances message =
     concat (map (\<lambda>own. concat (map (\<lambda>e. case e of
           NotificationCreated n \<Rightarrow> NotificationsGateway_pushNotification (Some (reach redisAdapter instances own)) n
         | _ \<Rightarrow> []) (RealtimeSubscriber_handleMessage json message))) instances)"

section \<open>Properties\<close>

text \<open>A socket as it connects, and one that joined rooms only through the handshake.\<close>

definition new_socket :: "string \<Rightarrow> socket" where
  "new_socket i = \<lparr>sk_id = i, sk_userId = None, sk_rooms = [], sk_connected = True, sk_unauthorized = False\<rparr>"

definition admitted :: "(string \<Rightarrow> uuid option) \<Rightarrow> socket \<Rightarrow> bool" where
  "admitted verify k \<longleftrightarrow>
     (\<exists>i a q. k = NotificationsGateway_handleConnection verify a q (new_socket i))"

lemma admitted_room:
  "admitted verify k \<Longrightarrow> sk_connected k \<and> NotificationsGateway_room u \<in> set (sk_rooms k) \<longleftrightarrow>
    sk_userId k = Some u"
  by (auto simp: admitted_def NotificationsGateway_handleConnection_def new_socket_def Let_def
      NotificationsGateway_room_def split: option.splits)

lemma count_filter_ids:
  "distinct (map sk_id ks) \<Longrightarrow> k \<in> set ks \<Longrightarrow> P k \<Longrightarrow>
    count_list (map (\<lambda>x. (sk_id x, p)) (filter P ks)) (sk_id k, p) = 1"
proof (induction ks)
  case (Cons x ks)
  show ?case
  proof (cases "x = k")
    case True
    have "count_list (map (\<lambda>x. (sk_id x, p)) (filter P ks)) (sk_id k, p) = 0"
      unfolding count_list_0_iff using Cons.prems(1) True by auto
    with True Cons.prems show ?thesis by simp
  next
    case False
    with Cons.prems have "k \<in> set ks" by simp
    moreover from this have "sk_id x \<noteq> sk_id k" using Cons.prems(1) by auto
    ultimately show ?thesis using Cons by simp
  qed
qed simp

lemma bridge_push_eq:
  assumes "json_parse json message = Some n"
  shows "bridge_push json redisAdapter instances message =
    concat (map (\<lambda>own. NotificationsGateway_pushNotification (Some (reach redisAdapter instances own)) n) instances)"
  using assms by (simp add: bridge_push_def RealtimeSubscriber_handleMessage_def)

lemma count_concat: "count_list (concat xss) y = sum_list (map (\<lambda>xs. count_list xs y) xss)"
  by (induction xss) auto

text \<open>
  C38.  Only the sockets of the recipient get a notification: whatever the instances and the adapter,
  what the bridge pushes goes to sockets whose handshake showed a valid token of the recipient.
\<close>

theorem push_only_to_recipient:
  assumes "json_parse json message = Some n" and "\<forall>k \<in> set (concat instances). admitted verify k"
    and "(i, p) \<in> set (bridge_push json redisAdapter instances message)"
  shows "p = push_payload_of n \<and>
    (\<exists>k \<in> set (concat instances). sk_id k = i \<and> sk_userId k = Some (n_recipientId n))"
proof -
  from assms(3) obtain own where own: "own \<in> set instances"
    and "(i, p) \<in> set (NotificationsGateway_pushNotification (Some (reach redisAdapter instances own)) n)"
    by (auto simp: bridge_push_eq [OF assms(1)])
  then obtain k where k: "k \<in> set (reach redisAdapter instances own)" "sk_id k = i" "p = push_payload_of n"
      "sk_connected k" "NotificationsGateway_room (n_recipientId n) \<in> set (sk_rooms k)"
    by (auto simp: NotificationsGateway_pushNotification_def)
  have "k \<in> set (concat instances)" using k(1) own by (auto simp: reach_def split: if_splits)
  moreover from this have "sk_userId k = Some (n_recipientId n)"
    using admitted_room assms(2) k(4,5) by blast
  ultimately show ?thesis using k(2,3) by blast
qed

definition ex_verify :: "string \<Rightarrow> uuid option" where
  "ex_verify t = (if t = ''token2'' then Some ''u2'' else if t = ''token1'' then Some ''u1'' else None)"

definition ex_json :: json_ops where
  "ex_json = \<lparr>json_stringify = (\<lambda>n. n_id n), json_parse = (\<lambda>s. if s = ''n1'' then Some ex_notification else None)\<rparr>"

definition ex_instances :: "socket list list" where
  "ex_instances =
     [[NotificationsGateway_handleConnection ex_verify (Some ''token2'') None (new_socket ''a'')],
      [NotificationsGateway_handleConnection ex_verify None (Some ''token1'') (new_socket ''b''),
       NotificationsGateway_handleConnection ex_verify None None (new_socket ''c'')]]"

lemma ex_bridge:
  "json_parse ex_json ''n1'' = Some ex_notification"
  "\<forall>k \<in> set (concat ex_instances). admitted ex_verify k"
  "(''a'', push_payload_of ex_notification) \<in> set (bridge_push ex_json True ex_instances ''n1'')"
proof -
  show parse: "json_parse ex_json ''n1'' = Some ex_notification" by (simp add: ex_json_def)
  show "\<forall>k \<in> set (concat ex_instances). admitted ex_verify k"
    by (simp add: ex_instances_def admitted_def) blast
  have "n_recipientId ex_notification = ''u2''" by (simp add: ex_notification_def)
  then show "(''a'', push_payload_of ex_notification) \<in> set (bridge_push ex_json True ex_instances ''n1'')"
    by (simp add: bridge_push_eq [OF parse] ex_instances_def NotificationsGateway_pushNotification_def reach_def
        NotificationsGateway_handleConnection_def ex_verify_def new_socket_def NotificationsGateway_room_def)
qed

theorem push_only_to_recipient_witness:
  "\<exists>k \<in> set (concat ex_instances). sk_id k = ''a'' \<and> sk_userId k = Some (n_recipientId ex_notification)"
  using push_only_to_recipient [OF ex_bridge] by blast

text \<open>How often a push to one instance's sockets, and to those of all instances, reaches a socket.\<close>

abbreviation pushes :: "notification \<Rightarrow> socket \<Rightarrow> socket list \<Rightarrow> nat" where
  "pushes n k ks \<equiv> count_list (NotificationsGateway_pushNotification (Some ks) n) (sk_id k, push_payload_of n)"

lemma pushes_own:
  assumes "distinct (map sk_id ks)" and "k \<in> set ks"
    and "sk_connected k \<and> NotificationsGateway_room (n_recipientId n) \<in> set (sk_rooms k)"
  shows "pushes n k ks = 1"
  using count_filter_ids [OF assms(1,2), where P = "\<lambda>k. sk_connected k \<and>
      NotificationsGateway_room (n_recipientId n) \<in> set (sk_rooms k)", OF assms(3)]
  by (simp add: NotificationsGateway_pushNotification_def)

lemma pushes_other: "sk_id k \<notin> sk_id ` set ks \<Longrightarrow> pushes n k ks = 0"
  unfolding count_list_0_iff by (auto simp: NotificationsGateway_pushNotification_def)

lemma pushes_once:
  assumes "distinct (map sk_id (concat xss))" and "k \<in> set (concat xss)"
    and P: "sk_connected k \<and> NotificationsGateway_room (n_recipientId n) \<in> set (sk_rooms k)"
  shows "sum_list (map (pushes n k) xss) = 1"
  using assms(1,2)
proof (induction xss)
  case (Cons ks xss)
  show ?case
  proof (cases "k \<in> set ks")
    case True
    then have "sk_id k \<notin> sk_id ` set (concat xss)" using Cons.prems(1) by auto
    then have "pushes n k ys = 0" if "ys \<in> set xss" for ys using that by (intro pushes_other) auto
    then have "sum_list (map (pushes n k) xss) = 0" by simp
    moreover have "pushes n k ks = 1" using Cons.prems(1) True P by (intro pushes_own) simp_all
    ultimately show ?thesis by simp
  next
    case False
    then have k: "k \<in> set (concat xss)" using Cons.prems(2) by simp
    then have "sk_id k \<notin> sk_id ` set ks" using Cons.prems(1) by auto
    with pushes_other [of k ks n] Cons.IH k Cons.prems(1) show ?thesis by simp
  qed
qed simp

text \<open>
  With the Redis adapter the bridge sends a notification to every socket of the recipient once for
  each API instance, because every instance emits it to all sockets: a client sees it as often as
  there are instances.  With the default adapter it sees it once, as meant.
\<close>

theorem bridge_duplicates:
  assumes "json_parse json message = Some n" and "\<forall>k \<in> set (concat instances). admitted verify k"
    and "distinct (map sk_id (concat instances))" and "k \<in> set (concat instances)"
    and "sk_userId k = Some (n_recipientId n)"
  shows "count_list (bridge_push json redisAdapter instances message) (sk_id k, push_payload_of n) =
    (if redisAdapter then length instances else 1)"
proof -
  have P: "sk_connected k \<and> NotificationsGateway_room (n_recipientId n) \<in> set (sk_rooms k)"
    using admitted_room [of verify k] assms(2,4,5) by blast
  have "(\<Sum>x\<leftarrow>instances. 1) = length instances" by (induction instances) auto
  then show ?thesis
    using pushes_own [OF assms(3,4) P] pushes_once [OF assms(3,4) P]
    by (cases redisAdapter) (simp_all add: bridge_push_eq [OF assms(1)] count_concat comp_def reach_def)
qed

theorem bridge_duplicates_witness:
  "\<exists>k \<in> set (concat ex_instances).
     count_list (bridge_push ex_json True ex_instances ''n1'') (sk_id k, push_payload_of ex_notification) = 2 \<and>
     count_list (bridge_push ex_json False ex_instances ''n1'') (sk_id k, push_payload_of ex_notification) = 1"
proof -
  let ?k = "NotificationsGateway_handleConnection ex_verify (Some ''token2'') None (new_socket ''a'')"
  have k: "?k \<in> set (concat ex_instances)" "sk_userId ?k = Some (n_recipientId ex_notification)"
    by (simp_all add: ex_instances_def NotificationsGateway_handleConnection_def ex_verify_def new_socket_def
        ex_notification_def)
  have d: "distinct (map sk_id (concat ex_instances))"
    by (simp add: ex_instances_def NotificationsGateway_handleConnection_def ex_verify_def new_socket_def)
  have "length ex_instances = 2" by (simp add: ex_instances_def)
  with bridge_duplicates [OF ex_bridge(1,2) d k, of True] bridge_duplicates [OF ex_bridge(1,2) d k, of False] k(1)
  show ?thesis by auto
qed

end
