(* ===== verification/Errors.thy ===== *)
theory Errors
  imports Prelude
begin

text \<open>
  What a client sees of an error: \<open>AllExceptionsFilter\<close> (\<open>src/common/filters/all-exceptions.filter.ts\<close>), and
  the correlation id the logger gives a request before (\<open>genReqId\<close> of \<open>src/config/logger.config.ts\<close>).
  The status and the response of an \<open>HttpException\<close>, and the names of the statuses, are those of the
  framework: parameters.
\<close>

record nest =
  nest_getStatus :: "http_error \<Rightarrow> nat"
  nest_getResponse :: "http_error \<Rightarrow> string \<times> string option"
  nest_HttpStatus :: "nat \<Rightarrow> string option"

record incoming =
  in_method :: string
  in_url :: string
  in_correlationId :: "string option"

record error_body =
  eb_statusCode :: nat
  eb_error :: "string option"
  eb_message :: string
  eb_correlationId :: string
  eb_path :: string
  eb_timestamp :: string

text \<open>
  A header is absent or has one value, or a list of them; the first is used, and without one a new id.  The id is
  written back to the request and to the response.
\<close>

definition genReqId :: "string list option \<Rightarrow> string \<Rightarrow> incoming \<Rightarrow> incoming \<times> string" where
  "genReqId existing uuid req =
     (let i = (case existing of None \<Rightarrow> uuid | Some [] \<Rightarrow> uuid | Some (h # _) \<Rightarrow> h)
      in (req\<lparr>in_correlationId := Some i\<rparr>, i))"

text \<open>The errors of the database and of the language are no instances of \<open>HttpException\<close>.\<close>

fun is_HttpException :: "http_error \<Rightarrow> bool" where
  "is_HttpException (QueryFailed _) = False"
| "is_HttpException (JsError _) = False"
| "is_HttpException _ = True"

text \<open>The body sent, and whether the error is logged.\<close>

definition AllExceptionsFilter_catch ::
    "nest \<Rightarrow> incoming \<Rightarrow> string \<Rightarrow> string \<Rightarrow> http_error \<Rightarrow> error_body \<times> bool" where
  "AllExceptionsFilter_catch nest req uuid now e =
     (let correlationId = (case in_correlationId req of None \<Rightarrow> uuid | Some i \<Rightarrow> i);
          status = (if is_HttpException e then nest_getStatus nest e else 500);
          message = (if is_HttpException e then fst (nest_getResponse nest e) else ''Internal server error'');
          error = (if is_HttpException e then snd (nest_getResponse nest e) else None)
      in (\<lparr>eb_statusCode = status,
            eb_error = (case error of None \<Rightarrow> nest_HttpStatus nest status | Some x \<Rightarrow> Some x),
            eb_message = message, eb_correlationId = correlationId, eb_path = in_url req, eb_timestamp = now\<rparr>,
          500 \<le> status))"

lemma inner_error_status:
  "\<not> is_HttpException e \<Longrightarrow> eb_statusCode (fst (AllExceptionsFilter_catch nest req uuid now e)) = 500"
  by (simp add: AllExceptionsFilter_catch_def Let_def)

text \<open>The error a client sees carries the id of its response header; of an internal error it sees nothing else.\<close>

lemma error_correlates:
  "genReqId h uuid req = (req', i) \<Longrightarrow>
     eb_correlationId (fst (AllExceptionsFilter_catch nest req' uuid2 now e)) = i"
  by (auto simp: genReqId_def AllExceptionsFilter_catch_def Let_def)

lemma internal_error_opaque:
  "\<not> is_HttpException e \<Longrightarrow> \<not> is_HttpException e' \<Longrightarrow>
     AllExceptionsFilter_catch nest req uuid now e = AllExceptionsFilter_catch nest req uuid now e'"
  by (simp add: AllExceptionsFilter_catch_def)

end
