(* ===== verification/Api.thy ===== *)
theory Api
  imports Invitations Activity Reminders
begin

text \<open>
  The HTTP interface: the guards (\<open>src/modules/workspaces/guards\<close>, \<open>src/common/guards\<close>) and the
  handlers of the controllers, each with its guards, its path parameters and the service call.
  The state is the pair of the membership cache and the database.

  NestJS runs a route's guards before its pipes, so a path parameter reaches a guard unchecked.
  What checks a token (\<open>passport\<close>) has set \<open>rq_user\<close>; the syntax of a UUID is decided by the
  framework's \<open>ParseUUIDPipe\<close> on one side and by the database on the other: two parameters.  A
  body or query is the validated one; \<open>now\<close> and the new ids are those of the database.
\<close>

section \<open>Guards\<close>

record auth_user =
  au_userId :: uuid
  au_email :: string

record request =
  rq_user :: "auth_user option"
  rq_params_workspaceId :: "string option"
  rq_body_workspaceId :: "string option"

record 'c http_env =
  he_cache :: "'c cache_ops"
  he_date :: js_date
  he_parse_uuid :: "string \<Rightarrow> bool"
  he_pg_uuid :: "string \<Rightarrow> bool"
  he_casts :: casts

definition JwtStrategy_validate :: "uuid \<times> string \<Rightarrow> auth_user" where
  "JwtStrategy_validate payload = \<lparr>au_userId = fst payload, au_email = snd payload\<rparr>"

definition JwtAuthGuard :: "request \<Rightarrow> ('s, auth_user) svc" where
  "JwtAuthGuard req = (case rq_user req of None \<Rightarrow> throw (Unauthorized ''Unauthorized'') | Some u \<Rightarrow> ret u)"

text \<open>Looking a membership up fails in the database when the id is no UUID; the cache is asked first.\<close>

definition WorkspaceMemberGuard_canActivate ::
    "'c http_env \<Rightarrow> request \<Rightarrow> ('c \<times> app, member) svc" where
  "WorkspaceMemberGuard_canActivate env req =
     (case rq_user req of
        None \<Rightarrow> throw (Unauthorized ''Unauthorized'')
      | Some user \<Rightarrow>
         (let workspaceId = (case rq_params_workspaceId req of None \<Rightarrow> rq_body_workspaceId req | Some w \<Rightarrow> Some w) in
          bindM (guardM (truthy workspaceId) (BadRequest ''workspaceId is required'')) (\<lambda>_.
          let w = the workspaceId in
          bindM (\<lambda>(c, s).
              if he_pg_uuid env w \<or> cache_get (he_cache env) c (he_date env) (membershipKey w (au_userId user)) \<noteq> None
              then WorkspacesService_getMembership (he_cache env) (he_date env) w (au_userId user) (c, s)
              else (Inl (QueryFailed (InvalidText w)), (c, s))) (\<lambda>membership.
          case membership of
            None \<Rightarrow> throw (Forbidden ''You are not a member of this workspace'')
          | Some m \<Rightarrow> ret m))))"

text \<open>\<open>required\<close> is the metadata of \<open>@Roles\<close>, None without it.\<close>

definition RolesGuard_canActivate :: "workspace_role list option \<Rightarrow> workspace_role option \<Rightarrow> ('s, unit) svc" where
  "RolesGuard_canActivate required role =
     (case required of
        None \<Rightarrow> ret ()
      | Some rs \<Rightarrow>
          if rs = [] then ret ()
          else guardM (case role of None \<Rightarrow> False | Some r \<Rightarrow> r \<in> set rs) (Forbidden ''Insufficient workspace role''))"

definition ParseUUIDPipes :: "'c http_env \<Rightarrow> string list \<Rightarrow> ('s, unit) svc" where
  "ParseUUIDPipes env params =
     guardM (list_all (he_parse_uuid env) params) (BadRequest ''Validation failed (uuid is expected)'')"

text \<open>The routes of a workspace: guards, then pipes, then the handler.\<close>

definition workspace_route ::
    "'c http_env \<Rightarrow> workspace_role list option \<Rightarrow> request \<Rightarrow> string list \<Rightarrow>
     (uuid \<Rightarrow> auth_user \<Rightarrow> member \<Rightarrow> ('c \<times> app, 'a) svc) \<Rightarrow> ('c \<times> app, 'a) svc" where
  "workspace_route env roles req params handler =
     bindM (JwtAuthGuard req) (\<lambda>user.
     bindM (WorkspaceMemberGuard_canActivate env req) (\<lambda>membership.
     bindM (RolesGuard_canActivate roles (Some (m_role membership))) (\<lambda>_.
     let workspaceId = the (rq_params_workspaceId req) in
     bindM (ParseUUIDPipes env (workspaceId # params)) (\<lambda>_.
     handler workspaceId user membership))))"

definition user_route ::
    "'c http_env \<Rightarrow> request \<Rightarrow> string list \<Rightarrow> (auth_user \<Rightarrow> ('c \<times> app, 'a) svc) \<Rightarrow> ('c \<times> app, 'a) svc" where
  "user_route env req params handler =
     bindM (JwtAuthGuard req) (\<lambda>user. bindM (ParseUUIDPipes env params) (\<lambda>_. handler user))"

section \<open>Controllers\<close>

definition WorkspacesController_create ::
    "'c http_env \<Rightarrow> request \<Rightarrow> create_workspace_dto \<Rightarrow> uuid \<Rightarrow> uuid \<Rightarrow> pg_time \<Rightarrow> ('c \<times> app, workspace) svc" where
  "WorkspacesController_create env req dto wid mid now =
     user_route env req [] (\<lambda>user.
       on_db (WorkspacesService_create (au_userId user) dto wid mid now))"

definition WorkspacesController_listMine ::
    "'c http_env \<Rightarrow> request \<Rightarrow> ('c \<times> app, workspace list) svc" where
  "WorkspacesController_listMine env req =
     user_route env req [] (\<lambda>user.
       on_db (WorkspacesService_listForUser (au_userId user)))"

definition WorkspacesController_get ::
    "'c http_env \<Rightarrow> request \<Rightarrow> ('c \<times> app, workspace) svc" where
  "WorkspacesController_get env req =
     workspace_route env None req [] (\<lambda>w _ _.
       on_db (WorkspacesService_findByIdOrFail w))"

definition WorkspacesController_members ::
    "'c http_env \<Rightarrow> request \<Rightarrow> ('c \<times> app, (member \<times> user option) list) svc" where
  "WorkspacesController_members env req =
     workspace_route env None req [] (\<lambda>w _ _.
       on_db (WorkspacesService_listMembers w))"

definition WorkspacesController_updateRole ::
    "'c http_env \<Rightarrow> request \<Rightarrow> uuid \<Rightarrow> workspace_role \<Rightarrow> ('c \<times> app, member) svc" where
  "WorkspacesController_updateRole env req userId role =
     workspace_route env (Some [ADMIN]) req [userId] (\<lambda>w _ _.
       WorkspacesService_updateMemberRole (he_cache env) w userId role)"

definition WorkspacesController_removeMember ::
    "'c http_env \<Rightarrow> request \<Rightarrow> uuid \<Rightarrow> ('c \<times> app, unit) svc" where
  "WorkspacesController_removeMember env req userId =
     workspace_route env (Some [ADMIN]) req [userId] (\<lambda>w _ _.
       WorkspacesService_removeMember (he_cache env) w userId)"

definition InvitationsController_invite ::
    "'c http_env \<Rightarrow> request \<Rightarrow> create_invitation_dto \<Rightarrow> string \<Rightarrow> uuid \<Rightarrow> pg_time \<Rightarrow> ('c \<times> app, invitation) svc" where
  "InvitationsController_invite env req dto token iid now =
     workspace_route env (Some [ADMIN]) req [] (\<lambda>w user _.
       on_db (InvitationsService_invite w (au_userId user) dto token iid (he_date env) now))"

definition InvitationsController_list ::
    "'c http_env \<Rightarrow> request \<Rightarrow> ('c \<times> app, invitation list) svc" where
  "InvitationsController_list env req =
     workspace_route env (Some [ADMIN]) req [] (\<lambda>w _ _.
       on_db (InvitationsService_listForWorkspace w))"

definition InvitationsController_revoke ::
    "'c http_env \<Rightarrow> request \<Rightarrow> uuid \<Rightarrow> ('c \<times> app, unit) svc" where
  "InvitationsController_revoke env req invitationId =
     workspace_route env (Some [ADMIN]) req [invitationId] (\<lambda>w _ _.
       on_db (InvitationsService_revoke w invitationId))"

definition InvitationsController_accept ::
    "'c http_env \<Rightarrow> request \<Rightarrow> string \<Rightarrow> uuid \<Rightarrow> pg_time \<Rightarrow> ('c \<times> app, member) svc" where
  "InvitationsController_accept env req token mid now =
     user_route env req [] (\<lambda>user.
       on_db (InvitationsService_accept (au_userId user) (au_email user) token mid (he_date env) now))"

definition ProjectsController_create ::
    "'c http_env \<Rightarrow> request \<Rightarrow> create_project_dto \<Rightarrow> uuid \<Rightarrow> pg_time \<Rightarrow> ('c \<times> app, project) svc" where
  "ProjectsController_create env req dto nid now =
     workspace_route env None req [] (\<lambda>w user _.
       on_db (ProjectsService_create w (au_userId user) dto nid now))"

definition ProjectsController_list ::
    "'c http_env \<Rightarrow> request \<Rightarrow> project_status option \<Rightarrow> nat option \<Rightarrow> string option \<Rightarrow> ('c \<times> app, project page) svc" where
  "ProjectsController_list env req status lim cursor =
     workspace_route env None req [] (\<lambda>w _ _.
       on_db (ProjectsService_list (he_casts env) w status lim cursor))"

definition ProjectsController_get ::
    "'c http_env \<Rightarrow> request \<Rightarrow> uuid \<Rightarrow> ('c \<times> app, project) svc" where
  "ProjectsController_get env req projectId =
     workspace_route env None req [projectId] (\<lambda>w _ _.
       on_db (ProjectsService_findOneOrFail w projectId))"

definition ProjectsController_update ::
    "'c http_env \<Rightarrow> request \<Rightarrow> uuid \<Rightarrow> update_project_dto \<Rightarrow> pg_time \<Rightarrow> ('c \<times> app, project) svc" where
  "ProjectsController_update env req projectId dto now =
     workspace_route env None req [projectId] (\<lambda>w _ _.
       on_db (ProjectsService_update w projectId dto now))"

definition ProjectsController_remove ::
    "'c http_env \<Rightarrow> request \<Rightarrow> uuid \<Rightarrow> ('c \<times> app, unit) svc" where
  "ProjectsController_remove env req projectId =
     workspace_route env (Some [ADMIN]) req [projectId] (\<lambda>w _ _.
       on_db (ProjectsService_remove w projectId))"

definition TasksController_create ::
    "'c http_env \<Rightarrow> request \<Rightarrow> uuid \<Rightarrow> create_task_dto \<Rightarrow> uuid \<Rightarrow> pg_time \<Rightarrow> ('c \<times> app, task) svc" where
  "TasksController_create env req projectId dto nid now =
     workspace_route env None req [projectId] (\<lambda>w user _.
       on_db (TasksService_create w projectId (au_userId user) dto nid now))"

definition TasksController_list ::
    "'c http_env \<Rightarrow> request \<Rightarrow> uuid \<Rightarrow> list_tasks_query \<Rightarrow> nat option \<Rightarrow> string option \<Rightarrow> ('c \<times> app, task page) svc" where
  "TasksController_list env req projectId q lim cursor =
     workspace_route env None req [projectId] (\<lambda>w _ _.
       on_db (TasksService_list (he_casts env) w projectId q lim cursor))"

definition TasksController_get ::
    "'c http_env \<Rightarrow> request \<Rightarrow> uuid \<Rightarrow> uuid \<Rightarrow> ('c \<times> app, task) svc" where
  "TasksController_get env req projectId taskId =
     workspace_route env None req [projectId, taskId] (\<lambda>w _ _.
       on_db (TasksService_findOneOrFail w projectId taskId))"

definition TasksController_subtree ::
    "'c http_env \<Rightarrow> request \<Rightarrow> uuid \<Rightarrow> uuid \<Rightarrow> ('c \<times> app, subtree option) svc" where
  "TasksController_subtree env req projectId taskId =
     workspace_route env None req [projectId, taskId] (\<lambda>w _ _.
       on_db (TasksService_getSubtree w projectId taskId))"

definition TasksController_move ::
    "'c http_env \<Rightarrow> request \<Rightarrow> uuid \<Rightarrow> uuid \<Rightarrow> uuid option \<Rightarrow> pg_time \<Rightarrow> ('c \<times> app, task) svc" where
  "TasksController_move env req projectId taskId parentTaskId now =
     workspace_route env None req [projectId, taskId] (\<lambda>w _ _.
       on_db (TasksService_moveTask w projectId taskId parentTaskId now))"

definition TasksController_update ::
    "'c http_env \<Rightarrow> request \<Rightarrow> uuid \<Rightarrow> uuid \<Rightarrow> update_task_dto \<Rightarrow> pg_time \<Rightarrow> ('c \<times> app, task) svc" where
  "TasksController_update env req projectId taskId dto now =
     workspace_route env None req [projectId, taskId] (\<lambda>w user _.
       on_db (TasksService_update w projectId taskId (au_userId user) dto now))"

definition TasksController_remove ::
    "'c http_env \<Rightarrow> request \<Rightarrow> uuid \<Rightarrow> uuid \<Rightarrow> ('c \<times> app, unit) svc" where
  "TasksController_remove env req projectId taskId =
     workspace_route env None req [projectId, taskId] (\<lambda>w _ _.
       on_db (TasksService_remove w projectId taskId))"

definition CommentsController_create ::
    "'c http_env \<Rightarrow> request \<Rightarrow> uuid \<Rightarrow> uuid \<Rightarrow> create_comment_dto \<Rightarrow> uuid \<Rightarrow> pg_time \<Rightarrow> ('c \<times> app, comment) svc" where
  "CommentsController_create env req projectId taskId dto nid now =
     workspace_route env None req [projectId, taskId] (\<lambda>w user _.
       on_db (CommentsService_create w projectId taskId (au_userId user) dto nid now))"

definition CommentsController_list ::
    "'c http_env \<Rightarrow> request \<Rightarrow> uuid \<Rightarrow> uuid \<Rightarrow> list_comments_query \<Rightarrow> nat option \<Rightarrow> string option \<Rightarrow> ('c \<times> app, comment page) svc" where
  "CommentsController_list env req projectId taskId q lim cursor =
     workspace_route env None req [projectId, taskId] (\<lambda>w _ _.
       on_db (CommentsService_list (he_casts env) w projectId taskId q lim cursor))"

definition CommentsController_update ::
    "'c http_env \<Rightarrow> request \<Rightarrow> uuid \<Rightarrow> uuid \<Rightarrow> uuid \<Rightarrow> string \<Rightarrow> pg_time \<Rightarrow> ('c \<times> app, comment) svc" where
  "CommentsController_update env req projectId taskId commentId body now =
     workspace_route env None req [projectId, taskId, commentId] (\<lambda>w user _.
       on_db (CommentsService_update w projectId taskId commentId (au_userId user) body now))"

definition CommentsController_remove ::
    "'c http_env \<Rightarrow> request \<Rightarrow> uuid \<Rightarrow> uuid \<Rightarrow> uuid \<Rightarrow> ('c \<times> app, unit) svc" where
  "CommentsController_remove env req projectId taskId commentId =
     workspace_route env None req [projectId, taskId, commentId] (\<lambda>w user membership.
       on_db (CommentsService_remove w projectId taskId commentId (au_userId user) (Some (m_role membership))))"

definition ActivityController_list ::
    "'c http_env \<Rightarrow> request \<Rightarrow> uuid \<Rightarrow> uuid \<Rightarrow> nat option \<Rightarrow> string option \<Rightarrow> ('c \<times> app, task_activity page) svc" where
  "ActivityController_list env req projectId taskId lim cursor =
     workspace_route env None req [projectId, taskId] (\<lambda>w _ _.
       on_db (ActivityService_listForTask (he_casts env) w projectId taskId lim cursor))"

definition NotificationsController_list ::
    "'c http_env \<Rightarrow> request \<Rightarrow> bool option \<Rightarrow> nat option \<Rightarrow> string option \<Rightarrow> ('c \<times> app, notification page) svc" where
  "NotificationsController_list env req onlyUnread lim cursor =
     user_route env req [] (\<lambda>user.
       on_db (NotificationsService_list (he_casts env) (au_userId user) onlyUnread lim cursor))"

definition NotificationsController_unreadCount ::
    "'c http_env \<Rightarrow> request \<Rightarrow> ('c \<times> app, nat) svc" where
  "NotificationsController_unreadCount env req =
     user_route env req [] (\<lambda>user.
       on_db (NotificationsService_unreadCount (au_userId user)))"

definition NotificationsController_markRead ::
    "'c http_env \<Rightarrow> request \<Rightarrow> uuid \<Rightarrow> ('c \<times> app, notification) svc" where
  "NotificationsController_markRead env req nid =
     user_route env req [nid] (\<lambda>user.
       on_db (NotificationsService_markRead (au_userId user) nid (he_date env)))"

definition NotificationsController_markAllRead ::
    "'c http_env \<Rightarrow> request \<Rightarrow> ('c \<times> app, nat) svc" where
  "NotificationsController_markAllRead env req =
     user_route env req [] (\<lambda>user.
       on_db (NotificationsService_markAllRead (au_userId user) (he_date env)))"

section \<open>Requests\<close>

text \<open>Every route, with its parameters and the ids and time it is given; the result itself is dropped.\<close>

definition void :: "('s, 'a) svc \<Rightarrow> ('s, unit) svc" where
  "void m = bindM m (\<lambda>_. ret ())"

datatype endpoint =
    CreateWorkspace create_workspace_dto uuid uuid pg_time
  | ListWorkspaces
  | GetWorkspace
  | ListMembers
  | UpdateRole uuid workspace_role
  | RemoveMember uuid
  | Invite create_invitation_dto string uuid pg_time
  | ListInvitations
  | RevokeInvitation uuid
  | AcceptInvitation string uuid pg_time
  | CreateProject create_project_dto uuid pg_time
  | ListProjects "project_status option" "nat option" "string option"
  | GetProject uuid
  | UpdateProject uuid update_project_dto pg_time
  | RemoveProject uuid
  | CreateTask uuid create_task_dto uuid pg_time
  | ListTasks uuid list_tasks_query "nat option" "string option"
  | GetTask uuid uuid
  | GetSubtree uuid uuid
  | MoveTask uuid uuid "uuid option" pg_time
  | UpdateTask uuid uuid update_task_dto pg_time
  | RemoveTask uuid uuid
  | CreateComment uuid uuid create_comment_dto uuid pg_time
  | ListComments uuid uuid list_comments_query "nat option" "string option"
  | UpdateComment uuid uuid uuid string pg_time
  | RemoveComment uuid uuid uuid
  | ListActivity uuid uuid "nat option" "string option"
  | ListNotifications "bool option" "nat option" "string option"
  | UnreadCount
  | MarkRead uuid
  | MarkAllRead

fun handle :: "'c http_env \<Rightarrow> request \<Rightarrow> endpoint \<Rightarrow> ('c \<times> app, unit) svc" where
  "handle env req (CreateWorkspace dto wid mid now) = void (WorkspacesController_create env req dto wid mid now)"
| "handle env req ListWorkspaces = void (WorkspacesController_listMine env req)"
| "handle env req GetWorkspace = void (WorkspacesController_get env req)"
| "handle env req ListMembers = void (WorkspacesController_members env req)"
| "handle env req (UpdateRole userId role) = void (WorkspacesController_updateRole env req userId role)"
| "handle env req (RemoveMember userId) = void (WorkspacesController_removeMember env req userId)"
| "handle env req (Invite dto token iid now) = void (InvitationsController_invite env req dto token iid now)"
| "handle env req ListInvitations = void (InvitationsController_list env req)"
| "handle env req (RevokeInvitation invitationId) = void (InvitationsController_revoke env req invitationId)"
| "handle env req (AcceptInvitation token mid now) = void (InvitationsController_accept env req token mid now)"
| "handle env req (CreateProject dto nid now) = void (ProjectsController_create env req dto nid now)"
| "handle env req (ListProjects status lim cursor) = void (ProjectsController_list env req status lim cursor)"
| "handle env req (GetProject projectId) = void (ProjectsController_get env req projectId)"
| "handle env req (UpdateProject projectId dto now) = void (ProjectsController_update env req projectId dto now)"
| "handle env req (RemoveProject projectId) = void (ProjectsController_remove env req projectId)"
| "handle env req (CreateTask projectId dto nid now) = void (TasksController_create env req projectId dto nid now)"
| "handle env req (ListTasks projectId q lim cursor) = void (TasksController_list env req projectId q lim cursor)"
| "handle env req (GetTask projectId taskId) = void (TasksController_get env req projectId taskId)"
| "handle env req (GetSubtree projectId taskId) = void (TasksController_subtree env req projectId taskId)"
| "handle env req (MoveTask projectId taskId parentTaskId now) = void (TasksController_move env req projectId taskId parentTaskId now)"
| "handle env req (UpdateTask projectId taskId dto now) = void (TasksController_update env req projectId taskId dto now)"
| "handle env req (RemoveTask projectId taskId) = void (TasksController_remove env req projectId taskId)"
| "handle env req (CreateComment projectId taskId dto nid now) = void (CommentsController_create env req projectId taskId dto nid now)"
| "handle env req (ListComments projectId taskId q lim cursor) = void (CommentsController_list env req projectId taskId q lim cursor)"
| "handle env req (UpdateComment projectId taskId commentId body now) = void (CommentsController_update env req projectId taskId commentId body now)"
| "handle env req (RemoveComment projectId taskId commentId) = void (CommentsController_remove env req projectId taskId commentId)"
| "handle env req (ListActivity projectId taskId lim cursor) = void (ActivityController_list env req projectId taskId lim cursor)"
| "handle env req (ListNotifications onlyUnread lim cursor) = void (NotificationsController_list env req onlyUnread lim cursor)"
| "handle env req UnreadCount = void (NotificationsController_unreadCount env req)"
| "handle env req (MarkRead nid) = void (NotificationsController_markRead env req nid)"
| "handle env req MarkAllRead = void (NotificationsController_markAllRead env req)"

text \<open>The routes below \<open>/workspaces/:workspaceId\<close>, and those of them for an ADMIN only.\<close>

fun workspace_scoped :: "endpoint \<Rightarrow> bool" where
  "workspace_scoped (CreateWorkspace _ _ _ _) = False"
| "workspace_scoped ListWorkspaces = False"
| "workspace_scoped (AcceptInvitation _ _ _) = False"
| "workspace_scoped (ListNotifications _ _ _) = False"
| "workspace_scoped UnreadCount = False"
| "workspace_scoped (MarkRead _) = False"
| "workspace_scoped MarkAllRead = False"
| "workspace_scoped _ = True"

fun admin_only :: "endpoint \<Rightarrow> bool" where
  "admin_only (UpdateRole _ _) = True"
| "admin_only (RemoveMember _) = True"
| "admin_only (Invite _ _ _ _) = True"
| "admin_only ListInvitations = True"
| "admin_only (RevokeInvitation _) = True"
| "admin_only (RemoveProject _) = True"
| "admin_only _ = False"

lemmas workspace_handlers =
  WorkspacesController_get_def
  WorkspacesController_members_def
  WorkspacesController_updateRole_def
  WorkspacesController_removeMember_def
  InvitationsController_invite_def
  InvitationsController_list_def
  InvitationsController_revoke_def
  ProjectsController_create_def
  ProjectsController_list_def
  ProjectsController_get_def
  ProjectsController_update_def
  ProjectsController_remove_def
  TasksController_create_def
  TasksController_list_def
  TasksController_get_def
  TasksController_subtree_def
  TasksController_move_def
  TasksController_update_def
  TasksController_remove_def
  CommentsController_create_def
  CommentsController_list_def
  CommentsController_update_def
  CommentsController_remove_def
  ActivityController_list_def

lemmas user_handlers =
  WorkspacesController_create_def
  WorkspacesController_listMine_def
  InvitationsController_accept_def
  NotificationsController_list_def
  NotificationsController_unreadCount_def
  NotificationsController_markRead_def
  NotificationsController_markAllRead_def

section \<open>Who gets through the guards\<close>

lemma void_iff: "void m s = (r, s') \<longleftrightarrow> (\<exists>x. m s = (x, s') \<and> r = map_sum id (\<lambda>_. ()) x)"
  by (cases "m s") (auto simp: void_def bindM_def ret_def split: sum.splits)

lemma member_guard_unfold:
  assumes "rq_user req = Some u" and "rq_params_workspaceId req = Some w" and "w \<noteq> []" and "he_pg_uuid env w"
  shows "WorkspaceMemberGuard_canActivate env req =
    bindM (WorkspacesService_getMembership (he_cache env) (he_date env) w (au_userId u)) (\<lambda>membership.
      case membership of None \<Rightarrow> throw (Forbidden ''You are not a member of this workspace'') | Some m \<Rightarrow> ret m)"
  using assms
  by (simp add: WorkspaceMemberGuard_canActivate_def guardM_def Let_def split_def)

text \<open>While the cache is current, the guard decides by the members there are.\<close>

lemma member_guard_decides:
  assumes "membership_cache (he_cache env)" and "cache_current (he_cache env) (c, s)" and "no_colon (au_userId u)"
    and "rq_user req = Some u" and "rq_params_workspaceId req = Some w" and "w \<noteq> []" and "he_pg_uuid env w"
  shows "\<exists>c'. cache_current (he_cache env) (c', s) \<and> WorkspaceMemberGuard_canActivate env req (c, s) =
    (case find_member w (au_userId u) s of
       None \<Rightarrow> (Inl (Forbidden ''You are not a member of this workspace''), (c', s))
     | Some m \<Rightarrow> (Inr m, (c', s)))"
proof -
  obtain c' where c': "WorkspacesService_getMembership (he_cache env) (he_date env) w (au_userId u) (c, s) =
      (Inr (find_member w (au_userId u) s), (c', s))" "cache_current (he_cache env) (c', s)"
    using membership_cache.getMembership_cases [OF assms(1-3), of "he_date env" w] by blast
  then show ?thesis
    by (intro exI [of _ c']) (simp add: member_guard_unfold [OF assms(4-7)] bindM_def throw_def ret_def split: option.split)
qed

lemma workspace_route_refused:
  assumes "membership_cache (he_cache env)" and "cache_current (he_cache env) (c, s)" and "no_colon (au_userId u)"
    and "rq_user req = Some u" and "rq_params_workspaceId req = Some w" and "w \<noteq> []" and "he_pg_uuid env w"
    and "find_member w (au_userId u) s = None \<or>
      (\<exists>m. find_member w (au_userId u) s = Some m \<and> roles = Some [ADMIN] \<and> m_role m \<noteq> ADMIN)"
  shows "\<exists>c'. workspace_route env roles req ps h (c, s) =
    (Inl (Forbidden (if find_member w (au_userId u) s = None then ''You are not a member of this workspace''
                     else ''Insufficient workspace role'')), (c', s))"
proof -
  obtain c' where "WorkspaceMemberGuard_canActivate env req (c, s) =
    (case find_member w (au_userId u) s of
       None \<Rightarrow> (Inl (Forbidden ''You are not a member of this workspace''), (c', s))
     | Some m \<Rightarrow> (Inr m, (c', s)))"
    using member_guard_decides [OF assms(1-7)] by blast
  with assms(8) show ?thesis
    by (intro exI [of _ c'])
      (auto simp: workspace_route_def JwtAuthGuard_def assms(4) bindM_def ret_def RolesGuard_canActivate_def
        guardM_def throw_def)
qed

lemma refused_void:
  "\<exists>c'. m (c, s) = (Inl e, (c', s)) \<Longrightarrow> \<exists>c'. void m (c, s) = (Inl e, (c', s))"
  by (auto simp: void_iff)

text \<open>Every handler of a workspace is behind the guards that its route names.\<close>

lemma handle_refused:
  assumes "membership_cache (he_cache env)" and "cache_current (he_cache env) (c, s)" and "no_colon (au_userId u)"
    and "rq_user req = Some u" and "rq_params_workspaceId req = Some w" and "w \<noteq> []" and "he_pg_uuid env w"
    and e: "workspace_scoped e"
    and no: "find_member w (au_userId u) s = None \<or>
      (\<exists>m. find_member w (au_userId u) s = Some m \<and> admin_only e \<and> m_role m \<noteq> ADMIN)"
  shows "\<exists>c'. handle env req e (c, s) =
    (Inl (Forbidden (if find_member w (au_userId u) s = None then ''You are not a member of this workspace''
                     else ''Insufficient workspace role'')), (c', s))"
  by (insert e, cases e; simp only: handle.simps workspace_scoped.simps workspace_handlers simp_thms;
      rule refused_void; rule workspace_route_refused [OF assms(1-7)]; insert no; simp)

section \<open>Every request keeps the invariant\<close>

definition valid_endpoint :: "endpoint \<Rightarrow> bool" where
  "valid_endpoint e = (case e of
     CreateTask p dto nid now \<Rightarrow> valid_create_task dto
   | CreateComment p t dto nid now \<Rightarrow> valid_create_comment dto
   | _ \<Rightarrow> True)"

lemma keeps_void: "keeps I m \<Longrightarrow> keeps I (void m)"
  unfolding void_def by (intro keeps_bindM keeps_ret)

lemma reading_keeps:
  "keeps I (WorkspacesService_listForUser u)" "keeps I (WorkspacesService_findByIdOrFail w)"
  "keeps I (WorkspacesService_listMembers w)" "keeps I (InvitationsService_listForWorkspace w)"
  "keeps I (ProjectsService_list cs w st lim c)" "keeps I (ProjectsService_findOneOrFail w p)"
  "keeps I (TasksService_list cs w p q lim c)" "keeps I (TasksService_findOneOrFail w p t)"
  "keeps I (TasksService_getSubtree w p t)" "keeps I (CommentsService_list cs w p t q' lim c)"
  "keeps I (CommentsService_findOneOrFail w p t i)" "keeps I (ActivityService_listForTask cs w p t lim c)"
  "keeps I (NotificationsService_list cs u ur lim c)" "keeps I (NotificationsService_unreadCount u)"
  unfolding WorkspacesService_listForUser_def WorkspacesService_findByIdOrFail_def WorkspacesService_listMembers_def
    InvitationsService_listForWorkspace_def ProjectsService_list_def ProjectsService_findOneOrFail_def
    TasksService_list_def TasksService_findOneOrFail_def tasks_find_in_project_def TasksService_getSubtree_def run_cte_def
    CommentsService_list_def CommentsService_findOneOrFail_def comments_find_on_task_def
    ActivityService_listForTask_def NotificationsService_list_def NotificationsService_unreadCount_def
  by (auto simp: Let_def split: option.split prod.split intro!: keeps_intros)

lemma InvitationsService_revoke_keeps: "keeps app_ok (InvitationsService_revoke w i)"
  by (rule keepsI) (auto dest: InvitationsService_revoke_cases)

lemmas services_keep =
  WorkspacesService_create_keeps WorkspacesService_updateMemberRole_keeps WorkspacesService_removeMember_keeps
  InvitationsService_invite_keeps InvitationsService_accept_keeps InvitationsService_revoke_keeps
  ProjectsService_create_ok ProjectsService_update_ok ProjectsService_remove_ok
  TasksService_create_keeps TasksService_moveTask_keeps TasksService_update_keeps TasksService_remove_keeps
  CommentsService_create_keeps CommentsService_update_keeps CommentsService_remove_keeps
  NotificationsService_markRead_keeps NotificationsService_markAllRead_keeps reading_keeps

section \<open>Every request keeps the cache current\<close>

text \<open>A service that loses or changes no membership keeps the cache current.\<close>

definition has_member :: "uuid \<Rightarrow> uuid \<Rightarrow> member \<Rightarrow> app \<Rightarrow> bool" where
  "has_member w u x s \<longleftrightarrow> find_member w u s = Some x"

definition keeps_members :: "(app, 'a) svc \<Rightarrow> bool" where
  "keeps_members m \<longleftrightarrow> (\<forall>w u x. keeps (has_member w u x) m)"

lemma keeps_membersI:
  "(\<And>w u x. keeps (has_member w u x) m) \<Longrightarrow> keeps_members m"
  by (simp add: keeps_members_def)

lemma on_db_current:
  assumes m: "keeps_members m"
  shows "keeps (cache_current ops) (on_db m)"
proof (rule keepsI)
  fix cs r cs'
  assume cur: "cache_current ops cs" and run: "on_db m cs = (r, cs')"
  obtain c s where cs: "cs = (c, s)" by (cases cs)
  from run obtain s' where s': "m s = (r, s')" and cs': "cs' = (c, s')" by (auto simp: cs on_db_iff)
  have "find_member w u s = Some x \<Longrightarrow> find_member w u s' = Some x" for w u x
    using keepsD [OF m [unfolded keeps_members_def, rule_format, of w u x] _ s'] by (simp add: has_member_def)
  with cur show "cache_current ops cs'" by (simp add: cache_current_def cs cs')
qed

lemma members_other:
  "members (delete_project i s) = members s" "members (delete_comment i s) = members s"
  "members (delete_tasks P s) = members s" "members (emit e s) = members s" "members (fold emit es s) = members s"
proof -
  show "members (fold emit es s) = members s" by (induction es arbitrary: s) (simp_all add: emit_def)
qed (simp_all add: delete_project_def delete_comment_def delete_tasks_def emit_def Let_def)

lemma has_member_cong: "members s' = members s \<Longrightarrow> has_member w u x s' = has_member w u x s"
  by (simp add: find_member_def has_member_def)

lemma insert_member_keeps_found:
  assumes "insert_member m s = Inr s'" and "find_member w u s = Some x"
  shows "find_member w u s' = Some x"
proof -
  have "\<not> exists_row (\<lambda>y. m_workspaceId y = m_workspaceId m \<and> m_userId y = m_userId m) (members s)"
    using assms(1) by (auto simp: insert_member_def)
  then have "find_member (m_workspaceId m) (m_userId m) s = None"
    by (simp add: find_member_def exists_row_find)
  with assms show ?thesis by (auto simp: find_member_insert [OF assms(1)])
qed

text \<open>Each write of a service, other than a change of a membership.\<close>

lemma keeps_members_writes:
  "(\<And>s s'. f s = Inr s' \<Longrightarrow> members s' = members s) \<Longrightarrow> keeps (has_member w u x) (writes f)"
  by (rule keeps_writes) (simp add: has_member_def find_member_def)

lemma keeps_members_modifies:
  "(\<And>s. members (f s) = members s) \<Longrightarrow> keeps (has_member w u x) (modifies f)"
  by (rule keeps_modifies) (simp add: has_member_def find_member_def)

lemma writes_members:
  "keeps (has_member w u x) (writes (insert_workspace a))" "keeps (has_member w u x) (writes (insert_invitation i))"
  "keeps (has_member w u x) (writes (insert_project p))" "keeps (has_member w u x) (writes (update_project p))"
  "keeps (has_member w u x) (writes (insert_task t))" "keeps (has_member w u x) (writes (update_task t))"
  "keeps (has_member w u x) (writes (insert_comment c))" "keeps (has_member w u x) (writes (enforce cs))"
  by (rule keeps_members_writes; simp add: insert_workspace_def insert_invitation_def insert_project_def
      update_project_def insert_task_def update_task_def insert_comment_def; elim conjE; simp)+

lemma insert_member_members: "keeps (has_member w u x) (writes (insert_member m))"
  by (rule keeps_writes) (auto simp: has_member_def intro: insert_member_keeps_found)

lemma modifies_members:
  "keeps (has_member w u x) (modifies (emit e))" "keeps (has_member w u x) (modifies (fold emit es))"
  "keeps (has_member w u x) (modifies (delete_project i))" "keeps (has_member w u x) (modifies (delete_comment i))"
  "keeps (has_member w u x) (modifies (delete_tasks P))"
  "keeps (has_member w u x) (modifies (\<lambda>s. s\<lparr>invitations := f1 s\<rparr>))"
  "keeps (has_member w u x) (modifies (\<lambda>s. s\<lparr>comments := f2 s\<rparr>))"
  "keeps (has_member w u x) (modifies (\<lambda>s. s\<lparr>notifications := f3 s\<rparr>))"
  by (rule keeps_members_modifies, simp add: members_other)+

lemma keeps_transaction [keeps_intros]: "keeps I m \<Longrightarrow> keeps I (transaction m)"
  by (auto simp: keeps_def transaction_def split: prod.splits sum.splits)

lemmas members_rules = keeps_intros writes_members insert_member_members modifies_members reading_keeps

lemma services_keep_members:
  "keeps_members (WorkspacesService_create u dto1 wid mid now)"
  "keeps_members (InvitationsService_invite w u dto2 token iid d now)"
  "keeps_members (InvitationsService_accept u email token mid d now)"
  "keeps_members (InvitationsService_revoke w i)"
  "keeps_members (ProjectsService_create w u dto3 nid now)"
  "keeps_members (ProjectsService_update w p dto4 now)"
  "keeps_members (ProjectsService_remove w p)"
  "keeps_members (TasksService_create w p u dto5 nid now)"
  "keeps_members (TasksService_update w p t u dto6 now)"
  "keeps_members (TasksService_remove w p t)"
  "keeps_members (TasksService_moveTask w p t np now)"
  "keeps_members (CommentsService_create w p t u dto7 nid now)"
  "keeps_members (CommentsService_update w p t i u body now)"
  "keeps_members (CommentsService_remove w p t i u role)"
  "keeps_members (NotificationsService_markRead u i d)"
  "keeps_members (NotificationsService_markAllRead u d)"
  unfolding WorkspacesService_create_def InvitationsService_invite_def InvitationsService_accept_def
    InvitationsService_revoke_def save_invitation_def ProjectsService_create_def ProjectsService_update_def
    save_project_def ProjectsService_remove_def TasksService_create_def TasksService_update_def save_task_def
    TasksService_remove_def TasksService_moveTask_def TasksService_depthOf_def run_cte_def CommentsService_create_def CommentsService_update_def
    save_comment_def CommentsService_remove_def comments_find_on_task_def tasks_find_in_project_def
    NotificationsService_markRead_def NotificationsService_markAllRead_def Let_def
  by (rule keeps_membersI, auto split: option.split prod.split intro!: members_rules)+

lemma reading_keeps_members: "(\<And>I. keeps I m) \<Longrightarrow> keeps_members m"
  by (simp add: keeps_members_def)

lemmas readings_keep_members = reading_keeps [THEN reading_keeps_members]

text \<open>What a request leaves behind: data that satisfy the invariant, and a cache that agrees with them.\<close>

definition served :: "'c cache_ops \<Rightarrow> 'c \<times> app \<Rightarrow> bool" where
  "served ops cs \<longleftrightarrow> app_ok (snd cs) \<and> cache_current ops cs"

text \<open>The cache behaves as one, and neither a UUID nor the id in a token holds a colon.\<close>

definition env_ok :: "'c http_env \<Rightarrow> bool" where
  "env_ok env \<longleftrightarrow> membership_cache (he_cache env) \<and> (\<forall>x. he_parse_uuid env x \<longrightarrow> no_colon x)"

definition request_ok :: "request \<Rightarrow> bool" where
  "request_ok req \<longleftrightarrow> (\<forall>u. rq_user req = Some u \<longrightarrow> no_colon (au_userId u))"

lemma keeps_conj: "keeps I m \<Longrightarrow> keeps J m \<Longrightarrow> keeps (\<lambda>s. I s \<and> J s) m"
  by (auto simp: keeps_def)

lemma served_on_db: "keeps app_ok m \<Longrightarrow> keeps_members m \<Longrightarrow> keeps (served ops) (on_db m)"
  unfolding served_def by (intro keeps_conj keeps_on_db on_db_current)

lemma served_lookup:
  assumes "membership_cache ops" and "no_colon u"
  shows "keeps (served ops) (\<lambda>(c, s). if b c then WorkspacesService_getMembership ops d w u (c, s) else (Inl e, (c, s)))"
proof (rule keepsI)
  fix cs r cs'
  assume I: "served ops cs" and run: "(\<lambda>(c, s). if b c then WorkspacesService_getMembership ops d w u (c, s) else (Inl e, (c, s))) cs = (r, cs')"
  obtain c s where cs: "cs = (c, s)" by (cases cs)
  from I have "app_ok s" "cache_current ops (c, s)" by (simp_all add: served_def cs)
  with membership_cache.getMembership_cases [OF assms(1) this(2) assms(2), of d w] run
  show "served ops cs'" by (auto simp: served_def cs split: if_splits)
qed

lemma served_guard:
  assumes "env_ok env" and "request_ok req"
  shows "keeps (served (he_cache env)) (WorkspaceMemberGuard_canActivate env req)"
  using assms unfolding WorkspaceMemberGuard_canActivate_def Let_def
  by (auto simp: env_ok_def request_ok_def split: option.split intro!: keeps_intros served_lookup)

lemma keeps_guarded: "(b \<Longrightarrow> keeps I m) \<Longrightarrow> keeps I (bindM (guardM b e) (\<lambda>_. m))"
  by (cases b) (simp_all add: keeps_def bindM_def guardM_def ret_def throw_def)

lemma served_workspace_route:
  assumes "env_ok env" and "request_ok req"
    and h: "\<And>w u m. list_all (he_parse_uuid env) ps \<Longrightarrow> keeps (served (he_cache env)) (h w u m)"
  shows "keeps (served (he_cache env)) (workspace_route env roles req ps h)"
  unfolding workspace_route_def JwtAuthGuard_def RolesGuard_canActivate_def ParseUUIDPipes_def Let_def
  by (auto split: option.split intro!: keeps_bindM keeps_ret keeps_throw keeps_guardM keeps_if keeps_guarded
      served_guard [OF assms(1,2)] h)

lemma served_user_route:
  "(\<And>u. keeps (served ops) (h u)) \<Longrightarrow> keeps (served ops) (user_route env req ps h)"
  unfolding user_route_def JwtAuthGuard_def ParseUUIDPipes_def
  by (auto split: option.split intro!: keeps_intros)

lemma served_member_changes:
  assumes "env_ok env" and "list_all (he_parse_uuid env) [u]"
  shows "keeps (served (he_cache env)) (WorkspacesService_updateMemberRole (he_cache env) w u role)"
    and "keeps (served (he_cache env)) (WorkspacesService_removeMember (he_cache env) w u)"
proof -
  have ops: "membership_cache (he_cache env)" and u: "no_colon u" using assms by (auto simp: env_ok_def)
  show "keeps (served (he_cache env)) (WorkspacesService_updateMemberRole (he_cache env) w u role)"
  proof (rule keepsI)
    fix cs r cs' assume I: "served (he_cache env) cs"
      and run: "WorkspacesService_updateMemberRole (he_cache env) w u role cs = (r, cs')"
    show "served (he_cache env) cs'"
      using I run updateMemberRole_current [OF ops _ _ u, of "snd cs" "fst cs" w role r cs']
        keepsD [OF WorkspacesService_updateMemberRole_keeps _ run]
      by (simp add: served_def)
  qed
  show "keeps (served (he_cache env)) (WorkspacesService_removeMember (he_cache env) w u)"
  proof (rule keepsI)
    fix cs r cs' assume I: "served (he_cache env) cs"
      and run: "WorkspacesService_removeMember (he_cache env) w u cs = (r, cs')"
    show "served (he_cache env) cs'"
      using I run removeMember_current [OF ops _ _ u, of "snd cs" "fst cs" w r cs']
        keepsD [OF WorkspacesService_removeMember_keeps _ run]
      by (simp add: served_def)
  qed
qed

lemma handle_served:
  assumes "env_ok env" and "request_ok req" and "valid_endpoint e"
  shows "keeps (served (he_cache env)) (handle env req e)"
  using assms(3)
  by (cases e)
    (auto simp: valid_endpoint_def workspace_handlers user_handlers
      intro!: keeps_void served_workspace_route [OF assms(1,2)] served_user_route served_on_db
        served_member_changes [OF assms(1)] services_keep services_keep_members readings_keep_members)

end
