(* ===== verification/Routes.thy ===== *)
theory Routes
  imports Api
begin

text \<open>
  The routes of the API as the decorators of the controllers declare them (\<open>src/modules/*/*.controller.ts\<close>, with the
  prefix of \<open>main.ts\<close>): verb, path, guards, roles and status.  Nest registers them module by module, and Express,
  documented as here, serves a request with the first route whose verb and path match, letters in either case.
\<close>

section \<open>Declarations\<close>

datatype verb = GET | POST | PATCH | DELETE

datatype guard = JwtAuth | WorkspaceMember | Roles

record method_decl =
  me_verb :: verb
  me_path :: string
  me_guards :: "guard list"
  me_roles :: "workspace_role list option"
  me_code :: "nat option"
  me_name :: string

record controller_decl =
  cd_class :: string
  cd_prefix :: string
  cd_guards :: "guard list"
  cd_methods :: "method_decl list"

definition route_decl :: "verb \<Rightarrow> string \<Rightarrow> guard list \<Rightarrow> workspace_role list option \<Rightarrow> nat option \<Rightarrow> string \<Rightarrow> method_decl" where
  "route_decl v p gs rs code name =
     \<lparr>me_verb = v, me_path = p, me_guards = gs, me_roles = rs, me_code = code, me_name = name\<rparr>"

section \<open>The controllers\<close>

definition HealthController_routes :: controller_decl where
  "HealthController_routes = \<lparr>cd_class = ''HealthController'', cd_prefix = ''health'',
     cd_guards = [],
     cd_methods = [
       route_decl GET ''live'' [] None None ''live'',
       route_decl GET '''' [] None None ''ready'']\<rparr>"

definition UsersController_routes :: controller_decl where
  "UsersController_routes = \<lparr>cd_class = ''UsersController'', cd_prefix = ''users'',
     cd_guards = [],
     cd_methods = [
       route_decl GET ''me'' [JwtAuth] None None ''me'']\<rparr>"

definition AuthController_routes :: controller_decl where
  "AuthController_routes = \<lparr>cd_class = ''AuthController'', cd_prefix = ''auth'',
     cd_guards = [],
     cd_methods = [
       route_decl POST ''signup'' [] None None ''signup'',
       route_decl POST ''login'' [] None (Some 200) ''login'',
       route_decl POST ''refresh'' [] None (Some 200) ''refresh'',
       route_decl POST ''logout'' [] None (Some 204) ''logout'']\<rparr>"

definition WorkspacesController_routes :: controller_decl where
  "WorkspacesController_routes = \<lparr>cd_class = ''WorkspacesController'', cd_prefix = ''workspaces'',
     cd_guards = [JwtAuth],
     cd_methods = [
       route_decl POST '''' [] None None ''create'',
       route_decl GET '''' [] None None ''listMine'',
       route_decl GET '':workspaceId'' [WorkspaceMember] None None ''get'',
       route_decl GET '':workspaceId/members'' [WorkspaceMember] None None ''members'',
       route_decl PATCH '':workspaceId/members/:userId'' [WorkspaceMember, Roles] (Some [ADMIN]) None ''updateRole'',
       route_decl DELETE '':workspaceId/members/:userId'' [WorkspaceMember, Roles] (Some [ADMIN]) (Some 204) ''removeMember'']\<rparr>"

definition InvitationsController_routes :: controller_decl where
  "InvitationsController_routes = \<lparr>cd_class = ''InvitationsController'', cd_prefix = '''',
     cd_guards = [JwtAuth],
     cd_methods = [
       route_decl POST ''workspaces/:workspaceId/invitations'' [WorkspaceMember, Roles] (Some [ADMIN]) None ''invite'',
       route_decl GET ''workspaces/:workspaceId/invitations'' [WorkspaceMember, Roles] (Some [ADMIN]) None ''list'',
       route_decl DELETE ''workspaces/:workspaceId/invitations/:invitationId'' [WorkspaceMember, Roles] (Some [ADMIN]) (Some 204) ''revoke'',
       route_decl POST ''invitations/accept'' [] None None ''accept'']\<rparr>"

definition ProjectsController_routes :: controller_decl where
  "ProjectsController_routes = \<lparr>cd_class = ''ProjectsController'', cd_prefix = ''workspaces/:workspaceId/projects'',
     cd_guards = [JwtAuth, WorkspaceMember, Roles],
     cd_methods = [
       route_decl POST '''' [] None None ''create'',
       route_decl GET '''' [] None None ''list'',
       route_decl GET '':projectId'' [] None None ''get'',
       route_decl PATCH '':projectId'' [] None None ''update'',
       route_decl DELETE '':projectId'' [] (Some [ADMIN]) (Some 204) ''remove'']\<rparr>"

definition TasksController_routes :: controller_decl where
  "TasksController_routes = \<lparr>cd_class = ''TasksController'', cd_prefix = ''workspaces/:workspaceId/projects/:projectId/tasks'',
     cd_guards = [JwtAuth, WorkspaceMember],
     cd_methods = [
       route_decl POST '''' [] None None ''create'',
       route_decl GET '''' [] None None ''list'',
       route_decl GET '':taskId'' [] None None ''get'',
       route_decl GET '':taskId/subtree'' [] None None ''subtree'',
       route_decl PATCH '':taskId/move'' [] None None ''move'',
       route_decl PATCH '':taskId'' [] None None ''update'',
       route_decl DELETE '':taskId'' [] None (Some 204) ''remove'']\<rparr>"

definition CommentsController_routes :: controller_decl where
  "CommentsController_routes = \<lparr>cd_class = ''CommentsController'', cd_prefix = ''workspaces/:workspaceId/projects/:projectId/tasks/:taskId/comments'',
     cd_guards = [JwtAuth, WorkspaceMember],
     cd_methods = [
       route_decl POST '''' [] None None ''create'',
       route_decl GET '''' [] None None ''list'',
       route_decl PATCH '':commentId'' [] None None ''update'',
       route_decl DELETE '':commentId'' [] None (Some 204) ''remove'']\<rparr>"

definition ActivityController_routes :: controller_decl where
  "ActivityController_routes = \<lparr>cd_class = ''ActivityController'', cd_prefix = ''workspaces/:workspaceId/projects/:projectId/tasks/:taskId/activity'',
     cd_guards = [JwtAuth, WorkspaceMember],
     cd_methods = [
       route_decl GET '''' [] None None ''list'']\<rparr>"

definition NotificationsController_routes :: controller_decl where
  "NotificationsController_routes = \<lparr>cd_class = ''NotificationsController'', cd_prefix = ''notifications'',
     cd_guards = [JwtAuth],
     cd_methods = [
       route_decl GET '''' [] None None ''list'',
       route_decl GET ''unread-count'' [] None None ''unreadCount'',
       route_decl PATCH '':id/read'' [] None None ''markRead'',
       route_decl POST ''read-all'' [] None (Some 200) ''markAllRead'']\<rparr>"

definition RemindersController_routes :: controller_decl where
  "RemindersController_routes = \<lparr>cd_class = ''RemindersController'', cd_prefix = ''reminders'',
     cd_guards = [JwtAuth],
     cd_methods = [
       route_decl POST ''scan'' [] None (Some 200) ''scan'']\<rparr>"

text \<open>In the order in which the root module imports their modules.\<close>

definition controllers :: "controller_decl list" where
  "controllers = [HealthController_routes,
     UsersController_routes,
     AuthController_routes,
     WorkspacesController_routes,
     InvitationsController_routes,
     ProjectsController_routes,
     TasksController_routes,
     CommentsController_routes,
     ActivityController_routes,
     NotificationsController_routes,
     RemindersController_routes]"

section \<open>The router\<close>

datatype segment = Lit string | Param string

fun split_slash :: "string \<Rightarrow> string \<Rightarrow> string list" where
  "split_slash acc [] = [rev acc]"
| "split_slash acc (c # cs) = (if c = CHR ''/'' then rev acc # split_slash [] cs else split_slash (c # acc) cs)"

fun segment_of :: "string \<Rightarrow> segment" where
  "segment_of [] = Lit []"
| "segment_of (c # cs) = (if c = CHR '':'' then Param cs else Lit (c # cs))"

definition path_of :: "string \<Rightarrow> segment list" where
  "path_of p = map segment_of (filter (\<lambda>x. x \<noteq> []) (split_slash [] p))"

record route =
  rt_verb :: verb
  rt_path :: "segment list"
  rt_guards :: "guard list"
  rt_roles :: "workspace_role list option"
  rt_status :: nat
  rt_handler :: "string \<times> string"

definition setGlobalPrefix :: "segment list \<Rightarrow> segment list" where
  "setGlobalPrefix p = Lit ''api'' # p"

text \<open>The guards of the class come before those of the method; without \<open>@HttpCode\<close> a POST answers 201 and the others 200.\<close>

definition route_of :: "controller_decl \<Rightarrow> method_decl \<Rightarrow> route" where
  "route_of c m = \<lparr>rt_verb = me_verb m, rt_path = setGlobalPrefix (path_of (cd_prefix c) @ path_of (me_path m)),
     rt_guards = cd_guards c @ me_guards m, rt_roles = me_roles m,
     rt_status = (case me_code m of Some k \<Rightarrow> k | None \<Rightarrow> if me_verb m = POST then 201 else 200),
     rt_handler = (cd_class c, me_name m)\<rparr>"

definition routes :: "route list" where
  "routes = concat (map (\<lambda>c. map (route_of c) (cd_methods c)) controllers)"

fun segment_matches :: "segment \<Rightarrow> string \<Rightarrow> bool" where
  "segment_matches (Lit l) u \<longleftrightarrow> ci_eq l u"
| "segment_matches (Param n) u \<longleftrightarrow> u \<noteq> []"

definition matches :: "verb \<Rightarrow> string list \<Rightarrow> route \<Rightarrow> bool" where
  "matches v url r \<longleftrightarrow> rt_verb r = v \<and> list_all2 segment_matches (rt_path r) url"

definition dispatch :: "verb \<Rightarrow> string list \<Rightarrow> route option" where
  "dispatch v url = List.find (matches v url) routes"

section \<open>No route hides another\<close>

fun clash :: "segment \<Rightarrow> segment \<Rightarrow> bool" where
  "clash (Lit a) (Lit b) \<longleftrightarrow> a \<noteq> b"
| "clash _ _ \<longleftrightarrow> False"

fun apart :: "segment list \<Rightarrow> segment list \<Rightarrow> bool" where
  "apart (a # p) (b # q) \<longleftrightarrow> clash a b \<or> apart p q"
| "apart [] [] \<longleftrightarrow> False"
| "apart _ _ \<longleftrightarrow> True"

definition separate :: "route \<Rightarrow> route \<Rightarrow> bool" where
  "separate r q \<longleftrightarrow> rt_verb r \<noteq> rt_verb q \<or> length (rt_path r) \<noteq> length (rt_path q) \<or> apart (rt_path r) (rt_path q)"

text \<open>Every literal of the routes is in lower case.\<close>

fun lower_segment :: "segment \<Rightarrow> bool" where
  "lower_segment (Lit a) \<longleftrightarrow> toLowerCase a = a"
| "lower_segment (Param n) \<longleftrightarrow> True"

definition lower_route :: "route \<Rightarrow> bool" where
  "lower_route r \<longleftrightarrow> list_all lower_segment (rt_path r)"

lemma clash_sound:
  "clash a b \<Longrightarrow> lower_segment a \<Longrightarrow> lower_segment b \<Longrightarrow> segment_matches a u \<Longrightarrow> \<not> segment_matches b u"
  by (cases a; cases b) (auto simp: ci_eq_def)

lemma apart_sound:
  "apart p q \<Longrightarrow> list_all lower_segment p \<Longrightarrow> list_all lower_segment q \<Longrightarrow> list_all2 segment_matches p url \<Longrightarrow>
     \<not> list_all2 segment_matches q url"
  by (induction p q arbitrary: url rule: apart.induct) (auto simp: list_all2_Cons1 list_all2_Cons2 dest: clash_sound)

lemma separate_sound:
  "separate r q \<Longrightarrow> lower_route r \<Longrightarrow> lower_route q \<Longrightarrow> matches v url r \<Longrightarrow> \<not> matches v url q"
  using list_all2_lengthD [of segment_matches "rt_path r" url] list_all2_lengthD [of segment_matches "rt_path q" url]
  by (auto simp: separate_def matches_def lower_route_def dest: apart_sound)

fun pairwise_separate :: "route list \<Rightarrow> bool" where
  "pairwise_separate [] \<longleftrightarrow> True"
| "pairwise_separate (r # rs) \<longleftrightarrow> list_all (separate r) rs \<and> pairwise_separate rs"

lemma find_separate:
  "pairwise_separate rs \<Longrightarrow> list_all lower_route rs \<Longrightarrow> r \<in> set rs \<Longrightarrow> matches v url r \<Longrightarrow>
     List.find (matches v url) rs = Some r"
  by (induction rs) (auto simp: list_all_iff dest: separate_sound)

lemma routes_separate: "pairwise_separate routes"
  by code_simp

lemma routes_lower: "list_all lower_route routes"
  by code_simp

section \<open>The guards of the routes\<close>

text \<open>The handlers that \<open>handle\<close> of \<open>Api\<close> models.\<close>

fun handler_of :: "endpoint \<Rightarrow> string \<times> string" where
  "handler_of (CreateWorkspace _ _ _ _) = (''WorkspacesController'', ''create'')"
| "handler_of ListWorkspaces = (''WorkspacesController'', ''listMine'')"
| "handler_of GetWorkspace = (''WorkspacesController'', ''get'')"
| "handler_of ListMembers = (''WorkspacesController'', ''members'')"
| "handler_of (UpdateRole _ _) = (''WorkspacesController'', ''updateRole'')"
| "handler_of (RemoveMember _) = (''WorkspacesController'', ''removeMember'')"
| "handler_of (Invite _ _ _ _) = (''InvitationsController'', ''invite'')"
| "handler_of ListInvitations = (''InvitationsController'', ''list'')"
| "handler_of (RevokeInvitation _) = (''InvitationsController'', ''revoke'')"
| "handler_of (AcceptInvitation _ _ _) = (''InvitationsController'', ''accept'')"
| "handler_of (CreateProject _ _ _) = (''ProjectsController'', ''create'')"
| "handler_of (ListProjects _ _ _) = (''ProjectsController'', ''list'')"
| "handler_of (GetProject _) = (''ProjectsController'', ''get'')"
| "handler_of (UpdateProject _ _ _) = (''ProjectsController'', ''update'')"
| "handler_of (RemoveProject _) = (''ProjectsController'', ''remove'')"
| "handler_of (CreateTask _ _ _ _) = (''TasksController'', ''create'')"
| "handler_of (ListTasks _ _ _ _) = (''TasksController'', ''list'')"
| "handler_of (GetTask _ _) = (''TasksController'', ''get'')"
| "handler_of (GetSubtree _ _) = (''TasksController'', ''subtree'')"
| "handler_of (MoveTask _ _ _ _) = (''TasksController'', ''move'')"
| "handler_of (UpdateTask _ _ _ _) = (''TasksController'', ''update'')"
| "handler_of (RemoveTask _ _) = (''TasksController'', ''remove'')"
| "handler_of (CreateComment _ _ _ _ _) = (''CommentsController'', ''create'')"
| "handler_of (ListComments _ _ _ _ _) = (''CommentsController'', ''list'')"
| "handler_of (UpdateComment _ _ _ _ _) = (''CommentsController'', ''update'')"
| "handler_of (RemoveComment _ _ _) = (''CommentsController'', ''remove'')"
| "handler_of (ListActivity _ _ _ _) = (''ActivityController'', ''list'')"
| "handler_of (ListNotifications _ _ _) = (''NotificationsController'', ''list'')"
| "handler_of UnreadCount = (''NotificationsController'', ''unreadCount'')"
| "handler_of (MarkRead _) = (''NotificationsController'', ''markRead'')"
| "handler_of MarkAllRead = (''NotificationsController'', ''markAllRead'')"

definition public_handlers :: "(string \<times> string) list" where
  "public_handlers = [(''HealthController'', ''live''), (''HealthController'', ''ready''), (''AuthController'', ''signup''),
     (''AuthController'', ''login''), (''AuthController'', ''refresh''), (''AuthController'', ''logout'')]"

text \<open>
  The guards a path calls for: none on the public routes; the JWT guard first on all others; then the guard of the
  workspace when the path names one; the guard of roles after it where roles are asked for.
\<close>

fun guards_fit :: "bool \<Rightarrow> bool \<Rightarrow> guard list \<Rightarrow> bool" where
  "guards_fit member roles [] \<longleftrightarrow> False"
| "guards_fit member roles (g # gs) \<longleftrightarrow> g = JwtAuth \<and>
     (if \<not> member then gs = [] \<and> \<not> roles
      else gs = [WorkspaceMember, Roles] \<or> gs = [WorkspaceMember] \<and> \<not> roles)"

definition guarded :: "route \<Rightarrow> bool" where
  "guarded r \<longleftrightarrow>
     (if rt_handler r \<in> set public_handlers then rt_guards r = [] \<and> rt_roles r = None
      else guards_fit (Param ''workspaceId'' \<in> set (rt_path r)) (rt_roles r \<noteq> None) (rt_guards r))"

lemma routes_guarded: "list_all guarded routes"
  by code_simp

text \<open>What \<open>Api\<close> takes the guards of an endpoint to be is what its route declares.\<close>

definition declared_in :: "route list \<Rightarrow> bool \<times> bool \<times> string \<times> string \<Rightarrow> bool" where
  "declared_in rs d \<longleftrightarrow> (case d of (scoped, admin, h) \<Rightarrow>
     list_ex (\<lambda>r. rt_handler r = h \<and> (Param ''workspaceId'' \<in> set (rt_path r)) = scoped \<and>
       rt_roles r = (if admin then Some [ADMIN] else None)) rs)"

definition endpoint_guards :: "(bool \<times> bool \<times> string \<times> string) list" where
  "endpoint_guards = [
     (False, False, ''WorkspacesController'', ''create''),
     (False, False, ''WorkspacesController'', ''listMine''),
     (True, False, ''WorkspacesController'', ''get''),
     (True, False, ''WorkspacesController'', ''members''),
     (True, True, ''WorkspacesController'', ''updateRole''),
     (True, True, ''WorkspacesController'', ''removeMember''),
     (True, True, ''InvitationsController'', ''invite''),
     (True, True, ''InvitationsController'', ''list''),
     (True, True, ''InvitationsController'', ''revoke''),
     (False, False, ''InvitationsController'', ''accept''),
     (True, False, ''ProjectsController'', ''create''),
     (True, False, ''ProjectsController'', ''list''),
     (True, False, ''ProjectsController'', ''get''),
     (True, False, ''ProjectsController'', ''update''),
     (True, True, ''ProjectsController'', ''remove''),
     (True, False, ''TasksController'', ''create''),
     (True, False, ''TasksController'', ''list''),
     (True, False, ''TasksController'', ''get''),
     (True, False, ''TasksController'', ''subtree''),
     (True, False, ''TasksController'', ''move''),
     (True, False, ''TasksController'', ''update''),
     (True, False, ''TasksController'', ''remove''),
     (True, False, ''CommentsController'', ''create''),
     (True, False, ''CommentsController'', ''list''),
     (True, False, ''CommentsController'', ''update''),
     (True, False, ''CommentsController'', ''remove''),
     (True, False, ''ActivityController'', ''list''),
     (False, False, ''NotificationsController'', ''list''),
     (False, False, ''NotificationsController'', ''unreadCount''),
     (False, False, ''NotificationsController'', ''markRead''),
     (False, False, ''NotificationsController'', ''markAllRead'')]"

lemma declared_all: "let rs = routes in list_all (declared_in rs) endpoint_guards"
  by code_simp

lemma endpoint_declared: "declared_in routes (workspace_scoped e, admin_only e, handler_of e)"
proof -
  have "(workspace_scoped e, admin_only e, handler_of e) \<in> set endpoint_guards"
    by (cases e) (simp_all add: endpoint_guards_def)
  with declared_all show ?thesis by (simp add: Let_def list_all_iff)
qed

section \<open>Properties\<close>

text \<open>
  C24.  Every request is served by one handler and by the right guards: whatever route a URL matches is the one the
  router picks, none hiding another; the handler is public only for the health checks and the four requests of
  \<open>AuthController\<close>; a path with a workspace has the JWT guard and then the guard of its members before the handler,
  and a route that asks for roles has the guard that looks at them.
\<close>

theorem request_routed:
  assumes "r \<in> set routes" and "matches v url r"
  shows "dispatch v url = Some r \<and>
    (if rt_handler r \<in> set public_handlers then rt_guards r = []
     else guards_fit (Param ''workspaceId'' \<in> set (rt_path r)) (rt_roles r \<noteq> None) (rt_guards r))"
  using find_separate [OF routes_separate routes_lower assms] routes_guarded assms(1)
  by (auto simp: dispatch_def guarded_def list_all_iff split: if_splits)

theorem request_routed_witness:
  "dispatch DELETE [''api'', ''Workspaces'', ''w1'', ''members'', ''u2''] =
    Some (route_of WorkspacesController_routes (route_decl DELETE '':workspaceId/members/:userId'' [WorkspaceMember, Roles]
      (Some [ADMIN]) (Some 204) ''removeMember''))"
proof -
  let ?r = "route_of WorkspacesController_routes (route_decl DELETE '':workspaceId/members/:userId'' [WorkspaceMember, Roles]
      (Some [ADMIN]) (Some 204) ''removeMember'')"
  have "?r \<in> set routes" by (simp add: routes_def controllers_def WorkspacesController_routes_def)
  moreover have "matches DELETE [''api'', ''Workspaces'', ''w1'', ''members'', ''u2''] ?r" by code_simp
  ultimately show ?thesis using request_routed by blast
qed

end
