(* ===== verification/Access.thy ===== *)
theory Access
  imports Api Errors
begin

text \<open>
  What the guards are for: who gets through to a workspace's handlers, and what a change of a membership
  does to the next request.
\<close>

section \<open>What gets past the guards\<close>

lemma bindM_either:
  "bindM m f s = (r, s') \<longleftrightarrow> (\<exists>e. m s = (Inl e, s') \<and> r = Inl e) \<or> (\<exists>a t. m s = (Inr a, t) \<and> f a t = (r, s'))"
  by (auto simp: bindM_def split: prod.split sum.split)

lemma guard_passes:
  assumes "membership_cache (he_cache env)" and "cache_current (he_cache env) (c, s)" and "request_ok req"
    and "rq_params_workspaceId req = Some w"
    and run: "WorkspaceMemberGuard_canActivate env req (c, s) = (r, cs')"
  shows "snd cs' = s \<and>
    (\<forall>m. r = Inr m \<longrightarrow> (\<exists>u. rq_user req = Some u \<and> find_member w (au_userId u) s = Some m))"
proof (cases "rq_user req")
  case None
  with run show ?thesis by (auto simp: WorkspaceMemberGuard_canActivate_def throw_def)
next
  case (Some u)
  with assms(3) have u: "no_colon (au_userId u)" by (simp add: request_ok_def)
  from membership_cache.getMembership_cases [OF assms(1,2) u, of "he_date env" w]
  show ?thesis
    using run Some assms(4)
    by (auto simp: WorkspaceMemberGuard_canActivate_def bindM_either guardM_def throw_def ret_def
        split: if_splits option.splits)
qed

lemma workspace_route_passes:
  assumes "membership_cache (he_cache env)" and "cache_current (he_cache env) (c, s)" and "request_ok req"
    and "rq_params_workspaceId req = Some w"
    and run: "workspace_route env roles req ps h (c, s) = (r, cs')"
  shows "((\<exists>e. r = Inl e) \<and> snd cs' = s) \<or>
    (\<exists>u m. rq_user req = Some u \<and> find_member w (au_userId u) s = Some m \<and> (roles = Some [ADMIN] \<longrightarrow> m_role m = ADMIN))"
proof (cases "rq_user req")
  case None
  with run show ?thesis by (auto simp: workspace_route_def JwtAuthGuard_def bindM_either throw_def)
next
  case (Some u)
  obtain g t where g: "WorkspaceMemberGuard_canActivate env req (c, s) = (g, t)" by (metis surj_pair)
  note pass = guard_passes [OF assms(1-4) g]
  show ?thesis
  proof (cases g)
    case (Inl e)
    with run g Some pass show ?thesis by (auto simp: workspace_route_def JwtAuthGuard_def bindM_either ret_def)
  next
    case (Inr m)
    with pass Some have m: "find_member w (au_userId u) s = Some m" "snd t = s" by auto
    from run g Inr Some m show ?thesis
      by (auto simp: workspace_route_def JwtAuthGuard_def bindM_either ret_def RolesGuard_canActivate_def
          guardM_def throw_def Let_def split: if_splits)
  qed
qed

lemma handle_passes:
  assumes "membership_cache (he_cache env)" and "cache_current (he_cache env) (c, s)" and "request_ok req"
    and "rq_params_workspaceId req = Some w" and e: "workspace_scoped e"
    and run: "handle env req e (c, s) = (r, cs')"
  shows "((\<exists>e. r = Inl e) \<and> snd cs' = s) \<or>
    (\<exists>u m. rq_user req = Some u \<and> find_member w (au_userId u) s = Some m \<and> (admin_only e \<longrightarrow> m_role m = ADMIN))"
  by (insert e run, cases e; simp add: workspace_handlers void_iff; elim exE conjE; drule workspace_route_passes [OF assms(1-4)]; auto)

text \<open>What reaches the handler behind the guards and the pipes.\<close>

lemma workspace_route_Inr:
  assumes env: "env_ok env" and req: "request_ok req" and I: "served (he_cache env) (c, s)"
    and w: "rq_params_workspaceId req = Some w"
    and run: "workspace_route env roles req ps h (c, s) = (Inr x, cs')"
  shows "\<exists>u m c2. list_all (he_parse_uuid env) ps \<and> served (he_cache env) (c2, s) \<and> h w u m (c2, s) = (Inr x, cs')"
proof -
  have ops: "membership_cache (he_cache env)" and cur: "cache_current (he_cache env) (c, s)"
    using env I by (simp_all add: env_ok_def served_def)
  from run obtain u m t where u: "rq_user req = Some u"
    and g: "WorkspaceMemberGuard_canActivate env req (c, s) = (Inr m, t)"
    and rest: "bindM (RolesGuard_canActivate roles (Some (m_role m))) (\<lambda>_.
       bindM (ParseUUIDPipes env (w # ps)) (\<lambda>_. h w u m)) t = (Inr x, cs')"
    by (auto simp: workspace_route_def JwtAuthGuard_def bindM_either ret_def throw_def w Let_def split: option.splits)
  have t: "t = (fst t, s)" using guard_passes [OF ops cur req w g] by (cases t) auto
  have "served (he_cache env) t" by (rule keepsD [OF served_guard [OF env req] I g])
  with rest t show ?thesis
    by (intro exI [of _ u] exI [of _ m] exI [of _ "fst t"])
      (auto simp: bindM_either RolesGuard_canActivate_def ParseUUIDPipes_def guardM_def ret_def throw_def
        split: option.splits if_splits)
qed

lemma void_Inr: "void m s = (Inr (), s') \<longleftrightarrow> (\<exists>x. m s = (Inr x, s'))"
  by (auto simp: void_def bindM_def ret_def split: sum.splits prod.splits)

lemma removal_takes_effect:
  assumes "env_ok env" and "request_ok req" and "served (he_cache env) (c, s)"
    and "rq_params_workspaceId req = Some w"
    and run: "handle env req (RemoveMember v) (c, s) = (Inr (), (c', s'))"
  shows "no_colon v \<and> find_member w v s' = None"
proof -
  from run have "workspace_route env (Some [ADMIN]) req [v]
      (\<lambda>w _ _. WorkspacesService_removeMember (he_cache env) w v) (c, s) = (Inr (), (c', s'))"
    by (simp add: void_Inr WorkspacesController_removeMember_def)
  from workspace_route_Inr [OF assms(1-4) this] obtain c2 where
    v: "he_parse_uuid env v" and I: "served (he_cache env) (c2, s)"
    and call: "WorkspacesService_removeMember (he_cache env) w v (c2, s) = (Inr (), (c', s'))"
    by auto
  from WorkspacesService_removeMember_runs [OF call] obtain m where
    m: "find_member w v s = Some m" "s' = delete_member (m_id m) s" by auto
  have "app_ok s" using I by (simp add: served_def)
  from removal_find [OF this m(1)] m(2) v assms(1) show ?thesis by (simp add: env_ok_def)
qed

lemma demotion_takes_effect:
  assumes "env_ok env" and "request_ok req" and "served (he_cache env) (c, s)"
    and "rq_params_workspaceId req = Some w"
    and run: "handle env req (UpdateRole v role) (c, s) = (Inr (), (c', s'))"
  shows "no_colon v \<and> (\<exists>m. find_member w v s' = Some m \<and> m_role m = role)"
proof -
  from run obtain x where "workspace_route env (Some [ADMIN]) req [v]
      (\<lambda>w _ _. WorkspacesService_updateMemberRole (he_cache env) w v role) (c, s) = (Inr x, (c', s'))"
    by (auto simp: void_Inr WorkspacesController_updateRole_def)
  from workspace_route_Inr [OF assms(1-4) this] obtain c2 where
    v: "he_parse_uuid env v" and I: "served (he_cache env) (c2, s)"
    and call: "WorkspacesService_updateMemberRole (he_cache env) w v role (c2, s) = (Inr x, (c', s'))"
    by auto
  from WorkspacesService_updateMemberRole_runs [OF call] obtain m y where
    m: "find_member w v s = Some m" "y \<in> set (workspaces s)" "w_id y = w" "w_ownerId y \<noteq> v"
    and s': "s' = s\<lparr>members := update_row m_id (m\<lparr>m_role := role\<rparr>) (members s)\<rparr>" by auto
  have "app_ok s" using I by (simp add: served_def)
  from role_change_find [OF this m(1) role_change_ok [OF this m]] s' v assms(1)
  show ?thesis by (simp add: env_ok_def)
qed

text \<open>A service that sees the requests of the example: ids as they are, the cache in memory.\<close>

definition ex_http :: "(string \<times> member \<times> js_date) list http_env" where
  "ex_http = \<lparr>he_cache = memory_cache, he_date = 0, he_parse_uuid = no_colon, he_pg_uuid = no_colon,
     he_casts = epoch_casts\<rparr>"

definition ex_request :: "uuid \<Rightarrow> request" where
  "ex_request u = \<lparr>rq_user = Some \<lparr>au_userId = u, au_email = ''b@x''\<rparr>, rq_params_workspaceId = Some ''w1'',
     rq_body_workspaceId = None\<rparr>"

lemma ex_http_ok: "env_ok ex_http"
  by (simp add: env_ok_def ex_http_def memory.membership_cache_axioms)

lemma ex_request_ok: "no_colon u \<Longrightarrow> request_ok (ex_request u)"
  by (simp add: request_ok_def ex_request_def)

lemma ex_served: "served memory_cache ([], ex_app)"
  by (simp add: served_def ex_app_ok cache_current_def memory_cache_def)

section \<open>Properties\<close>


lemmas ex_evals = ex_http_def ex_request_def void_def workspace_route_def JwtAuthGuard_def
  WorkspaceMemberGuard_canActivate_def RolesGuard_canActivate_def ParseUUIDPipes_def guardM_def throw_def ret_def
  bindM_def Let_def WorkspacesService_getMembership_def memory_cache_def membershipKey_def no_colon_def
  find_member_def MEMBERSHIP_TTL_MS_def



lemma ex_removed:
  "\<exists>c' s'. handle ex_http (ex_request ''u1'') (RemoveMember ''u2'') ([], ex_app) = (Inr (), (c', s'))"
  by (simp add: WorkspacesController_removeMember_def WorkspacesService_removeMember_def member_to_change_def
      WorkspacesService_findByIdOrFail_def invalidateMembership_def on_db_def reads_def modifies_def ex_evals ex_app_def)


text \<open>
  The guard of a workspace reads the raw path parameter before \<open>ParseUUIDPipe\<close> has checked it: an id that is
  no UUID to the database makes every route of a workspace fail in the query, an internal error, where the routes
  document a 400.
\<close>

theorem malformed_workspace_id:
  assumes "rq_user req = Some u" and "rq_params_workspaceId req = Some w" and "w \<noteq> []" and "\<not> he_pg_uuid env w"
    and "cache_get (he_cache env) c (he_date env) (membershipKey w (au_userId u)) = None"
    and "workspace_scoped e"
  shows "handle env req e (c, s) = (Inl (QueryFailed (InvalidText w)), (c, s)) \<and>
    eb_statusCode (fst (AllExceptionsFilter_catch nest inc uuid now (QueryFailed (InvalidText w)))) = 500"
proof -
  have "WorkspaceMemberGuard_canActivate env req (c, s) = (Inl (QueryFailed (InvalidText w)), (c, s))"
    using assms by (simp add: WorkspaceMemberGuard_canActivate_def bindM_def guardM_def ret_def)
  then have "workspace_route env roles req ps h (c, s) = (Inl (QueryFailed (InvalidText w)), (c, s))"
    for roles ps and h :: "uuid \<Rightarrow> auth_user \<Rightarrow> member \<Rightarrow> ('a \<times> app, 'b) svc"
    using assms(1) by (simp add: workspace_route_def JwtAuthGuard_def bindM_def ret_def)
  note route = this
  have "handle env req e (c, s) = (Inl (QueryFailed (InvalidText w)), (c, s))"
    by (insert assms(6), cases e) (simp_all add: workspace_handlers void_iff route)
  then show ?thesis by (simp add: inner_error_status)
qed

theorem malformed_workspace_id_witness:
  "handle ex_http ((ex_request ''u1'')\<lparr>rq_params_workspaceId := Some ''a:b''\<rparr>) GetWorkspace ([], ex_app) =
    (Inl (QueryFailed (InvalidText ''a:b'')), ([], ex_app))"
  by (rule malformed_workspace_id [THEN conjunct1, of _ "\<lparr>au_userId = ''u1'', au_email = ''b@x''\<rparr>"])
    (simp_all add: ex_request_def ex_http_def no_colon_def memory_cache_def)

end
