(* ===== verification/Tenancy.thy ===== *)
theory Tenancy
  imports Access
begin

text \<open>
  Tenants: the rows that belong to one workspace, and that a request to another workspace leaves them alone.
\<close>

section \<open>The rows of a workspace\<close>

definition own_projects :: "uuid \<Rightarrow> app \<Rightarrow> project set" where
  "own_projects x s = set (filter (\<lambda>p. p_workspaceId p = x) (projects s))"

definition own_tasks :: "uuid \<Rightarrow> app \<Rightarrow> task set" where
  "own_tasks x s = set (filter (\<lambda>t. t_projectId t \<in> p_id ` own_projects x s) (tasks s))"

definition own_comments :: "uuid \<Rightarrow> app \<Rightarrow> comment set" where
  "own_comments x s = set (filter (\<lambda>c. c_taskId c \<in> t_id ` own_tasks x s) (comments s))"

definition own_access :: "uuid \<Rightarrow> app \<Rightarrow> workspace set \<times> member set \<times> invitation set" where
  "own_access x s = (set (filter (\<lambda>w. w_id w = x) (workspaces s)), set (filter (\<lambda>m. m_workspaceId m = x) (members s)),
     set (filter (\<lambda>i. i_workspaceId i = x) (invitations s)))"

definition same_tenant :: "uuid \<Rightarrow> app \<Rightarrow> app \<Rightarrow> bool" where
  "same_tenant x s s' \<longleftrightarrow> own_access x s' = own_access x s \<and> own_projects x s' = own_projects x s \<and>
     own_tasks x s' = own_tasks x s \<and> own_comments x s' = own_comments x s"

lemmas tenant_defs = same_tenant_def own_access_def own_projects_def own_tasks_def own_comments_def

lemma same_tenant_refl [simp]: "same_tenant x s s"
  by (simp add: same_tenant_def)

lemma same_tenant_emit [simp]: "same_tenant x s (emit e s') = same_tenant x s s'"
  by (simp add: tenant_defs emit_def)

lemma same_tenant_fold_emit [simp]: "same_tenant x s (fold emit es s') = same_tenant x s s'"
  by (simp add: tenant_defs fold_emit)

lemma same_tenant_bus [simp]: "same_tenant x s (s'\<lparr>bus := b\<rparr>) = same_tenant x s s'"
  by (simp add: tenant_defs)

section \<open>Changes elsewhere\<close>

text \<open>A project of another workspace.\<close>

definition elsewhere :: "uuid \<Rightarrow> uuid \<Rightarrow> app \<Rightarrow> bool" where
  "elsewhere x p s \<longleftrightarrow> p \<notin> p_id ` own_projects x s"

lemma other_project:
  assumes ok: "app_ok s" and q: "q \<in> set (projects s)" "p_workspaceId q \<noteq> x"
  shows "elsewhere x (p_id q) s"
proof -
  have "distinct (map p_id (projects s))" using ok by (simp add: app_ok_def projects_ok_def)
  from distinct_key_eq [OF this _ q(1)] q(2) show ?thesis by (auto simp: elsewhere_def own_projects_def)
qed

lemma other_task:
  assumes ok: "app_ok s" and t: "t \<in> set (tasks s)" "elsewhere x (t_projectId t) s"
  shows "t_id t \<notin> t_id ` own_tasks x s"
  using distinct_key_eq [OF app_ok_tasks(2) [OF ok] _ t(1)] t(2) by (auto simp: own_tasks_def elsewhere_def)

lemma task_appended:
  "elsewhere x (t_projectId t) s \<Longrightarrow> same_tenant x s (s\<lparr>tasks := tasks s @ [t]\<rparr>)"
  by (auto simp: tenant_defs elsewhere_def)

lemma task_rewritten:
  assumes "app_ok s" and "t \<in> set (tasks s)" and "elsewhere x (t_projectId t) s" and "t_id r = t_id t"
    and "t_projectId r = t_projectId t"
  shows "same_tenant x s (s\<lparr>tasks := update_row t_id r (tasks s)\<rparr>)"
proof -
  have ps: "own_projects x (s\<lparr>tasks := update_row t_id r (tasks s)\<rparr>) = own_projects x s" by (simp add: own_projects_def)
  have "own_tasks x (s\<lparr>tasks := update_row t_id r (tasks s)\<rparr>) = own_tasks x s"
    using distinct_key_eq [OF app_ok_tasks(2) [OF assms(1)] _ assms(2)] assms(3-5)
    by (auto simp: own_tasks_def ps elsewhere_def set_update_row) (metis image_eqI)+
  then show ?thesis by (simp add: same_tenant_def own_comments_def own_access_def own_projects_def)
qed

lemma tasks_deleted:
  assumes ok: "app_ok s" and D: "\<And>a. D a \<Longrightarrow> \<exists>t \<in> set (tasks s). t_id t = a \<and> elsewhere x (t_projectId t) s"
  shows "same_tenant x s (delete_tasks D s)"
proof -
  let ?s = "delete_tasks D s"
  have F: "forest t_id t_parentTaskId (tasks s)" and sp: "same_project (tasks s)"
    using ok by (simp_all add: app_ok_def tasks_ok_def)
  have ps: "own_projects x ?s = own_projects x s" by (simp add: own_projects_def)
  have "\<not> (D a \<and> under (task_up s) a (t_id t))" if t: "t \<in> own_tasks x s" for a t
  proof
    assume a: "D a \<and> under (task_up s) a (t_id t)"
    with D obtain u where u: "u \<in> set (tasks s)" "t_id u = a" "elsewhere x (t_projectId u) s" by blast
    have "t_projectId t = t_projectId u"
      using group_climb [OF F _ _ u(1)] sp t a u(2) by (auto simp: under_def same_project_def own_tasks_def)
    with t u(3) show False by (auto simp: own_tasks_def elsewhere_def)
  qed
  then have ts: "own_tasks x ?s = own_tasks x s"
    by (auto simp: own_tasks_def ps set_delete_tasks(1) [OF ok])
  have "c_taskId c \<in> t_id ` set (tasks ?s)" if "c_taskId c \<in> t_id ` own_tasks x s" for c
    using that ts by (auto simp: own_tasks_def)
  then have "own_comments x ?s = own_comments x s"
    by (auto simp: own_comments_def ts set_delete_tasks(2) [OF ok] has_id_def)
  with ps ts show ?thesis by (simp add: same_tenant_def own_access_def)
qed

lemma delete_project_moves:
  "delete_project i s = (delete_tasks (\<lambda>j. exists_row (\<lambda>t. t_id t = j \<and> t_projectId t = i) (tasks s)) s)
     \<lparr>projects := filter (\<lambda>p. p_id p \<noteq> i) (projects s)\<rparr>"
  by (simp add: delete_project_def delete_tasks_def Let_def)

lemma same_tenant_projects:
  assumes "same_tenant x s s'" and "own_projects x (s\<lparr>projects := ps\<rparr>) = own_projects x s"
  shows "same_tenant x s (s'\<lparr>projects := ps\<rparr>)"
proof -
  let ?s = "s'\<lparr>projects := ps\<rparr>"
  have ps: "own_projects x ?s = own_projects x s'"
    using assms by (simp add: same_tenant_def own_projects_def)
  then have ts: "own_tasks x ?s = own_tasks x s'" by (simp add: own_tasks_def)
  then have "own_comments x ?s = own_comments x s'" by (simp add: own_comments_def)
  with ps ts assms(1) show ?thesis by (simp add: same_tenant_def own_access_def)
qed

lemma comment_appended:
  "c_taskId c \<notin> t_id ` own_tasks x s \<Longrightarrow> same_tenant x s (s\<lparr>comments := comments s @ [c]\<rparr>)"
  by (auto simp: tenant_defs)

lemma comment_rewritten:
  assumes "app_ok s" and "c \<in> set (comments s)" and "c_taskId c \<notin> t_id ` own_tasks x s" and "c_id r = c_id c"
    and "c_taskId r = c_taskId c"
  shows "same_tenant x s (s\<lparr>comments := update_row c_id r (comments s)\<rparr>)"
proof -
  let ?s = "s\<lparr>comments := update_row c_id r (comments s)\<rparr>"
  have ts: "own_projects x ?s = own_projects x s" "own_tasks x ?s = own_tasks x s"
    by (simp_all add: own_projects_def own_tasks_def)
  have "own_comments x ?s = own_comments x s"
    using distinct_key_eq [OF app_ok_comments(2) [OF assms(1)] _ assms(2)] assms(3-5)
    by (auto simp: own_comments_def ts set_update_row) (metis image_eqI)+
  with ts show ?thesis by (simp add: same_tenant_def own_access_def)
qed

lemma comment_deleted:
  assumes ok: "app_ok s" and c: "c \<in> set (comments s)" "c_taskId c \<notin> t_id ` own_tasks x s"
  shows "same_tenant x s (delete_comment (c_id c) s)"
proof -
  let ?s = "delete_comment (c_id c) s"
  have ts: "own_projects x ?s = own_projects x s" "own_tasks x ?s = own_tasks x s"
    by (simp_all add: own_projects_def own_tasks_def delete_comment_def)
  have F: "forest c_id c_parentCommentId (comments s)" and st: "same_task (comments s)"
    using app_ok_comments [OF ok] by simp_all
  have "c_taskId d = c_taskId c"
    if "d \<in> set (comments s)" "under (parent_of c_id c_parentCommentId (comments s)) (c_id c) (c_id d)" for d
    using group_climb [OF F _ that(1) c(1)] st that(2) by (auto simp: under_def same_task_def)
  moreover have "set (comments ?s) = {d \<in> set (comments s).
      \<not> under (parent_of c_id c_parentCommentId (comments s)) (c_id c) (c_id d)}"
    by (simp add: delete_comment_def set_cascade [OF F])
  ultimately have "own_comments x ?s = own_comments x s"
    using c(2) by (auto simp: own_comments_def ts)
  with ts show ?thesis by (simp add: same_tenant_def own_access_def delete_comment_def)
qed

section \<open>The services\<close>

definition isolates :: "uuid \<Rightarrow> (app, 'a) svc \<Rightarrow> bool" where
  "isolates x m \<longleftrightarrow> (\<forall>s r s'. app_ok s \<longrightarrow> m s = (r, s') \<longrightarrow> same_tenant x s s')"

lemma isolatesI: "(\<And>s r s'. app_ok s \<Longrightarrow> m s = (r, s') \<Longrightarrow> same_tenant x s s') \<Longrightarrow> isolates x m"
  by (simp add: isolates_def)

lemma reading_isolates: "(\<And>I. keeps I m) \<Longrightarrow> isolates x m"
proof (rule isolatesI)
  fix s r s' assume "\<And>I. keeps I m" and run: "m s = (r, s')"
  then have "keeps (\<lambda>t. t = s) m" by blast
  from keepsD [OF this refl run] show "same_tenant x s s'" by simp
qed

lemma found_elsewhere:
  assumes "app_ok s" and "w \<noteq> x" and "TasksService_findOneOrFail w p i s = (Inr t, s')"
  shows "s' = s \<and> t \<in> set (tasks s) \<and> t_id t = i \<and> elsewhere x (t_projectId t) s \<and> t_id t \<notin> t_id ` own_tasks x s"
proof -
  from TasksService_findOneOrFail_row [OF assms(3)] obtain q where
    t: "s' = s" "t \<in> set (tasks s)" "t_id t = i" "t_projectId t = p" and q: "q \<in> set (projects s)" "p_id q = p" "p_workspaceId q = w"
    by blast
  have e: "elsewhere x (t_projectId t) s" using other_project [OF assms(1) q(1)] q t(4) assms(2) by simp
  with t other_task [OF assms(1) t(2) e] show ?thesis by simp
qed

lemma found_refused: "TasksService_findOneOrFail w p i s = (Inl e, s') \<Longrightarrow> s' = s"
  by (auto simp: TasksService_findOneOrFail_def bindM_Inl_iff ProjectsService_findOneOrFail_Inr
      ProjectsService_findOneOrFail_Inl tasks_find_in_project_Inl)

lemma ProjectsService_update_isolates:
  assumes w: "w \<noteq> x"
  shows "isolates x (ProjectsService_update w p dto2 now)"
proof (rule isolatesI)
  fix s r s' assume ok: "app_ok s" and run: "ProjectsService_update w p dto2 now s = (r, s')"
  show "same_tenant x s s'"
  proof (cases r)
    case (Inl e)
    with ProjectsService_update_outcome [OF ok, of w p dto2 now] run show ?thesis
      by (auto simp: project_update_outcome_def split: http_error.splits)
  next
    case (Inr q)
    with ProjectsService_update_outcome [OF ok, of w p dto2 now] run
    have "project_update_outcome w p dto2 s (Inr q, s')" by simp
    then obtain p0 where
      p0: "p0 \<in> set (projects s)" "p_workspaceId p0 = w" "s' = s\<lparr>projects := update_row p_id q (projects s)\<rparr>"
      and "\<exists>n d st u. q = p0\<lparr>p_name := n, p_description := d, p_status := st, p_updatedAt := u\<rparr>"
      unfolding project_update_outcome_def prod.case sum.case by blast
    then have q: "p_id q = p_id p0" "p_workspaceId q = p_workspaceId p0" by auto
    have "distinct (map p_id (projects s))" using ok by (simp add: app_ok_def projects_ok_def)
    then have "own_projects x s' = own_projects x s"
      using distinct_key_eq [OF _ _ p0(1)] p0 q w by (auto simp: own_projects_def set_update_row)
    then show ?thesis using p0(3) by (simp add: same_tenant_def own_tasks_def own_comments_def own_access_def)
  qed
qed

lemma ProjectsService_remove_isolates:
  assumes w: "w \<noteq> x"
  shows "isolates x (ProjectsService_remove w p)"
proof (rule isolatesI)
  fix s r s' assume ok: "app_ok s" and run: "ProjectsService_remove w p s = (r, s')"
  show "same_tenant x s s'"
  proof (cases "\<exists>e. r = Inl e")
    case True
    with run show ?thesis
      by (auto simp: ProjectsService_remove_def bindM_Inl_iff ProjectsService_findOneOrFail_Inl)
  next
    case False
    with run obtain q where q: "q \<in> set (projects s)" "p_id q = p" "p_workspaceId q = w" "s' = delete_project p s"
      by (auto simp: ProjectsService_remove_def bindM_either dest!: ProjectsService_findOneOrFail_row)
    with other_project [OF ok q(1)] w have e: "elsewhere x p s" by simp
    have "p_id q' \<noteq> p" if "q' \<in> own_projects x s" for q' using e that by (auto simp: elsewhere_def)
    then have "own_projects x (s\<lparr>projects := filter (\<lambda>p'. p_id p' \<noteq> p) (projects s)\<rparr>) = own_projects x s"
      by (auto simp: own_projects_def)
    moreover have "same_tenant x s (delete_tasks (\<lambda>j. exists_row (\<lambda>t. t_id t = j \<and> t_projectId t = p) (tasks s)) s)"
      using e by (intro tasks_deleted [OF ok]) (auto simp: exists_row_def)
    ultimately show ?thesis
      by (simp add: q(4) delete_project_moves same_tenant_projects)
  qed
qed

lemma ProjectsService_create_isolates:
  "w \<noteq> x \<Longrightarrow> isolates x (ProjectsService_create w u dto nid now)"
  by (intro isolatesI) (auto simp: ProjectsService_create_def Let_def bindM_either insert_project_def tenant_defs)

lemmas projects_isolate = ProjectsService_create_isolates ProjectsService_update_isolates ProjectsService_remove_isolates

lemma TasksService_create_isolates:
  assumes w: "w \<noteq> x"
  shows "isolates x (TasksService_create w p u dto nid now)"
proof (rule isolatesI)
  fix s r s' assume ok: "app_ok s" and run: "TasksService_create w p u dto nid now s = (r, s')"
  let ?t = "\<lparr>t_id = nid, t_projectId = p, t_parentTaskId = ct_parentTaskId dto, t_title = ct_title dto,
      t_description = ct_description dto, t_status = TODO,
      t_priority = (case ct_priority dto of None \<Rightarrow> MEDIUM | Some p \<Rightarrow> p),
      t_assigneeId = ct_assigneeId dto, t_createdBy = u, t_dueDate = ct_dueDate dto, t_completedAt = None,
      t_createdAt = now, t_updatedAt = now\<rparr>"
  obtain pr s1 where find: "ProjectsService_findOneOrFail w p s = (pr, s1)" by (metis surj_pair)
  show "same_tenant x s s'"
  proof (cases pr)
    case (Inl e)
    then have "s1 = s" using find by (simp add: ProjectsService_findOneOrFail_Inl)
    with run find Inl show ?thesis by (simp add: TasksService_create_def bindM_def)
  next
    case (Inr q)
    with find have q: "q \<in> set (projects s)" "p_id q = p" "p_workspaceId q = w" and s1: "s1 = s"
      using ProjectsService_findOneOrFail_row by blast+
    have "elsewhere x (t_projectId ?t) s" using other_project [OF ok q(1)] q w by simp
    from task_appended [OF this] have new: "same_tenant x s s2" if "insert_task ?t s = Inr s2" for s2
      using that by (simp add: insert_task_def)
    show ?thesis
      using run
      by (auto simp: TasksService_create_def bindM_either find [unfolded Inr s1] Let_def tasks_find_in_project_Inr
          tasks_find_in_project_Inl
          split: if_splits dest!: new)
  qed
qed

lemma save_task_isolates:
  assumes ok: "app_ok s" and t: "t \<in> set (tasks s)" "elsewhere x (t_projectId t) s"
    and new: "t_id new = t_id t" "t_projectId new = t_projectId t"
    and run: "save_task now t new s = (r, s')"
  shows "same_tenant x s s'"
  using run task_rewritten [OF ok t, of "new\<lparr>t_updatedAt := now\<rparr>"] new
  by (auto simp: save_task_def Let_def bindM_either update_task_def split: if_splits)

lemma tasks_isolate:
  assumes w: "w \<noteq> x"
  shows "isolates x (TasksService_update w p i u dto2 now)" and "isolates x (TasksService_remove w p i)"
    and "isolates x (TasksService_moveTask w p i np now)"
proof -
  show "isolates x (TasksService_update w p i u dto2 now)"
  proof (rule isolatesI)
    fix s r s' assume ok: "app_ok s" and run: "TasksService_update w p i u dto2 now s = (r, s')"
    have saved: "same_tenant x s s2"
      if "save_task now t (apply_update dto2 d t) s = (q, s2)" "t \<in> set (tasks s)" "elsewhere x (t_projectId t) s" for t d q s2
      by (rule save_task_isolates [OF ok that(2,3) _ _ that(1)]) (simp_all add: apply_update_def)
    show "same_tenant x s s'"
      using run found_elsewhere [OF ok w, of p i]
      by (auto simp: TasksService_update_def bindM_either dest!: found_refused intro: saved)
  qed
  show "isolates x (TasksService_remove w p i)"
  proof (rule isolatesI)
    fix s r s' assume ok: "app_ok s" and run: "TasksService_remove w p i s = (r, s')"
    show "same_tenant x s s'"
      using run found_elsewhere [OF ok w, of p i]
      by (auto simp: TasksService_remove_def bindM_either intro!: tasks_deleted [OF ok] dest!: found_refused)
  qed
  show "isolates x (TasksService_moveTask w p i np now)"
  proof (rule isolatesI)
    fix s r s' assume ok: "app_ok s" and run: "TasksService_moveTask w p i np now s = (r, s')"
    obtain f s1 where find: "TasksService_findOneOrFail w p i s = (f, s1)" by (metis surj_pair)
    show "same_tenant x s s'"
    proof (cases f)
      case (Inl e)
      with find run show ?thesis by (auto simp: TasksService_moveTask_def bindM_either dest!: found_refused)
    next
      case (Inr t)
      note t = found_elsewhere [OF ok w find [unfolded Inr]]
      have "reachable_task w p t s" "t_id t = i"
        using find Inr by (auto simp: TasksService_findOneOrFail_found [OF ok])
      from moveTask_cases [OF ok this, of np now] run show ?thesis
        using t save_task_isolates [OF ok, of t x "t\<lparr>t_parentTaskId := np\<rparr>" now r s'] by (auto split: option.splits)
    qed
  qed
qed

lemma comment_found_elsewhere:
  assumes "app_ok s" and "w \<noteq> x" and "CommentsService_findOneOrFail w p t i s = (Inr c, s')"
  shows "s' = s \<and> c \<in> set (comments s) \<and> c_taskId c \<notin> t_id ` own_tasks x s"
proof -
  from assms(3) obtain a s1 where a: "TasksService_findOneOrFail w p t s = (Inr a, s1)"
    and c: "comments_find_on_task t i (NotFound ''Comment not found'') s1 = (Inr c, s')"
    by (auto simp: CommentsService_findOneOrFail_def bindM_Inr_iff)
  from c have "s' = s1" "c \<in> set (comments s1)" "c_taskId c = t"
    by (auto simp: comments_find_on_task_Inr dest: find_SomeD)
  with found_elsewhere [OF assms(1,2) a] show ?thesis by auto
qed

lemma comment_found_refused: "CommentsService_findOneOrFail w p t i s = (Inl e, s') \<Longrightarrow> s' = s"
  using found_refused TasksService_findOneOrFail_row
  by (fastforce simp: CommentsService_findOneOrFail_def bindM_Inl_iff comments_find_on_task_def)

lemma comments_isolate:
  assumes w: "w \<noteq> x"
  shows "isolates x (CommentsService_create w p t u dto nid now)"
    and "isolates x (CommentsService_update w p t i u body now)"
    and "isolates x (CommentsService_remove w p t i u role)"
proof -
  show "isolates x (CommentsService_create w p t u dto nid now)"
  proof (rule isolatesI)
    fix s r s' assume ok: "app_ok s" and run: "CommentsService_create w p t u dto nid now s = (r, s')"
    obtain f s1 where find: "TasksService_findOneOrFail w p t s = (f, s1)" by (metis surj_pair)
    show "same_tenant x s s'"
    proof (cases f)
      case (Inl e)
      then have "s1 = s" using find found_refused by blast
      with run find Inl show ?thesis by (simp add: CommentsService_create_def bindM_def)
    next
      case (Inr a)
      note a = found_elsewhere [OF ok w find [unfolded Inr]]
      have new: "same_tenant x s s2" if "insert_comment c s = Inr s2" "c_taskId c = t" for c s2
        using that a comment_appended [of c x s] by (auto simp: insert_comment_def)
      show ?thesis
        using run a
        by (auto simp: CommentsService_create_def bindM_either find [unfolded Inr] Let_def comments_find_on_task_def
            split: if_splits option.splits dest!: new)
    qed
  qed
  show "isolates x (CommentsService_update w p t i u body now)"
  proof (rule isolatesI)
    fix s r s' assume ok: "app_ok s" and run: "CommentsService_update w p t i u body now s = (r, s')"
    show "same_tenant x s s'"
      using run comment_found_elsewhere [OF ok w, of p t i]
      by (auto simp: CommentsService_update_def save_comment_def bindM_either Let_def dest!: comment_found_refused
          intro!: comment_rewritten [OF ok] split: if_splits)
  qed
  show "isolates x (CommentsService_remove w p t i u role)"
  proof (rule isolatesI)
    fix s r s' assume ok: "app_ok s" and run: "CommentsService_remove w p t i u role s = (r, s')"
    show "same_tenant x s s'"
      using run comment_found_elsewhere [OF ok w, of p t i]
      by (auto simp: CommentsService_remove_def bindM_either dest!: comment_found_refused
          intro!: comment_deleted [OF ok] split: if_splits)
  qed
qed

lemma invitations_isolate:
  assumes w: "w \<noteq> x"
  shows "isolates x (InvitationsService_invite w u dto token iid d now)" and "isolates x (InvitationsService_revoke w j)"
proof -
  show "isolates x (InvitationsService_invite w u dto token iid d now)"
  proof (rule isolatesI)
    fix s r s' assume ok: "app_ok s" and run: "InvitationsService_invite w u dto token iid d now s = (r, s')"
    have "same_tenant x s (s\<lparr>invitations := invitations s @ [new_invitation w u dto token iid d now]\<rparr>)"
      using w by (simp add: tenant_defs new_invitation_def)
    then show "same_tenant x s s'"
      using run by (auto simp: invite_cases [OF ok] insert_invitation_def split: if_splits sum.splits)
  qed
  show "isolates x (InvitationsService_revoke w j)"
  proof (rule isolatesI)
    fix s r s' assume ok: "app_ok s" and run: "InvitationsService_revoke w j s = (r, s')"
    have "same_tenant x s (s\<lparr>invitations := update_row i_id (i\<lparr>i_status := st\<rparr>) (invitations s)\<rparr>)"
      if i: "i \<in> set (invitations s)" "i_workspaceId i = w" for i st
      using distinct_key_eq [OF _ _ i(1), of i_id] app_ok_invitations [OF ok] i w
      by (auto simp: tenant_defs set_update_row)
    with InvitationsService_revoke_cases [OF ok run] show "same_tenant x s s'" by (auto split: sum.splits)
  qed
qed

section \<open>The requests\<close>

definition confined :: "uuid \<Rightarrow> ('c \<times> app, 'a) svc \<Rightarrow> bool" where
  "confined x m \<longleftrightarrow> (\<forall>cs r cs'. app_ok (snd cs) \<longrightarrow> m cs = (r, cs') \<longrightarrow> same_tenant x (snd cs) (snd cs'))"

lemma confinedI: "(\<And>c s r cs'. app_ok s \<Longrightarrow> m (c, s) = (r, cs') \<Longrightarrow> same_tenant x s (snd cs')) \<Longrightarrow> confined x m"
  by (auto simp: confined_def)

lemma confinedD: "confined x m \<Longrightarrow> app_ok s \<Longrightarrow> m (c, s) = (r, cs') \<Longrightarrow> same_tenant x s (snd cs')"
  unfolding confined_def by (metis snd_conv)

lemma on_db_confined: "isolates x m \<Longrightarrow> confined x (on_db m)"
  by (rule confinedI) (auto simp: isolates_def on_db_iff)

lemma member_rows_elsewhere:
  assumes ok: "app_ok s" and m: "find_member w u s = Some m" and w: "w \<noteq> x"
  shows "same_tenant x s (s\<lparr>members := update_row m_id (m\<lparr>m_role := role\<rparr>) (members s)\<rparr>)"
    and "same_tenant x s (delete_member (m_id m) s)"
proof -
  have m: "m \<in> set (members s)" "m_workspaceId m = w" using find_member_row [OF m] by blast+
  have other: "m_id y \<noteq> m_id m" if "y \<in> set (members s)" "m_workspaceId y = x" for y
    using distinct_key_eq [OF app_ok_members(1) [OF ok] that(1) m(1)] that(2) m(2) w by blast
  have "filter (\<lambda>m. m_workspaceId m = x) (update_row m_id (m\<lparr>m_role := role\<rparr>) ms) = filter (\<lambda>m. m_workspaceId m = x) ms"
      if "\<And>y. y \<in> set ms \<Longrightarrow> m_workspaceId y = x \<Longrightarrow> m_id y \<noteq> m_id m" "\<And>y. y \<in> set ms \<Longrightarrow> m_id y = m_id m \<Longrightarrow> y = m" for ms
    using that m(2) w by (induction ms) (auto simp: update_row_def)
  then show "same_tenant x s (s\<lparr>members := update_row m_id (m\<lparr>m_role := role\<rparr>) (members s)\<rparr>)"
    using other distinct_key_eq [OF app_ok_members(1) [OF ok] _ m(1)] by (simp add: tenant_defs)
  have "filter (\<lambda>y. m_workspaceId y = x \<and> m_id y \<noteq> m_id m) (members s) = filter (\<lambda>y. m_workspaceId y = x) (members s)"
    using other by (intro filter_cong) auto
  then show "same_tenant x s (delete_member (m_id m) s)"
    by (simp add: tenant_defs delete_member_def conj_commute)
qed

lemma member_changes_confined:
  assumes w: "w \<noteq> x"
  shows "confined x (WorkspacesService_updateMemberRole ops w u role)"
    and "confined x (WorkspacesService_removeMember ops w u)"
proof -
  show "confined x (WorkspacesService_updateMemberRole ops w u role)"
    using w by (intro confinedI)
      (auto dest!: WorkspacesService_updateMemberRole_runs intro: member_rows_elsewhere split: sum.splits)
  show "confined x (WorkspacesService_removeMember ops w u)"
    using w by (intro confinedI)
      (auto dest!: WorkspacesService_removeMember_runs intro: member_rows_elsewhere split: sum.splits)
qed

lemma guard_keeps_data:
  "keeps (\<lambda>cs. snd cs = s) (WorkspaceMemberGuard_canActivate env req)"
proof -
  have "keeps (\<lambda>cs. snd cs = s) (\<lambda>(c, s). if b c then WorkspacesService_getMembership ops d w u (c, s) else (Inl e, (c, s)))"
    for b ops d w u e
    by (rule keepsI) (auto simp: WorkspacesService_getMembership_def Let_def split: if_splits option.splits)
  then show ?thesis
    unfolding WorkspaceMemberGuard_canActivate_def Let_def
    by (auto split: option.split intro!: keeps_intros)
qed

lemma workspace_route_confined:
  assumes w: "rq_params_workspaceId req = Some w" and h: "\<And>u m. confined x (h w u m)"
  shows "confined x (workspace_route env roles req ps h)"
proof (rule confinedI)
  fix c s r cs' assume ok: "app_ok s" and run: "workspace_route env roles req ps h (c, s) = (r, cs')"
  show "same_tenant x s (snd cs')"
  proof (cases "rq_user req")
    case None
    with run show ?thesis by (simp add: workspace_route_def JwtAuthGuard_def)
  next
    case (Some u)
    obtain g c2 where g: "WorkspaceMemberGuard_canActivate env req (c, s) = (g, (c2, s))"
      using keepsD [OF guard_keeps_data, of "(c, s)" s env req] by (metis prod.collapse snd_conv)
    note handler = confinedD [OF h ok]
    show ?thesis
      using run
      by (cases g)
        (auto simp: workspace_route_def JwtAuthGuard_def Some bindM_either g RolesGuard_canActivate_def
          ParseUUIDPipes_def Let_def w split: option.splits if_splits dest: handler)
  qed
qed

lemma confined_void: "confined x m \<Longrightarrow> confined x (void m)"
  unfolding confined_def void_iff by blast

lemmas services_isolate = projects_isolate TasksService_create_isolates tasks_isolate comments_isolate invitations_isolate
  reading_keeps [THEN reading_isolates]

lemma handle_confined:
  assumes w: "rq_params_workspaceId req = Some w" and x: "w \<noteq> x" and e: "workspace_scoped e"
  shows "confined x (handle env req e)"
  by (insert e, cases e; simp add: workspace_handlers)
    (intro confined_void workspace_route_confined [OF w] on_db_confined member_changes_confined [OF x]
      services_isolate x; simp)+

section \<open>Properties\<close>

text \<open>
  C2.  Tenants are isolated: whatever a request to a route of one workspace does, with whatever ids of projects,
  tasks, comments, invitations and users in its path and body, it changes no row of any other workspace: not its
  settings, members and invitations, nor its projects, their tasks or the comments on them.
\<close>

theorem tenant_isolation:
  assumes "served (he_cache env) (c, s)" and "rq_params_workspaceId req = Some w" and "workspace_scoped e"
    and "x \<noteq> w" and "handle env req e (c, s) = (r, (c', s'))"
  shows "own_access x s' = own_access x s \<and> own_projects x s' = own_projects x s \<and>
    own_tasks x s' = own_tasks x s \<and> own_comments x s' = own_comments x s"
  using confinedD [OF handle_confined [OF assms(2) assms(4) [symmetric] assms(3)] _ assms(5)] assms(1)
  by (simp add: served_def same_tenant_def)

text \<open>A second workspace, with a task of its own.\<close>

definition ex_other_task :: task where
  "ex_other_task = (ex_task ''t9'' None None)\<lparr>t_projectId := ''p9''\<rparr>"

definition ex_two :: app where
  "ex_two = ex_app\<lparr>
     workspaces := workspaces ex_app @ [\<lparr>w_id = ''w9'', w_name = ''V'', w_slug = ''v'', w_ownerId = ''u3'',
                     w_createdAt = 0, w_updatedAt = 0\<rparr>],
     members := members ex_app @ [\<lparr>m_id = ''m9'', m_workspaceId = ''w9'', m_userId = ''u3'', m_role = ADMIN, m_joinedAt = 0\<rparr>],
     projects := projects ex_app @ [\<lparr>p_id = ''p9'', p_workspaceId = ''w9'', p_name = ''Q'', p_description = None,
                   p_status = ACTIVE, p_createdBy = ''u3'', p_createdAt = 0, p_updatedAt = 0\<rparr>],
     tasks := tasks ex_app @ [ex_other_task]\<rparr>"

lemma ex_two_ok: "app_ok ex_two"
proof -
  have "forest t_id t_parentTaskId (tasks ex_two)"
    by (rule forest_rank [of _ _ _ "\<lambda>i. if i = ''t2'' then 1 else 0"]) (auto simp: ex_two_def ex_other_task_def ex_defs)
  moreover have "forest c_id c_parentCommentId (comments ex_two)"
    by (rule forest_rank [of _ _ _ "\<lambda>i. if i = ''c2'' then 1 else 0"]) (auto simp: ex_two_def ex_defs)
  ultimately show ?thesis
    by (simp add: app_ok_def ex_two_def ex_other_task_def ex_app_def empty_app_def users_ok_def tokens_ok_def
        workspaces_ok_def members_ok_def owner_is_admin_def exists_row_def invitations_ok_def projects_ok_def tasks_ok_def
        same_project_def completed_iff_done_def comments_ok_def same_task_def activities_ok_def
        notifications_ok_def reminders_ok_def ex_defs has_id_def has_id_opt_def toLowerCase_def
        lower_char_def is_upper_char_def code_of_def)
qed

theorem tenant_isolation_witness:
  "\<exists>r c' s'. handle ex_http (ex_request ''u1'') (RemoveTask ''p9'' ''t9'') ([], ex_two) = (r, (c', s')) \<and>
    own_tasks ''w9'' s' = {ex_other_task}"
proof -
  obtain r c' s' where run: "handle ex_http (ex_request ''u1'') (RemoveTask ''p9'' ''t9'') ([], ex_two) = (r, (c', s'))"
    by (metis prod.collapse)
  have "served (he_cache ex_http) ([], ex_two)"
    by (simp add: served_def ex_two_ok ex_http_def cache_current_def memory_cache_def)
  from tenant_isolation [OF this _ _ _ run, of "''w1''" "''w9''"] have "own_tasks ''w9'' s' = own_tasks ''w9'' ex_two"
    by (simp add: ex_request_def)
  also have "\<dots> = {ex_other_task}"
    by (auto simp: own_tasks_def own_projects_def ex_two_def ex_other_task_def ex_app_def ex_defs empty_app_def)
  finally show ?thesis using run by blast
qed

end
