(* ===== verification/Views.thy ===== *)
theory Views
  imports Tenancy
begin

text \<open>
  What a member of a workspace can learn: two databases that agree on the rows of the workspace are indistinguishable
  to every \<open>GET\<close> below \<open>/workspaces/:workspaceId\<close>, errors included, whatever the rest of the tables hold.
\<close>

section \<open>Agreement on a workspace\<close>

definition agree :: "uuid \<Rightarrow> app \<Rightarrow> app \<Rightarrow> bool" where
  "agree x s t \<longleftrightarrow>
     filter (\<lambda>w. w_id w = x) (workspaces s) = filter (\<lambda>w. w_id w = x) (workspaces t) \<and>
     filter (\<lambda>m. m_workspaceId m = x) (members s) = filter (\<lambda>m. m_workspaceId m = x) (members t) \<and>
     filter (\<lambda>i. i_workspaceId i = x) (invitations s) = filter (\<lambda>i. i_workspaceId i = x) (invitations t) \<and>
     filter (\<lambda>p. p_workspaceId p = x) (projects s) = filter (\<lambda>p. p_workspaceId p = x) (projects t) \<and>
     filter (\<lambda>k. t_projectId k \<in> p_id ` own_projects x s) (tasks s) =
       filter (\<lambda>k. t_projectId k \<in> p_id ` own_projects x t) (tasks t) \<and>
     filter (\<lambda>c. c_taskId c \<in> t_id ` own_tasks x s) (comments s) =
       filter (\<lambda>c. c_taskId c \<in> t_id ` own_tasks x t) (comments t) \<and>
     filter (\<lambda>a. a_taskId a \<in> t_id ` own_tasks x s) (activities s) =
       filter (\<lambda>a. a_taskId a \<in> t_id ` own_tasks x t) (activities t) \<and>
     filter (\<lambda>u. \<exists>m \<in> set (members s). m_workspaceId m = x \<and> m_userId m = u_id u) (users s) =
       filter (\<lambda>u. \<exists>m \<in> set (members t). m_workspaceId m = x \<and> m_userId m = u_id u) (users t)"

text \<open>The same rows, found by a condition that only rows of the workspace satisfy.\<close>

lemma filter_within: "(\<And>r. r \<in> set l \<Longrightarrow> P r \<Longrightarrow> Q r) \<Longrightarrow> filter P (filter Q l) = filter P l"
  by (induction l) auto

lemma filter_agree:
  assumes "filter Q l = filter Q' l'" and "\<And>r. r \<in> set l \<Longrightarrow> P r \<Longrightarrow> Q r" and "\<And>r. r \<in> set l' \<Longrightarrow> P r \<Longrightarrow> Q' r"
  shows "filter P l = filter P l'"
  using assms(1) filter_within [of l P Q, OF assms(2)] filter_within [of l' P Q', OF assms(3)] by simp

lemma find_filter: "List.find P l = (case filter P l of [] \<Rightarrow> None | r # _ \<Rightarrow> Some r)"
  by (induction l) auto

lemma find_agree:
  assumes "filter Q l = filter Q' l'" and "\<And>r. r \<in> set l \<Longrightarrow> P r \<Longrightarrow> Q r" and "\<And>r. r \<in> set l' \<Longrightarrow> P r \<Longrightarrow> Q' r"
  shows "List.find P l = List.find P l'"
proof -
  have "filter P l = filter P l'" by (rule filter_agree [OF assms])
  then show ?thesis by (simp only: find_filter)
qed

lemma agreeD:
  assumes "agree x s t"
  shows "filter (\<lambda>w. w_id w = x) (workspaces s) = filter (\<lambda>w. w_id w = x) (workspaces t)"
    and "filter (\<lambda>m. m_workspaceId m = x) (members s) = filter (\<lambda>m. m_workspaceId m = x) (members t)"
    and "filter (\<lambda>i. i_workspaceId i = x) (invitations s) = filter (\<lambda>i. i_workspaceId i = x) (invitations t)"
    and "filter (\<lambda>p. p_workspaceId p = x) (projects s) = filter (\<lambda>p. p_workspaceId p = x) (projects t)"
    and "filter (\<lambda>k. t_projectId k \<in> p_id ` own_projects x s) (tasks s) =
       filter (\<lambda>k. t_projectId k \<in> p_id ` own_projects x t) (tasks t)"
    and "filter (\<lambda>c. c_taskId c \<in> t_id ` own_tasks x s) (comments s) =
       filter (\<lambda>c. c_taskId c \<in> t_id ` own_tasks x t) (comments t)"
    and "filter (\<lambda>a. a_taskId a \<in> t_id ` own_tasks x s) (activities s) =
       filter (\<lambda>a. a_taskId a \<in> t_id ` own_tasks x t) (activities t)"
    and "filter (\<lambda>u. \<exists>m \<in> set (members s). m_workspaceId m = x \<and> m_userId m = u_id u) (users s) =
       filter (\<lambda>u. \<exists>m \<in> set (members t). m_workspaceId m = x \<and> m_userId m = u_id u) (users t)"
    and "own_projects x s = own_projects x t" and "own_tasks x s = own_tasks x t"
proof -
  note all = assms [unfolded agree_def]
  show "filter (\<lambda>w. w_id w = x) (workspaces s) = filter (\<lambda>w. w_id w = x) (workspaces t)"
    and "filter (\<lambda>m. m_workspaceId m = x) (members s) = filter (\<lambda>m. m_workspaceId m = x) (members t)"
    and "filter (\<lambda>i. i_workspaceId i = x) (invitations s) = filter (\<lambda>i. i_workspaceId i = x) (invitations t)"
    and 4: "filter (\<lambda>p. p_workspaceId p = x) (projects s) = filter (\<lambda>p. p_workspaceId p = x) (projects t)"
    and 5: "filter (\<lambda>k. t_projectId k \<in> p_id ` own_projects x s) (tasks s) =
       filter (\<lambda>k. t_projectId k \<in> p_id ` own_projects x t) (tasks t)"
    and "filter (\<lambda>c. c_taskId c \<in> t_id ` own_tasks x s) (comments s) =
       filter (\<lambda>c. c_taskId c \<in> t_id ` own_tasks x t) (comments t)"
    and "filter (\<lambda>a. a_taskId a \<in> t_id ` own_tasks x s) (activities s) =
       filter (\<lambda>a. a_taskId a \<in> t_id ` own_tasks x t) (activities t)"
    and "filter (\<lambda>u. \<exists>m \<in> set (members s). m_workspaceId m = x \<and> m_userId m = u_id u) (users s) =
       filter (\<lambda>u. \<exists>m \<in> set (members t). m_workspaceId m = x \<and> m_userId m = u_id u) (users t)"
    by (insert all) (elim conjE; assumption)+
  show "own_projects x s = own_projects x t" by (simp only: own_projects_def 4)
  show "own_tasks x s = own_tasks x t" by (simp only: own_tasks_def 5)
qed

lemma agree_rows:
  assumes "agree x s t"
  shows "find_member x u s = find_member x u t"
    and "List.find (\<lambda>w. w_id w = x) (workspaces s) = List.find (\<lambda>w. w_id w = x) (workspaces t)"
    and "List.find (\<lambda>p. p_id p = i \<and> p_workspaceId p = x) (projects s) =
      List.find (\<lambda>p. p_id p = i \<and> p_workspaceId p = x) (projects t)"
    and "projects_scope x st s = projects_scope x st t"
  unfolding find_member_def projects_scope_def
  by (rule find_agree [OF agreeD(2) [OF assms]], simp, simp)
    (rule find_agree [OF agreeD(1) [OF assms]] find_agree [OF agreeD(4) [OF assms]] filter_agree [OF agreeD(4) [OF assms]];
      simp)+

lemma agree_tasks:
  assumes "agree x s t" and "p \<in> p_id ` own_projects x s"
  shows "List.find (\<lambda>k. t_id k = i \<and> t_projectId k = p) (tasks s) = List.find (\<lambda>k. t_id k = i \<and> t_projectId k = p) (tasks t)"
    and "tasks_scope p q s = tasks_scope p q t"
  unfolding tasks_scope_def
  by (rule find_agree [OF agreeD(5) [OF assms(1)]] filter_agree [OF agreeD(5) [OF assms(1)]];
      use assms(2) agreeD(9) [OF assms(1)] in simp)+

lemma agree_task_rows:
  assumes "agree x s t" and "i \<in> t_id ` own_tasks x s"
  shows "comments_scope i cq s = comments_scope i cq t" and "activity_scope i s = activity_scope i t"
  unfolding comments_scope_def activity_scope_def
  by (rule filter_agree [OF agreeD(6) [OF assms(1)]] filter_agree [OF agreeD(7) [OF assms(1)]];
      use assms(2) agreeD(10) [OF assms(1)] in simp)+

section \<open>The services\<close>

text \<open>A call that answers the same on databases that agree on a workspace, and changes neither.\<close>

definition same_view :: "uuid \<Rightarrow> (app, 'a) svc \<Rightarrow> bool" where
  "same_view x m \<longleftrightarrow>
     (\<forall>s t. app_ok s \<longrightarrow> app_ok t \<longrightarrow> agree x s t \<longrightarrow> (\<exists>r. m s = (r, s) \<and> m t = (r, t)))"

lemma same_viewD:
  assumes "same_view x m" and "app_ok s" and "app_ok t" and "agree x s t"
  obtains r where "m s = (r, s)" and "m t = (r, t)"
  using assms unfolding same_view_def by blast

lemma same_view_reads:
  "(\<And>s t. app_ok s \<Longrightarrow> app_ok t \<Longrightarrow> agree x s t \<Longrightarrow> f s = f t) \<Longrightarrow> same_view x (reads f)"
  unfolding same_view_def reads_def by blast

lemma same_view_bind:
  assumes m: "same_view x m"
    and f: "\<And>a s t. app_ok s \<Longrightarrow> app_ok t \<Longrightarrow> agree x s t \<Longrightarrow> m s = (Inr a, s) \<Longrightarrow>
      \<exists>r. f a s = (r, s) \<and> f a t = (r, t)"
  shows "same_view x (bindM m f)"
  unfolding same_view_def
proof (intro allI impI)
  fix s t assume st: "app_ok s" "app_ok t" "agree x s t"
  then obtain r where r: "m s = (r, s)" "m t = (r, t)" by (rule same_viewD [OF m])
  show "\<exists>r. bindM m f s = (r, s) \<and> bindM m f t = (r, t)"
    using r f [OF st] by (cases r) (simp_all add: bindM_def)
qed

lemma WorkspacesService_reads_same:
  "same_view x (WorkspacesService_findByIdOrFail x)" "same_view x (WorkspacesService_listMembers x)"
  "same_view x (InvitationsService_listForWorkspace x)"
proof -
  show "same_view x (WorkspacesService_findByIdOrFail x)"
    unfolding WorkspacesService_findByIdOrFail_def by (rule same_view_reads) (simp only: agree_rows(2))
  show "same_view x (InvitationsService_listForWorkspace x)"
    unfolding InvitationsService_listForWorkspace_def by (rule same_view_reads) (simp only: agreeD(3))
  show "same_view x (WorkspacesService_listMembers x)"
    unfolding WorkspacesService_listMembers_def
  proof (rule same_view_reads)
    fix s t assume st: "agree x s t"
    let ?ms = "\<lambda>s. filter (\<lambda>m. m_workspaceId m = x) (members s)"
    have "List.find (\<lambda>u. u_id u = m_userId m) (users s) = List.find (\<lambda>u. u_id u = m_userId m) (users t)"
      if "m \<in> set (?ms s)" for m
      using that agreeD(2) [OF st, THEN arg_cong [of _ _ set]] by (intro find_agree [OF agreeD(8) [OF st]]) auto
    then show "Inr (map (\<lambda>m. (m, List.find (\<lambda>u. u_id u = m_userId m) (users s))) (sort_key m_joinedAt (?ms s))) =
      Inr (map (\<lambda>m. (m, List.find (\<lambda>u. u_id u = m_userId m) (users t))) (sort_key m_joinedAt (?ms t)))"
      by (simp add: agreeD(2) [OF st, symmetric])
  qed
qed

lemma ProjectsService_reads_same:
  "same_view x (ProjectsService_list cs x st lim c)" "same_view x (ProjectsService_findOneOrFail x p)"
  unfolding ProjectsService_list_def ProjectsService_findOneOrFail_def
  by (rule same_view_reads; simp only: agree_rows(3,4))+

lemma found_project_own:
  "ProjectsService_findOneOrFail x p s = (Inr q, s') \<Longrightarrow> p \<in> p_id ` own_projects x s"
  by (force dest!: ProjectsService_findOneOrFail_row simp: own_projects_def)

lemma found_task_own:
  "TasksService_findOneOrFail x p i s = (Inr k, s') \<Longrightarrow> p \<in> p_id ` own_projects x s \<and> i \<in> t_id ` own_tasks x s"
  by (force dest!: TasksService_findOneOrFail_row simp: own_projects_def own_tasks_def)

lemma TasksService_reads_same:
  "same_view x (TasksService_list cs x p q lim c)" "same_view x (TasksService_findOneOrFail x p i)"
  unfolding TasksService_list_def TasksService_findOneOrFail_def tasks_find_in_project_def
  by (rule same_view_bind [OF ProjectsService_reads_same(2)];
      drule found_project_own; simp add: reads_def agree_tasks)+

lemma task_rows_same:
  "same_view x (CommentsService_list cs x p i cq lim c)" "same_view x (ActivityService_listForTask cs x p i lim c)"
  unfolding CommentsService_list_def ActivityService_listForTask_def
  by (rule same_view_bind [OF TasksService_reads_same(2)];
      drule found_task_own; simp add: reads_def agree_task_rows)+

section \<open>The subtree\<close>

text \<open>Two recursive queries whose steps agree on a set they do not leave.\<close>

lemma cte_agree:
  assumes "\<And>L. set L \<subseteq> W \<Longrightarrow> step L = step' L \<and> set (step L) \<subseteq> W" and "set level \<subseteq> W"
  shows "cte step n d level = cte step' n d level"
  using assms(2)
proof (induction n arbitrary: d level)
  case (Suc n)
  note step = assms(1) [OF Suc.prems]
  show ?case using Suc.IH [OF conjunct2 [OF step], of "Suc d"] conjunct1 [OF step] by simp
qed simp

lemma cte_fuels:
  "cte step n d level = Some L \<Longrightarrow> cte step m d level = Some L' \<Longrightarrow> L = L'"
  using cte_more [of step n d level L "max n m"] cte_more [of step m d level L' "max n m"] by simp

lemma children_own:
  assumes "app_ok s" and "k \<in> own_tasks x s" and "c \<in> set (tasks s)" and "t_parentTaskId c = Some (t_id k)"
  shows "t_projectId c \<in> p_id ` own_projects x s"
  using app_ok_tasks(3) [OF assms(1)] assms(2-4) by (auto simp: own_tasks_def same_project_def)

lemma join_down_agree:
  assumes s: "app_ok s" and t: "app_ok t" and st: "agree x s t" and L: "set L \<subseteq> own_tasks x s"
  shows "join_down t_id t_parentTaskId (tasks s) L = join_down t_id t_parentTaskId (tasks t) L \<and>
    set (join_down t_id t_parentTaskId (tasks s) L) \<subseteq> own_tasks x s"
proof -
  have "filter (\<lambda>c. t_parentTaskId c = Some (t_id k)) (tasks s) = filter (\<lambda>c. t_parentTaskId c = Some (t_id k)) (tasks t)"
    if "k \<in> set L" for k
    using that L agreeD(10) [OF st]
    by (intro filter_agree [OF agreeD(5) [OF st]] children_own [OF s] children_own [OF t]) auto
  then have "join_down t_id t_parentTaskId (tasks s) L = join_down t_id t_parentTaskId (tasks t) L"
    by (simp add: join_down_def cong: map_cong)
  moreover have "c \<in> own_tasks x s"
    if "k \<in> set L" "c \<in> set (tasks s)" "t_parentTaskId c = Some (t_id k)" for k c
    using that children_own [OF s _ that(2,3)] L by (auto simp: own_tasks_def)
  then have "set (join_down t_id t_parentTaskId (tasks s) L) \<subseteq> own_tasks x s"
    by (auto simp: join_down_def)
  ultimately show ?thesis ..
qed

lemma cte_subtree_agree:
  assumes s: "app_ok s" and t: "app_ok t" and st: "agree x s t" and p: "p \<in> p_id ` own_projects x s"
  shows "cte_subtree p i s = cte_subtree p i t"
proof -
  let ?level = "\<lambda>s. filter (\<lambda>k. t_id k = i \<and> t_projectId k = p) (tasks s)"
  have level: "?level s = ?level t"
    using p agreeD(9) [OF st] by (intro filter_agree [OF agreeD(5) [OF st]]) auto
  show ?thesis
  proof (cases "?level s")
    case Nil
    with level show ?thesis by (simp add: cte_subtree_def cte_fuel_def)
  next
    case (Cons a as)
    then have "set (?level s) \<noteq> {}" by simp
    then obtain a where a: "a \<in> set (tasks s)" "t_id a = i" "t_projectId a = p" by auto
    have "a \<in> set (?level t)" unfolding level [symmetric] using a by simp
    then have at: "a \<in> set (tasks t)" by simp
    have one: "?level s = [a]"
      using filter_by_id [OF app_ok_tasks(2) [OF s] a(1)] a(2,3) by (simp add: conj_commute flip: filter_filter)
    obtain L L' where L:
      "cte (join_down t_id t_parentTaskId (tasks s)) (cte_fuel (tasks s)) 0 [a] = Some L"
      "cte (join_down t_id t_parentTaskId (tasks t)) (cte_fuel (tasks t)) 0 [a] = Some L'"
      by (metis task_tree.subtree_query [OF s a(1)] task_tree.subtree_query [OF t at])
    moreover have eq: "cte (join_down t_id t_parentTaskId (tasks s)) n 0 [a] = cte (join_down t_id t_parentTaskId (tasks t)) n 0 [a]" for n
      using a p by (intro cte_agree [of "own_tasks x s"] join_down_agree [OF s t st]) (auto simp: own_tasks_def)
    ultimately have "L = L'" by (metis cte_fuels)
    with L show ?thesis by (simp add: cte_subtree_def one one [unfolded level])
  qed
qed

lemma TasksService_getSubtree_same: "same_view x (TasksService_getSubtree x p i)"
  unfolding TasksService_getSubtree_def
proof (rule same_view_bind [OF TasksService_reads_same(2)])
  fix k s t assume st: "app_ok s" "app_ok t" "agree x s t"
    and found: "TasksService_findOneOrFail x p i s = (Inr k, s)"
  have "cte_subtree p i s = cte_subtree p i t"
    using found_task_own [OF found] by (intro cte_subtree_agree [OF st]) blast
  then show "\<exists>r. bindM (run_cte (cte_subtree p i)) (\<lambda>rows.
      let (h, root) = foldl (link_node i) (create_nodes rows, None) rows
      in ret (Option.bind root (materialise (Suc (max_depth rows)) h))) s = (r, s) \<and>
    bindM (run_cte (cte_subtree p i)) (\<lambda>rows.
      let (h, root) = foldl (link_node i) (create_nodes rows, None) rows
      in ret (Option.bind root (materialise (Suc (max_depth rows)) h))) t = (r, t)"
    by (cases "cte_subtree p i t") (simp_all add: bindM_def run_cte_def reads_def ret_def split_def Let_def)
qed

section \<open>The requests\<close>

text \<open>A handler that answers the same on databases that agree on a workspace, whatever its cache.\<close>

definition blind :: "uuid \<Rightarrow> 'c \<Rightarrow> ('c \<times> app, 'a) svc \<Rightarrow> bool" where
  "blind x c m \<longleftrightarrow>
     (\<forall>s t. app_ok s \<longrightarrow> app_ok t \<longrightarrow> agree x s t \<longrightarrow> (\<exists>r c'. m (c, s) = (r, (c', s)) \<and> m (c, t) = (r, (c', t))))"

lemma blind_on_db: "same_view x m \<Longrightarrow> blind x c (on_db m)"
  unfolding blind_def on_db_def by (metis (mono_tags, lifting) case_prod_conv same_viewD)

lemma blind_ret: "blind x c (ret a)" and blind_throw: "blind x c (throw e)"
  by (simp_all add: blind_def ret_def throw_def)

lemma blind_guardM: "blind x c (guardM b e)"
  by (simp add: guardM_def blind_ret blind_throw)

lemma blind_bind:
  assumes m: "blind x c m" and f: "\<And>a c'. blind x c' (f a)"
  shows "blind x c (bindM m f)"
  unfolding blind_def
proof (intro allI impI)
  fix s t assume st: "app_ok s" "app_ok t" "agree x s t"
  then obtain r c' where r: "m (c, s) = (r, (c', s))" "m (c, t) = (r, (c', t))" using m unfolding blind_def by metis
  show "\<exists>r c'. bindM m f (c, s) = (r, (c', s)) \<and> bindM m f (c, t) = (r, (c', t))"
    using r f st by (cases r) (simp_all add: bindM_def blind_def)
qed

lemma blind_membership: "blind x c (WorkspacesService_getMembership ops d x u)"
  unfolding blind_def WorkspacesService_getMembership_def
  by (auto simp: Let_def agree_rows(1) split: option.split)

lemma blind_route:
  assumes w: "rq_params_workspaceId req = Some x" and h: "\<And>u m c'. blind x c' (h x u m)"
  shows "blind x c (workspace_route env roles req ps h)"
proof -
  have look: "blind x c' (\<lambda>(c, s). if b c then WorkspacesService_getMembership ops d x u (c, s) else (Inl e, (c, s)))"
    for c' b ops d u e
    using blind_membership [of x c' ops d u] by (simp add: blind_def)
  show ?thesis
    unfolding workspace_route_def JwtAuthGuard_def WorkspaceMemberGuard_canActivate_def RolesGuard_canActivate_def
      ParseUUIDPipes_def Let_def w option.case option.sel
    by (auto split: option.split intro!: blind_bind blind_guardM blind_ret blind_throw h look)
qed

text \<open>What each of the \<open>GET\<close> requests below a workspace answers with.\<close>

datatype answer =
    AWorkspace workspace
  | AMembers "(member \<times> user option) list"
  | AInvitations "invitation list"
  | AProjects "project page"
  | AProject project
  | ATasks "task page"
  | ATask task
  | ASubtree "subtree option"
  | AComments "comment page"
  | AActivity "task_activity page"

definition as_answer :: "('a \<Rightarrow> answer) \<Rightarrow> ('s, 'a) svc \<Rightarrow> ('s, answer option) svc" where
  "as_answer k m = bindM m (\<lambda>a. ret (Some (k a)))"

fun answer_of :: "'c http_env \<Rightarrow> request \<Rightarrow> endpoint \<Rightarrow> ('c \<times> app, answer option) svc" where
  "answer_of env req GetWorkspace = as_answer AWorkspace (WorkspacesController_get env req)"
| "answer_of env req ListMembers = as_answer AMembers (WorkspacesController_members env req)"
| "answer_of env req ListInvitations = as_answer AInvitations (InvitationsController_list env req)"
| "answer_of env req (ListProjects status lim cursor) = as_answer AProjects (ProjectsController_list env req status lim cursor)"
| "answer_of env req (GetProject projectId) = as_answer AProject (ProjectsController_get env req projectId)"
| "answer_of env req (ListTasks projectId q lim cursor) = as_answer ATasks (TasksController_list env req projectId q lim cursor)"
| "answer_of env req (GetTask projectId taskId) = as_answer ATask (TasksController_get env req projectId taskId)"
| "answer_of env req (GetSubtree projectId taskId) = as_answer ASubtree (TasksController_subtree env req projectId taskId)"
| "answer_of env req (ListComments projectId taskId q lim cursor) =
     as_answer AComments (CommentsController_list env req projectId taskId q lim cursor)"
| "answer_of env req (ListActivity projectId taskId lim cursor) =
     as_answer AActivity (ActivityController_list env req projectId taskId lim cursor)"
| "answer_of env req _ = ret None"

lemma answer_blind:
  assumes w: "rq_params_workspaceId req = Some x"
  shows "blind x c (answer_of env req e)"
  by (cases e; simp add: as_answer_def workspace_handlers blind_ret)
    (intro blind_bind blind_ret blind_route [OF w] blind_on_db WorkspacesService_reads_same ProjectsService_reads_same
      TasksService_reads_same task_rows_same TasksService_getSubtree_same)+

text \<open>A client's requests, one after the other, and the responses it sees.\<close>

fun answers :: "('c http_env \<times> request \<times> endpoint) list \<Rightarrow> 'c \<times> app \<Rightarrow> answer option res list" where
  "answers [] cs = []"
| "answers ((env, req, e) # rs) cs = fst (answer_of env req e cs) # answers rs (snd (answer_of env req e cs))"

lemma answers_blind:
  assumes "app_ok s" and "app_ok t" and "agree x s t"
  shows "list_all (\<lambda>(env, req, e). rq_params_workspaceId req = Some x) rs \<Longrightarrow> answers rs (c, s) = answers rs (c, t)"
proof (induction rs arbitrary: c)
  case (Cons r rs)
  obtain env req e where r: "r = (env, req, e)" by (metis prod_cases3)
  with Cons.prems have w: "rq_params_workspaceId req = Some x" by simp
  obtain a c' where "answer_of env req e (c, s) = (a, (c', s))" "answer_of env req e (c, t) = (a, (c', t))"
    using answer_blind [OF w, of c env e] assms unfolding blind_def by blast
  with Cons r show ?case by simp
qed simp

section \<open>Properties\<close>

text \<open>
  C3.  Workspaces are confidential: what a client sees of a workspace through the \<open>GET\<close> requests of its routes, any
  number of them with whatever ids, filters and cursors, is a function of the rows of that workspace.  On two databases
  that agree on them, and differ in any way elsewhere (other workspaces, their projects, tasks, comments, members and
  invitations, users who are no members, sessions, inboxes), every response is the same, errors included.
\<close>

theorem reads_confined:
  assumes "app_ok s" and "app_ok t" and "agree x s t"
    and "list_all (\<lambda>(env, req, e). rq_params_workspaceId req = Some x) rs"
  shows "answers rs (c, s) = answers rs (c, t)"
  using assms by (rule answers_blind)

text \<open>A member of \<open>w1\<close> who asks for the task of \<open>w9\<close> cannot tell that there is one.\<close>

lemma ex_two_agrees: "agree ''w1'' ex_app ex_two"
  by (simp add: agree_def own_projects_def own_tasks_def ex_two_def ex_other_task_def ex_app_def empty_app_def ex_defs)

theorem reads_confined_witness:
  "answers [(ex_http, ex_request ''u2'', GetTask ''p9'' ''t9''), (ex_http, ex_request ''u2'', ListMembers)] ([], ex_app) =
     answers [(ex_http, ex_request ''u2'', GetTask ''p9'' ''t9''), (ex_http, ex_request ''u2'', ListMembers)] ([], ex_two) \<and>
   own_tasks ''w9'' ex_two \<noteq> own_tasks ''w9'' ex_app"
proof
  show "answers [(ex_http, ex_request ''u2'', GetTask ''p9'' ''t9''), (ex_http, ex_request ''u2'', ListMembers)] ([], ex_app) =
     answers [(ex_http, ex_request ''u2'', GetTask ''p9'' ''t9''), (ex_http, ex_request ''u2'', ListMembers)] ([], ex_two)"
    by (rule reads_confined [OF ex_app_ok ex_two_ok ex_two_agrees]) (simp add: ex_request_def)
  show "own_tasks ''w9'' ex_two \<noteq> own_tasks ''w9'' ex_app"
    by (simp add: own_projects_def own_tasks_def ex_two_def ex_other_task_def ex_app_def empty_app_def ex_defs)
qed

end
