(* ===== verification/Requests.thy ===== *)
theory Requests
  imports Tenancy
begin

text \<open>
  Requests as they arrive: the bodies and query strings, the rules of the DTO classes they are validated by
  (\<open>src/modules/*/dto\<close>, \<open>src/common/dto\<close>) and the \<open>ValidationPipe\<close> of \<open>main.ts\<close>.  A body is what
  \<open>class-transformer\<close> makes of it, properties with JSON values; the checks of \<open>class-validator\<close> are
  parameters, of which the properties use only what they document.
\<close>

section \<open>Values and checks\<close>

datatype json = JNull | JBool bool | JNum int | JStr string | JOther

type_synonym body = "(string \<times> json) list"

record class_validator =
  cv_isString :: "json \<Rightarrow> bool"
  cv_minLength :: "nat \<Rightarrow> json \<Rightarrow> bool"
  cv_maxLength :: "nat \<Rightarrow> json \<Rightarrow> bool"
  cv_isNotEmpty :: "json \<Rightarrow> bool"
  cv_isEmail :: "json \<Rightarrow> bool"
  cv_isUUID :: "json \<Rightarrow> bool"
  cv_isEnum :: "string list \<Rightarrow> json \<Rightarrow> bool"
  cv_isDateString :: "json \<Rightarrow> bool"
  cv_isInt :: "json \<Rightarrow> bool"
  cv_min :: "int \<Rightarrow> json \<Rightarrow> bool"
  cv_max :: "int \<Rightarrow> json \<Rightarrow> bool"
  cv_isBoolean :: "json \<Rightarrow> bool"
  cv_date :: "string \<Rightarrow> js_date"

text \<open>What a value that passes a check is.  \<open>cv_date\<close> is \<open>new Date\<close> of a date string.\<close>

definition cv_documented :: "class_validator \<Rightarrow> bool" where
  "cv_documented cv \<longleftrightarrow>
     (\<forall>v. cv_isString cv v \<longrightarrow> (\<exists>s. v = JStr s)) \<and>
     (\<forall>n v. cv_minLength cv n v \<longrightarrow> (\<exists>s. v = JStr s \<and> n \<le> length s)) \<and>
     (\<forall>n v. cv_maxLength cv n v \<longrightarrow> (\<exists>s. v = JStr s \<and> length s \<le> n)) \<and>
     (\<forall>v. cv_isUUID cv v \<longrightarrow> (\<exists>s. v = JStr s \<and> s \<noteq> [])) \<and>
     (\<forall>vs v. cv_isEnum cv vs v \<longrightarrow> (\<exists>s \<in> set vs. v = JStr s)) \<and>
     (\<forall>v. cv_isInt cv v \<longrightarrow> (\<exists>n. v = JNum n)) \<and>
     (\<forall>k n. cv_min cv k (JNum n) \<longrightarrow> k \<le> n) \<and>
     (\<forall>k n. cv_max cv k (JNum n) \<longrightarrow> n \<le> k)"

text \<open>A property with and without \<open>@IsOptional()\<close>, and with \<open>@ValidateIf((_, value) => value !== null)\<close>.\<close>

fun required :: "(json \<Rightarrow> bool) \<Rightarrow> json option \<Rightarrow> bool" where
  "required ok None = False"
| "required ok (Some v) = ok v"

fun optional :: "(json \<Rightarrow> bool) \<Rightarrow> json option \<Rightarrow> bool" where
  "optional ok None = True"
| "optional ok (Some JNull) = True"
| "optional ok (Some v) = ok v"

fun unless_null :: "(json \<Rightarrow> bool) \<Rightarrow> json option \<Rightarrow> bool" where
  "unless_null ok None = False"
| "unless_null ok (Some v) = (v = JNull \<or> ok v)"

type_synonym rules = "(string \<times> (json option \<Rightarrow> bool)) list"

text \<open>\<open>whitelist\<close> and \<open>forbidNonWhitelisted\<close>: no property but those of the class.\<close>

definition ValidationPipe :: "rules \<Rightarrow> body \<Rightarrow> bool" where
  "ValidationPipe rs b \<longleftrightarrow> list_all (\<lambda>p. fst p \<in> set (map fst rs)) b \<and> list_all (\<lambda>r. snd r (map_of b (fst r))) rs"

definition text_of_length :: "class_validator \<Rightarrow> nat \<Rightarrow> nat \<Rightarrow> json \<Rightarrow> bool" where
  "text_of_length cv m n v \<longleftrightarrow> cv_isString cv v \<and> cv_minLength cv m v \<and> cv_maxLength cv n v"

definition text_up_to :: "class_validator \<Rightarrow> nat \<Rightarrow> json \<Rightarrow> bool" where
  "text_up_to cv n v \<longleftrightarrow> cv_isString cv v \<and> cv_maxLength cv n v"

section \<open>The classes\<close>

definition workspace_roles :: "string list" where "workspace_roles = [''ADMIN'', ''MEMBER'']"

definition project_statuses :: "string list" where "project_statuses = [''ACTIVE'', ''ARCHIVED'']"

definition task_statuses :: "string list" where
  "task_statuses = [''TODO'', ''IN_PROGRESS'', ''BLOCKED'', ''DONE'', ''CANCELLED'']"

definition task_priorities :: "string list" where
  "task_priorities = [''LOW'', ''MEDIUM'', ''HIGH'', ''URGENT'']"

definition PaginationQueryDto :: "class_validator \<Rightarrow> rules" where
  "PaginationQueryDto cv =
     [(''limit'', optional (\<lambda>v. cv_isInt cv v \<and> cv_min cv 1 v \<and> cv_max cv 100 v)),
      (''cursor'', optional (cv_isString cv))]"

definition SignupDto :: "class_validator \<Rightarrow> rules" where
  "SignupDto cv =
     [(''email'', required (cv_isEmail cv)),
      (''name'', required (text_of_length cv 2 120)),
      (''password'', required (text_of_length cv 8 128))]"

definition LoginDto :: "class_validator \<Rightarrow> rules" where
  "LoginDto cv =
     [(''email'', required (cv_isEmail cv)),
      (''password'', required (text_of_length cv 8 128))]"

definition RefreshTokenDto :: "class_validator \<Rightarrow> rules" where
  "RefreshTokenDto cv = [(''refreshToken'', required (\<lambda>v. cv_isString cv v \<and> cv_isNotEmpty cv v))]"

definition CreateWorkspaceDto :: "class_validator \<Rightarrow> rules" where
  "CreateWorkspaceDto cv =
     [(''name'', required (text_of_length cv 2 160)),
      (''slug'', optional (text_up_to cv 60))]"

definition UpdateMemberRoleDto :: "class_validator \<Rightarrow> rules" where
  "UpdateMemberRoleDto cv = [(''role'', required (cv_isEnum cv workspace_roles))]"

definition CreateInvitationDto :: "class_validator \<Rightarrow> rules" where
  "CreateInvitationDto cv =
     [(''email'', required (cv_isEmail cv)),
      (''role'', optional (cv_isEnum cv workspace_roles))]"

definition AcceptInvitationDto :: "class_validator \<Rightarrow> rules" where
  "AcceptInvitationDto cv = [(''token'', required (\<lambda>v. cv_isString cv v \<and> cv_isNotEmpty cv v))]"

definition CreateProjectDto :: "class_validator \<Rightarrow> rules" where
  "CreateProjectDto cv =
     [(''name'', required (text_of_length cv 2 160)),
      (''description'', optional (text_up_to cv 2000))]"

definition UpdateProjectDto :: "class_validator \<Rightarrow> rules" where
  "UpdateProjectDto cv =
     [(''name'', optional (text_of_length cv 2 160)),
      (''description'', optional (text_up_to cv 2000)),
      (''status'', optional (cv_isEnum cv project_statuses))]"

definition ListProjectsQueryDto :: "class_validator \<Rightarrow> rules" where
  "ListProjectsQueryDto cv = PaginationQueryDto cv @ [(''status'', optional (cv_isEnum cv project_statuses))]"

definition CreateTaskDto :: "class_validator \<Rightarrow> rules" where
  "CreateTaskDto cv =
     [(''title'', required (text_of_length cv 1 200)),
      (''description'', optional (text_up_to cv 5000)),
      (''priority'', optional (cv_isEnum cv task_priorities)),
      (''assigneeId'', optional (cv_isUUID cv)),
      (''dueDate'', optional (cv_isDateString cv)),
      (''parentTaskId'', optional (cv_isUUID cv))]"

definition UpdateTaskDto :: "class_validator \<Rightarrow> rules" where
  "UpdateTaskDto cv =
     [(''title'', optional (text_of_length cv 1 200)),
      (''description'', optional (text_up_to cv 5000)),
      (''status'', optional (cv_isEnum cv task_statuses)),
      (''priority'', optional (cv_isEnum cv task_priorities)),
      (''assigneeId'', optional (cv_isUUID cv)),
      (''dueDate'', optional (cv_isDateString cv))]"

definition MoveTaskDto :: "class_validator \<Rightarrow> rules" where
  "MoveTaskDto cv = [(''parentTaskId'', unless_null (cv_isUUID cv))]"

definition ListTasksQueryDto :: "class_validator \<Rightarrow> rules" where
  "ListTasksQueryDto cv = PaginationQueryDto cv @
     [(''status'', optional (cv_isEnum cv task_statuses)),
      (''priority'', optional (cv_isEnum cv task_priorities)),
      (''assigneeId'', optional (cv_isUUID cv)),
      (''parentTaskId'', optional (cv_isUUID cv)),
      (''topLevel'', optional (cv_isBoolean cv))]"

definition CreateCommentDto :: "class_validator \<Rightarrow> rules" where
  "CreateCommentDto cv =
     [(''body'', required (text_of_length cv 1 5000)),
      (''parentCommentId'', optional (cv_isUUID cv))]"

definition UpdateCommentDto :: "class_validator \<Rightarrow> rules" where
  "UpdateCommentDto cv = [(''body'', required (text_of_length cv 1 5000))]"

definition ListCommentsQueryDto :: "class_validator \<Rightarrow> rules" where
  "ListCommentsQueryDto cv = PaginationQueryDto cv @
     [(''parentCommentId'', optional (cv_isUUID cv)),
      (''topLevel'', optional (cv_isBoolean cv))]"

definition ListActivityQueryDto :: "class_validator \<Rightarrow> rules" where
  "ListActivityQueryDto cv = PaginationQueryDto cv"

definition ListNotificationsQueryDto :: "class_validator \<Rightarrow> rules" where
  "ListNotificationsQueryDto cv = PaginationQueryDto cv @ [(''unread'', optional (cv_isBoolean cv))]"

section \<open>Reading a body\<close>

fun text_value :: "json option \<Rightarrow> string" where
  "text_value (Some (JStr s)) = s"
| "text_value _ = []"

fun opt_value :: "json option \<Rightarrow> string option" where
  "opt_value (Some (JStr s)) = Some s"
| "opt_value _ = None"

fun patch_value :: "json option \<Rightarrow> string patch" where
  "patch_value (Some (JStr s)) = Val s"
| "patch_value (Some JNull) = Null"
| "patch_value _ = Undef"

fun flag_value :: "json option \<Rightarrow> bool option" where
  "flag_value (Some (JBool b)) = Some b"
| "flag_value _ = None"

fun number_value :: "json option \<Rightarrow> nat option" where
  "number_value (Some (JNum n)) = Some (nat n)"
| "number_value _ = None"

fun map_patch :: "('a \<Rightarrow> 'b) \<Rightarrow> 'a patch \<Rightarrow> 'b patch" where
  "map_patch f Undef = Undef"
| "map_patch f Null = Null"
| "map_patch f (Val v) = Val (f v)"

definition role_of :: "string \<Rightarrow> workspace_role" where
  "role_of s = (if s = ''ADMIN'' then ADMIN else MEMBER)"

definition project_status_of :: "string \<Rightarrow> project_status" where
  "project_status_of s = (if s = ''ACTIVE'' then ACTIVE else ARCHIVED)"

definition task_status_of :: "string \<Rightarrow> task_status" where
  "task_status_of s =
     (if s = ''TODO'' then TODO else if s = ''IN_PROGRESS'' then IN_PROGRESS else if s = ''BLOCKED'' then BLOCKED
      else if s = ''DONE'' then DONE else CANCELLED)"

definition task_priority_of :: "string \<Rightarrow> task_priority" where
  "task_priority_of s =
     (if s = ''LOW'' then LOW else if s = ''MEDIUM'' then MEDIUM else if s = ''HIGH'' then HIGH else URGENT)"

definition read_create_task :: "class_validator \<Rightarrow> body \<Rightarrow> create_task_dto" where
  "read_create_task cv b =
     (let v = map_of b
      in \<lparr>ct_title = text_value (v ''title''), ct_description = opt_value (v ''description''),
          ct_priority = map_option task_priority_of (opt_value (v ''priority'')),
          ct_assigneeId = opt_value (v ''assigneeId''), ct_dueDate = map_option (cv_date cv) (opt_value (v ''dueDate'')),
          ct_parentTaskId = opt_value (v ''parentTaskId'')\<rparr>)"

definition read_update_task :: "class_validator \<Rightarrow> body \<Rightarrow> update_task_dto" where
  "read_update_task cv b =
     (let v = map_of b
      in \<lparr>ut_title = patch_value (v ''title''), ut_description = patch_value (v ''description''),
          ut_status = map_patch task_status_of (patch_value (v ''status'')),
          ut_priority = map_patch task_priority_of (patch_value (v ''priority'')),
          ut_assigneeId = patch_value (v ''assigneeId''),
          ut_dueDate = map_patch (cv_date cv) (patch_value (v ''dueDate''))\<rparr>)"

definition read_list_tasks :: "body \<Rightarrow> list_tasks_query" where
  "read_list_tasks b =
     (let v = map_of b
      in \<lparr>lt_status = map_option task_status_of (opt_value (v ''status'')),
          lt_priority = map_option task_priority_of (opt_value (v ''priority'')),
          lt_assigneeId = opt_value (v ''assigneeId''), lt_parentTaskId = opt_value (v ''parentTaskId''),
          lt_topLevel = (flag_value (v ''topLevel'') = Some True)\<rparr>)"

definition read_create_comment :: "body \<Rightarrow> create_comment_dto" where
  "read_create_comment b =
     \<lparr>cc_body = text_value (map_of b ''body''), cc_parentCommentId = opt_value (map_of b ''parentCommentId'')\<rparr>"

definition read_list_comments :: "body \<Rightarrow> list_comments_query" where
  "read_list_comments b =
     \<lparr>lc_parentCommentId = opt_value (map_of b ''parentCommentId''),
      lc_topLevel = (flag_value (map_of b ''topLevel'') = Some True)\<rparr>"

definition read_create_project :: "body \<Rightarrow> create_project_dto" where
  "read_create_project b =
     \<lparr>cp_name = text_value (map_of b ''name''), cp_description = opt_value (map_of b ''description'')\<rparr>"

definition read_update_project :: "body \<Rightarrow> update_project_dto" where
  "read_update_project b =
     \<lparr>up_name = patch_value (map_of b ''name''), up_description = patch_value (map_of b ''description''),
      up_status = map_patch project_status_of (patch_value (map_of b ''status''))\<rparr>"

definition read_create_workspace :: "body \<Rightarrow> create_workspace_dto" where
  "read_create_workspace b =
     \<lparr>cw_name = text_value (map_of b ''name''), cw_slug = opt_value (map_of b ''slug'')\<rparr>"

definition read_create_invitation :: "body \<Rightarrow> create_invitation_dto" where
  "read_create_invitation b =
     \<lparr>cinv_email = text_value (map_of b ''email''), cinv_role = map_option role_of (opt_value (map_of b ''role''))\<rparr>"

definition page_of_query :: "body \<Rightarrow> nat option \<times> string option" where
  "page_of_query b = (number_value (map_of b ''limit''), opt_value (map_of b ''cursor''))"

text \<open>
  A query string arrives as text.  With \<open>transform\<close> and \<open>enableImplicitConversion\<close>, \<open>class-transformer\<close> first
  converts a property that is declared boolean (the parameter \<open>convert\<close>) and then runs its \<open>@Transform\<close>;
  \<open>limit\<close> has \<open>@Type(() => Number)\<close> (the parameter \<open>number\<close>).  The implicit conversion is documented to be
  \<open>Boolean(value)\<close>.
\<close>

definition Transform_flag :: "json \<Rightarrow> json" where
  "Transform_flag value = JBool (value = JBool True \<or> value = JStr ''true'')"

definition query_body ::
    "(string \<Rightarrow> json) \<Rightarrow> (string \<Rightarrow> int option) \<Rightarrow> string \<Rightarrow> (string \<times> string) list \<Rightarrow> body" where
  "query_body convert number flag q =
     map (\<lambda>(k, v). (k, if k = flag then Transform_flag (convert v)
                     else if k = ''limit'' then (case number v of Some n \<Rightarrow> JNum n | None \<Rightarrow> JOther)
                     else JStr v)) q"

definition implicit_boolean :: "(string \<Rightarrow> json) \<Rightarrow> bool" where
  "implicit_boolean convert \<longleftrightarrow> (\<forall>s. convert s = JBool (s \<noteq> []))"

text \<open>
  A request before its body or query is looked at; the ids in its path and those the server generates are as in
  \<open>endpoint\<close>.  A query parameter is never null.
\<close>

datatype incoming_request =
    NoBody endpoint
  | InCreateWorkspace body uuid uuid pg_time
  | InUpdateRole uuid body
  | InInvite body string uuid pg_time
  | InAccept body uuid pg_time
  | InCreateProject body uuid pg_time
  | InListProjects body
  | InUpdateProject uuid body pg_time
  | InCreateTask uuid body uuid pg_time
  | InListTasks uuid body
  | InMoveTask uuid uuid body pg_time
  | InUpdateTask uuid uuid body pg_time
  | InCreateComment uuid uuid body uuid pg_time
  | InListComments uuid uuid body
  | InUpdateComment uuid uuid uuid body pg_time
  | InListActivity uuid uuid body
  | InListNotifications body

text \<open>The endpoints whose handler takes neither a body nor a query.\<close>

fun bodyless :: "endpoint \<Rightarrow> bool" where
  "bodyless ListWorkspaces = True"
| "bodyless GetWorkspace = True"
| "bodyless ListMembers = True"
| "bodyless (RemoveMember _) = True"
| "bodyless ListInvitations = True"
| "bodyless (RevokeInvitation _) = True"
| "bodyless (GetProject _) = True"
| "bodyless (RemoveProject _) = True"
| "bodyless (GetTask _ _) = True"
| "bodyless (GetSubtree _ _) = True"
| "bodyless (RemoveTask _ _) = True"
| "bodyless (RemoveComment _ _ _) = True"
| "bodyless UnreadCount = True"
| "bodyless (MarkRead _) = True"
| "bodyless MarkAllRead = True"
| "bodyless _ = False"

text \<open>The rules, the body and, once the body has passed, the call.\<close>

fun body_rules :: "class_validator \<Rightarrow> incoming_request \<Rightarrow> rules \<times> body" where
  "body_rules cv (NoBody e) = ([], [])"
| "body_rules cv (InCreateWorkspace b wid mid now) = (CreateWorkspaceDto cv, b)"
| "body_rules cv (InUpdateRole u b) = (UpdateMemberRoleDto cv, b)"
| "body_rules cv (InInvite b token iid now) = (CreateInvitationDto cv, b)"
| "body_rules cv (InAccept b mid now) = (AcceptInvitationDto cv, b)"
| "body_rules cv (InCreateProject b nid now) = (CreateProjectDto cv, b)"
| "body_rules cv (InListProjects b) = (ListProjectsQueryDto cv, b)"
| "body_rules cv (InUpdateProject p b now) = (UpdateProjectDto cv, b)"
| "body_rules cv (InCreateTask p b nid now) = (CreateTaskDto cv, b)"
| "body_rules cv (InListTasks p b) = (ListTasksQueryDto cv, b)"
| "body_rules cv (InMoveTask p t b now) = (MoveTaskDto cv, b)"
| "body_rules cv (InUpdateTask p t b now) = (UpdateTaskDto cv, b)"
| "body_rules cv (InCreateComment p t b nid now) = (CreateCommentDto cv, b)"
| "body_rules cv (InListComments p t b) = (ListCommentsQueryDto cv, b)"
| "body_rules cv (InUpdateComment p t c b now) = (UpdateCommentDto cv, b)"
| "body_rules cv (InListActivity p t b) = (ListActivityQueryDto cv, b)"
| "body_rules cv (InListNotifications b) = (ListNotificationsQueryDto cv, b)"

fun call_of :: "class_validator \<Rightarrow> incoming_request \<Rightarrow> endpoint" where
  "call_of cv (NoBody e) = e"
| "call_of cv (InCreateWorkspace b wid mid now) = CreateWorkspace (read_create_workspace b) wid mid now"
| "call_of cv (InUpdateRole u b) = UpdateRole u (role_of (text_value (map_of b ''role'')))"
| "call_of cv (InInvite b token iid now) = Invite (read_create_invitation b) token iid now"
| "call_of cv (InAccept b mid now) = AcceptInvitation (text_value (map_of b ''token'')) mid now"
| "call_of cv (InCreateProject b nid now) = CreateProject (read_create_project b) nid now"
| "call_of cv (InListProjects b) =
     ListProjects (map_option project_status_of (opt_value (map_of b ''status''))) (fst (page_of_query b)) (snd (page_of_query b))"
| "call_of cv (InUpdateProject p b now) = UpdateProject p (read_update_project b) now"
| "call_of cv (InCreateTask p b nid now) = CreateTask p (read_create_task cv b) nid now"
| "call_of cv (InListTasks p b) = ListTasks p (read_list_tasks b) (fst (page_of_query b)) (snd (page_of_query b))"
| "call_of cv (InMoveTask p t b now) = MoveTask p t (opt_value (map_of b ''parentTaskId'')) now"
| "call_of cv (InUpdateTask p t b now) = UpdateTask p t (read_update_task cv b) now"
| "call_of cv (InCreateComment p t b nid now) = CreateComment p t (read_create_comment b) nid now"
| "call_of cv (InListComments p t b) =
     ListComments p t (read_list_comments b) (fst (page_of_query b)) (snd (page_of_query b))"
| "call_of cv (InUpdateComment p t c b now) = UpdateComment p t c (text_value (map_of b ''body'')) now"
| "call_of cv (InListActivity p t b) = ListActivity p t (fst (page_of_query b)) (snd (page_of_query b))"
| "call_of cv (InListNotifications b) =
     ListNotifications (flag_value (map_of b ''unread'')) (fst (page_of_query b)) (snd (page_of_query b))"

text \<open>
  The guards come before the pipes: a body that is refused is refused with 400 only to someone whom the guards
  let through.
\<close>

definition guards_only :: "'c http_env \<Rightarrow> request \<Rightarrow> endpoint \<Rightarrow> ('c \<times> app, unit) svc" where
  "guards_only env req e =
     (if workspace_scoped e
      then workspace_route env (if admin_only e then Some [ADMIN] else None) req []
             (\<lambda>_ _ _. throw (BadRequest ''Bad Request Exception''))
      else user_route env req [] (\<lambda>_. throw (BadRequest ''Bad Request Exception'')))"

definition receive :: "class_validator \<Rightarrow> 'c http_env \<Rightarrow> request \<Rightarrow> incoming_request \<Rightarrow> ('c \<times> app, unit) svc" where
  "receive cv env req i =
     (if (case i of NoBody e \<Rightarrow> bodyless e | _ \<Rightarrow> ValidationPipe (fst (body_rules cv i)) (snd (body_rules cv i)))
      then handle env req (call_of cv i) else guards_only env req (call_of cv i))"

section \<open>What a body that passed says\<close>

lemmas dto_rules = CreateTaskDto_def UpdateTaskDto_def CreateCommentDto_def PaginationQueryDto_def
  ListTasksQueryDto_def ListProjectsQueryDto_def ListCommentsQueryDto_def ListActivityQueryDto_def
  ListNotificationsQueryDto_def

lemma pipe_field: "ValidationPipe rs b \<Longrightarrow> (k, ok) \<in> set rs \<Longrightarrow> ok (map_of b k)"
  by (auto simp: ValidationPipe_def list_all_iff)

lemma optional_value_cases: "optional ok v \<Longrightarrow> v = None \<or> v = Some JNull \<or> (\<exists>x. v = Some x \<and> x \<noteq> JNull \<and> ok x)"
  by (cases "(ok, v)" rule: optional.cases) auto

lemma documented:
  assumes "cv_documented cv"
  shows "cv_minLength cv n v \<Longrightarrow> \<exists>s. v = JStr s \<and> n \<le> length s"
    and "cv_maxLength cv n v \<Longrightarrow> \<exists>s. v = JStr s \<and> length s \<le> n"
    and "cv_isUUID cv v \<Longrightarrow> \<exists>s. v = JStr s \<and> s \<noteq> []"
    and "cv_isInt cv v \<Longrightarrow> \<exists>n. v = JNum n"
    and "cv_min cv k (JNum j) \<Longrightarrow> k \<le> j" and "cv_max cv k (JNum j) \<Longrightarrow> j \<le> k"
  using assms by (simp_all add: cv_documented_def)

lemma uuid_value: "cv_documented cv \<Longrightarrow> optional (cv_isUUID cv) v \<Longrightarrow> opt_value v \<noteq> Some []"
  using documented(3) [of cv] by (fastforce dest!: optional_value_cases)

lemma title_value:
  assumes "cv_documented cv" and "required (text_of_length cv m n) v"
  shows "m \<le> length (text_value v) \<and> length (text_value v) \<le> n"
proof -
  from assms(2) obtain x where "v = Some x" "cv_minLength cv m x" "cv_maxLength cv n x"
    by (cases v) (auto simp: text_of_length_def)
  with documented(1,2) [OF assms(1)] show ?thesis by fastforce
qed

lemma patched_value:
  assumes "cv_documented cv" and "optional (text_of_length cv m n) v" and "patch_value v = Val s"
  shows "length s \<le> n"
proof -
  from assms(3) have v: "v = Some (JStr s)" by (cases v rule: patch_value.cases) auto
  with assms(2) have "cv_maxLength cv n (JStr s)" by (simp add: text_of_length_def)
  with documented(2) [OF assms(1)] show ?thesis by blast
qed

lemma patch_null: "map_patch f (patch_value v) = Null \<longleftrightarrow> v = Some JNull" "patch_value v = Null \<longleftrightarrow> v = Some JNull"
  by (cases v rule: patch_value.cases; simp)+

lemma limit_value:
  assumes "cv_documented cv" and "optional (\<lambda>v. cv_isInt cv v \<and> cv_min cv 1 v \<and> cv_max cv 100 v) v"
  shows "1 \<le> page_limit (number_value v) \<and> page_limit (number_value v) \<le> 100"
proof -
  from optional_value_cases [OF assms(2)] consider "v = None" | "v = Some JNull"
    | x where "v = Some x" "cv_isInt cv x" "cv_min cv 1 x" "cv_max cv 100 x" by blast
  then show ?thesis
  proof cases
    case 3
    from documented(4) [OF assms(1) 3(2)] obtain n where n: "x = JNum n" by blast
    with documented(5,6) [OF assms(1)] 3 have "1 \<le> n" "n \<le> 100" by blast+
    with 3(1) n show ?thesis by (simp add: page_limit_def nat_le_iff le_nat_iff)
  qed (simp_all add: page_limit_def)
qed

lemma query_limit:
  assumes "cv_documented cv" and "ValidationPipe rs b" and "set (PaginationQueryDto cv) \<subseteq> set rs"
  shows "1 \<le> page_limit (fst (page_of_query b)) \<and> page_limit (fst (page_of_query b)) \<le> 100"
  unfolding page_of_query_def fst_conv
  by (rule limit_value [OF assms(1)], rule pipe_field [OF assms(2)])
    (use assms(3) in \<open>auto simp: PaginationQueryDto_def\<close>)

lemma validated_call:
  assumes "cv_documented cv"
    and "case i of NoBody e \<Rightarrow> bodyless e | _ \<Rightarrow> ValidationPipe (fst (body_rules cv i)) (snd (body_rules cv i))"
  shows "valid_endpoint (call_of cv i)"
proof (cases i)
  case (NoBody e)
  with assms(2) show ?thesis by (cases e) (simp_all add: valid_endpoint_def)
next
  case (InCreateTask p b nid now)
  with assms(2) have "optional (cv_isUUID cv) (map_of b ''parentTaskId'')"
    by (auto intro: pipe_field simp: CreateTaskDto_def)
  with InCreateTask uuid_value [OF assms(1)] show ?thesis
    by (simp add: valid_endpoint_def valid_create_task_def read_create_task_def Let_def)
next
  case (InCreateComment p t b nid now)
  with assms(2) have "optional (cv_isUUID cv) (map_of b ''parentCommentId'')"
    by (auto intro: pipe_field simp: CreateCommentDto_def)
  with InCreateComment uuid_value [OF assms(1)] show ?thesis
    by (simp add: valid_endpoint_def valid_create_comment_def read_create_comment_def)
qed (simp_all add: valid_endpoint_def)

lemma guards_only_keeps:
  assumes "env_ok env" and "request_ok req"
  shows "keeps (served (he_cache env)) (guards_only env req e)"
  unfolding guards_only_def
  by (auto intro!: served_workspace_route [OF assms] served_user_route keeps_throw)

lemma receive_keeps:
  assumes "env_ok env" and "request_ok req" and "cv_documented cv"
  shows "keeps (served (he_cache env)) (receive cv env req i)"
  unfolding receive_def
  using handle_served [OF assms(1,2) validated_call [OF assms(3)]] guards_only_keeps [OF assms(1,2)]
  by (simp split: if_split)

text \<open>The errors of creating a task whose parts are as validated.\<close>

lemma create_task_errors:
  assumes ok: "app_ok s" and dto: "valid_create_task dto" "length (ct_title dto) \<le> 200"
    and ids: "\<not> has_id t_id (tasks s) nid" "has_id u_id (users s) u"
    and run: "TasksService_create w p u dto nid now s = (Inl e, s')"
  shows "s' = s \<and> (e = NotFound ''Project not found'' \<or> e = BadRequest ''Parent task not found in this project'' \<or>
    e = QueryFailed (ForeignKeyViolation ''FK_tasks_assignee'') \<and>
      (\<exists>a. ct_assigneeId dto = Some a \<and> \<not> has_id u_id (users s) a))"
proof -
  let ?par = "ct_parentTaskId dto"
  obtain f s1 where find: "ProjectsService_findOneOrFail w p s = (f, s1)" by (metis surj_pair)
  show ?thesis
  proof (cases f)
    case (Inl e')
    then have "s1 = s" "e' = NotFound ''Project not found''" using find by (simp_all add: ProjectsService_findOneOrFail_Inl)
    with run find Inl show ?thesis by (simp add: TasksService_create_def bindM_def)
  next
    case (Inr q)
    with find have q: "q \<in> set (projects s)" "p_id q = p" and s1: "s1 = s"
      using ProjectsService_findOneOrFail_row by blast+
    let ?t = "\<lparr>t_id = nid, t_projectId = p, t_parentTaskId = ?par, t_title = ct_title dto,
        t_description = ct_description dto, t_status = TODO,
        t_priority = (case ct_priority dto of None \<Rightarrow> MEDIUM | Some p \<Rightarrow> p),
        t_assigneeId = ct_assigneeId dto, t_createdBy = u, t_dueDate = ct_dueDate dto, t_completedAt = None,
        t_createdAt = now, t_updatedAt = now\<rparr>"
    have parent: "?par \<noteq> Some nid \<and> has_id_opt t_id (tasks s) ?par"
      if "\<not> truthy ?par \<or> (\<exists>t \<in> set (tasks s). ?par = Some (t_id t))"
      using that dto(1) ids(1) by (cases ?par) (auto simp: valid_create_task_def has_id_opt_def has_id_def)
    have refused: "e2 = ForeignKeyViolation ''FK_tasks_assignee'' \<and> (\<exists>a. ct_assigneeId dto = Some a \<and> \<not> has_id u_id (users s) a)"
      if "insert_task ?t s = Inl e2" "\<not> truthy ?par \<or> (\<exists>t \<in> set (tasks s). ?par = Some (t_id t))" for e2
      using enforce_Inl_mem [OF that(1) [unfolded insert_task_def]] parent [OF that(2)] dto(2) ids q
      by (auto simp: task_checks_def has_id_def has_id_opt_def split: option.splits)
    let ?find = "if truthy ?par then bindM (tasks_find_in_project p (the ?par)
        (BadRequest ''Parent task not found in this project'')) (\<lambda>_. ret ()) else ret ()"
    have found: "(\<exists>g. ?find s = (g, s) \<and> (g = Inl (BadRequest ''Parent task not found in this project'') \<or>
        g = Inr () \<and> (\<not> truthy ?par \<or> (\<exists>t \<in> set (tasks s). ?par = Some (t_id t)))))"
      by (cases ?par) (auto simp: bindM_either tasks_find_in_project_def split: option.splits dest!: find_SomeD)
    then obtain g where g: "?find s = (g, s)"
      and g2: "g = Inl (BadRequest ''Parent task not found in this project'') \<or>
        g = Inr () \<and> (\<not> truthy ?par \<or> (\<exists>t \<in> set (tasks s). ?par = Some (t_id t)))" by blast
    have "(\<exists>e2. insert_task ?t s = Inl e2 \<and> e = QueryFailed e2) \<and> s' = s" if "g = Inr ()"
      using run [unfolded TasksService_create_def bindM_def, unfolded find [unfolded Inr s1] prod.case sum.case g [unfolded bindM_def]]
      by (simp add: that Let_def bindM_def writes_def modifies_def ret_def split: sum.splits if_splits)
    moreover have "e = BadRequest ''Parent task not found in this project'' \<and> s' = s" if "g \<noteq> Inr ()"
      using run [unfolded TasksService_create_def bindM_def, unfolded find [unfolded Inr s1] prod.case sum.case g [unfolded bindM_def]]
        g2 that by simp
    ultimately show ?thesis using g2 refused by blast
  qed
qed

lemma validated_create:
  assumes "cv_documented cv" and "app_ok s" and "ValidationPipe (CreateTaskDto cv) b"
    and "\<not> has_id t_id (tasks s) nid" and "has_id u_id (users s) u"
    and "TasksService_create w p u (read_create_task cv b) nid now s = (Inl e, s')"
  shows "s' = s \<and> (e = NotFound ''Project not found'' \<or> e = BadRequest ''Parent task not found in this project'' \<or>
    (\<exists>d a. e = QueryFailed d \<and> opt_value (map_of b ''assigneeId'') = Some a \<and> \<not> has_id u_id (users s) a))"
proof -
  have "required (text_of_length cv 1 200) (map_of b ''title'')" "optional (cv_isUUID cv) (map_of b ''parentTaskId'')"
    by (rule pipe_field [OF assms(3)], simp add: CreateTaskDto_def)+
  then have "valid_create_task (read_create_task cv b)" "length (ct_title (read_create_task cv b)) \<le> 200"
    using uuid_value [OF assms(1)] title_value [OF assms(1)]
    by (auto simp: read_create_task_def Let_def valid_create_task_def)
  from create_task_errors [OF assms(2) this assms(4-6)] show ?thesis
    by (auto simp: read_create_task_def Let_def)
qed

lemma update_failure:
  "task_update_outcome w p i u dto now s (Inl e, s') \<Longrightarrow>
     s' = s \<and> ((\<exists>m. e = NotFound m) \<or> (\<exists>d. e = QueryFailed d) \<and>
       (ut_title dto = Null \<or> ut_status dto = Null \<or> ut_priority dto = Null \<or>
        (\<exists>n. ut_title dto = Val n \<and> 200 < length n) \<or> (\<exists>a. ut_assigneeId dto = Val a \<and> \<not> has_id u_id (users s) a)))"
  unfolding task_update_outcome_def by (cases e) simp_all

lemma validated_update:
  assumes "cv_documented cv" and "app_ok s" and pipe: "ValidationPipe (UpdateTaskDto cv) b"
    and run: "TasksService_update w p i u (read_update_task cv b) now s = (Inl e, s')"
  shows "s' = s \<and> ((\<exists>m. e = NotFound m) \<or> (\<exists>d. e = QueryFailed d) \<and>
    (Some JNull \<in> {map_of b ''title'', map_of b ''status'', map_of b ''priority''} \<or>
     (\<exists>a. opt_value (map_of b ''assigneeId'') = Some a \<and> \<not> has_id u_id (users s) a)))"
proof -
  have "optional (text_of_length cv 1 200) (map_of b ''title'')"
    by (rule pipe_field [OF pipe]) (simp add: UpdateTaskDto_def)
  from patched_value [OF assms(1) this] have title: "\<not> (\<exists>n. patch_value (map_of b ''title'') = Val n \<and> 200 < length n)"
    by fastforce
  have assignee: "patch_value v = Val a \<Longrightarrow> opt_value v = Some a" for v a
    by (cases v rule: patch_value.cases) auto
  have "task_update_outcome w p i u (read_update_task cv b) now s (Inl e, s')"
    using update_outcome_holds [OF assms(2)] run by metis
  from update_failure [OF this] title show ?thesis
    unfolding read_update_task_def Let_def update_task_dto.simps patch_null by (auto dest: assignee)
qed

lemma route_runs:
  "workspace_route env roles req ps h cs = (Inr x, cs') \<Longrightarrow> \<exists>w u m cs2. h w u m cs2 = (Inr x, cs')"
  "user_route env req ps h' cs = (Inr x, cs') \<Longrightarrow> \<exists>u cs2. h' u cs2 = (Inr x, cs')"
  by (fastforce simp: workspace_route_def user_route_def bindM_Inr_iff Let_def)+

lemma on_db_runs: "on_db m cs = (Inr x, cs') \<Longrightarrow> \<exists>s s'. m s = (Inr x, s')"
  by (cases cs) (auto simp: on_db_iff)

lemma keyset_page_short: "keyset_page cs cat rid lim cursor rows = Inr pg \<Longrightarrow> page_limit lim \<le> n \<Longrightarrow> length (pg_data pg) \<le> n"
  using keyset_page_within by (metis le_trans)

lemmas list_services = TasksService_list_def ProjectsService_list_def CommentsService_list_def
  ActivityService_listForTask_def NotificationsService_list_def

lemma list_pages:
  "TasksService_list cs w p q lim cursor s = (Inr tp, s') \<Longrightarrow> page_limit lim \<le> n \<Longrightarrow> length (pg_data tp) \<le> n"
  "ProjectsService_list cs w st lim cursor s = (Inr pp, s') \<Longrightarrow> page_limit lim \<le> n \<Longrightarrow> length (pg_data pp) \<le> n"
  "CommentsService_list cs w p t q2 lim cursor s = (Inr cp, s') \<Longrightarrow> page_limit lim \<le> n \<Longrightarrow> length (pg_data cp) \<le> n"
  "ActivityService_listForTask cs w p t lim cursor s = (Inr ap, s') \<Longrightarrow> page_limit lim \<le> n \<Longrightarrow> length (pg_data ap) \<le> n"
  "NotificationsService_list cs u unr lim cursor s = (Inr np, s') \<Longrightarrow> page_limit lim \<le> n \<Longrightarrow> length (pg_data np) \<le> n"
  by (auto simp: list_services bindM_Inr_iff reads_def intro: keyset_page_short)

lemma controller_pages:
  "TasksController_list env req p q lim cursor cs = (Inr tp, cs') \<Longrightarrow> page_limit lim \<le> n \<Longrightarrow> length (pg_data tp) \<le> n"
  "ProjectsController_list env req st lim cursor cs = (Inr pp, cs') \<Longrightarrow> page_limit lim \<le> n \<Longrightarrow> length (pg_data pp) \<le> n"
  "CommentsController_list env req p t q2 lim cursor cs = (Inr cp, cs') \<Longrightarrow> page_limit lim \<le> n \<Longrightarrow> length (pg_data cp) \<le> n"
  "ActivityController_list env req p t lim cursor cs = (Inr ap, cs') \<Longrightarrow> page_limit lim \<le> n \<Longrightarrow> length (pg_data ap) \<le> n"
  "NotificationsController_list env req unr lim cursor cs = (Inr np, cs') \<Longrightarrow> page_limit lim \<le> n \<Longrightarrow> length (pg_data np) \<le> n"
  unfolding TasksController_list_def ProjectsController_list_def CommentsController_list_def
    ActivityController_list_def NotificationsController_list_def
  by (drule route_runs, elim exE, drule on_db_runs, elim exE, erule (1) list_pages)+

lemma map_of_query_body:
  "map_of (query_body convert number flag q) k =
     map_option (\<lambda>v. if k = flag then Transform_flag (convert v)
                     else if k = ''limit'' then (case number v of Some n \<Rightarrow> JNum n | None \<Rightarrow> JOther) else JStr v) (map_of q k)"
  by (induction q) (auto simp: query_body_def)

lemma flag_is_set:
  "implicit_boolean convert \<Longrightarrow> map_of q flag = Some v \<Longrightarrow> v \<noteq> [] \<Longrightarrow>
     flag_value (map_of (query_body convert number flag q) flag) = Some True"
  by (simp add: map_of_query_body implicit_boolean_def Transform_flag_def)

lemma list_scopes:
  "TasksService_list cs w p q lim cursor s = (Inr tp, s') \<Longrightarrow> \<exists>s2. set (pg_data tp) \<subseteq> set (tasks_scope p q s2)"
  "CommentsService_list cs w p t q2 lim cursor s = (Inr cp, s') \<Longrightarrow> \<exists>s2. set (pg_data cp) \<subseteq> set (comments_scope t q2 s2)"
  "NotificationsService_list cs u unr lim cursor s = (Inr np, s') \<Longrightarrow>
     \<exists>s2. set (pg_data np) \<subseteq> set (notifications_scope u unr s2)"
  unfolding list_services bindM_Inr_iff reads_def by (auto dest: keyset_page_within)

section \<open>Properties\<close>



text \<open>Checks that do what they document, on the values of the examples.\<close>

fun string_that :: "(string \<Rightarrow> bool) \<Rightarrow> json \<Rightarrow> bool" where
  "string_that p (JStr s) = p s"
| "string_that p _ = False"

fun number_that :: "(int \<Rightarrow> bool) \<Rightarrow> json \<Rightarrow> bool" where
  "number_that p (JNum n) = p n"
| "number_that p _ = False"

definition ex_cv :: class_validator where
  "ex_cv = \<lparr>cv_isString = string_that (\<lambda>_. True), cv_minLength = (\<lambda>n. string_that (\<lambda>s. n \<le> length s)),
     cv_maxLength = (\<lambda>n. string_that (\<lambda>s. length s \<le> n)), cv_isNotEmpty = string_that (\<lambda>s. s \<noteq> []),
     cv_isEmail = string_that (\<lambda>s. CHR ''@'' \<in> set s), cv_isUUID = string_that (\<lambda>s. s \<noteq> []),
     cv_isEnum = (\<lambda>vs. string_that (\<lambda>s. s \<in> set vs)), cv_isDateString = string_that (\<lambda>s. s \<noteq> []),
     cv_isInt = number_that (\<lambda>_. True), cv_min = (\<lambda>k. number_that (\<lambda>n. k \<le> n)), cv_max = (\<lambda>k. number_that (\<lambda>n. n \<le> k)),
     cv_isBoolean = (\<lambda>v. case v of JBool b \<Rightarrow> True | _ \<Rightarrow> False), cv_date = (\<lambda>_. 0)\<rparr>"

lemma string_that_iff: "string_that p v \<longleftrightarrow> (\<exists>s. v = JStr s \<and> p s)" by (cases v) auto

lemma number_that_iff: "number_that p v \<longleftrightarrow> (\<exists>n. v = JNum n \<and> p n)" by (cases v) auto

lemma ex_cv_documented: "cv_documented ex_cv"
  by (auto simp: cv_documented_def ex_cv_def string_that_iff number_that_iff)


text \<open>A title that is null passes and fails at the database.\<close>

lemma ex_null_title:
  "ValidationPipe (UpdateTaskDto ex_cv) [(''title'', JNull)]"
  "fst (TasksService_update ''w1'' ''p1'' ''t1'' ''u1'' (read_update_task ex_cv [(''title'', JNull)]) 5 ex_app) =
     Inl (QueryFailed (NotNullViolation ''title''))"
  by code_simp+


text \<open>
  C40.  A filter that is switched off in the query string is switched on: the converted value reaches \<open>@Transform\<close> as
  true for every non-empty text, so \<open>?unread=false\<close> returns only unread notifications and \<open>?topLevel=false\<close>
  only the tasks and the comments without a parent.
\<close>

theorem false_flag_filters:
  assumes "implicit_boolean convert"
  shows "(map_of q ''unread'' = Some ''false'' \<and>
      NotificationsController_list env req (flag_value (map_of (query_body convert number ''unread'' q) ''unread''))
        lim cursor cs = (Inr np, cs') \<longrightarrow> (\<forall>n \<in> set (pg_data np). \<not> n_isRead n)) \<and>
    (map_of q ''topLevel'' = Some ''false'' \<and> map_of q ''parentTaskId'' = None \<and>
      TasksController_list env req p (read_list_tasks (query_body convert number ''topLevel'' q)) lim cursor cs =
        (Inr tp, cs') \<longrightarrow> (\<forall>t \<in> set (pg_data tp). t_parentTaskId t = None)) \<and>
    (map_of q ''topLevel'' = Some ''false'' \<and> map_of q ''parentCommentId'' = None \<and>
      CommentsController_list env req p t (read_list_comments (query_body convert number ''topLevel'' q)) lim cursor cs =
        (Inr cp, cs') \<longrightarrow> (\<forall>c \<in> set (pg_data cp). c_parentCommentId c = None))"
proof (intro conjI impI; elim conjE)
  assume q: "map_of q ''unread'' = Some ''false''"
    and run: "NotificationsController_list env req (flag_value (map_of (query_body convert number ''unread'' q) ''unread''))
        lim cursor cs = (Inr np, cs')"
  from run obtain u s s' where "NotificationsService_list (he_casts env) u (Some True) lim cursor s = (Inr np, s')"
    unfolding NotificationsController_list_def flag_is_set [OF assms q list.discI [OF refl]]
    by (blast dest: route_runs on_db_runs)
  from list_scopes(3) [OF this] show "\<forall>n \<in> set (pg_data np). \<not> n_isRead n"
    by (auto simp: notifications_scope_def)
next
  let ?q = "read_list_tasks (query_body convert number ''topLevel'' q)"
  assume q: "map_of q ''topLevel'' = Some ''false''" "map_of q ''parentTaskId'' = None"
    and run: "TasksController_list env req p ?q lim cursor cs = (Inr tp, cs')"
  from run obtain w s s' where "TasksService_list (he_casts env) w p ?q lim cursor s = (Inr tp, s')"
    unfolding TasksController_list_def by (blast dest: route_runs on_db_runs)
  moreover have "lt_parentTaskId ?q = None" "lt_topLevel ?q"
    using q(2) flag_is_set [OF assms q(1) list.discI [OF refl]]
    by (simp_all add: read_list_tasks_def Let_def map_of_query_body [of _ _ _ _ "''parentTaskId''"])
  ultimately show "\<forall>t \<in> set (pg_data tp). t_parentTaskId t = None"
    by (auto simp: tasks_scope_def dest!: list_scopes(1))
next
  let ?q = "read_list_comments (query_body convert number ''topLevel'' q)"
  assume q: "map_of q ''topLevel'' = Some ''false''" "map_of q ''parentCommentId'' = None"
    and run: "CommentsController_list env req p t ?q lim cursor cs = (Inr cp, cs')"
  from run obtain w s s' where "CommentsService_list (he_casts env) w p t ?q lim cursor s = (Inr cp, s')"
    unfolding CommentsController_list_def by (blast dest: route_runs on_db_runs)
  moreover have "lc_parentCommentId ?q = None" "lc_topLevel ?q"
    using q(2) flag_is_set [OF assms q(1) list.discI [OF refl]]
    by (simp_all add: read_list_comments_def map_of_query_body [of _ _ _ _ "''parentCommentId''"])
  ultimately show "\<forall>c \<in> set (pg_data cp). c_parentCommentId c = None"
    by (auto simp: comments_scope_def dest!: list_scopes(2))
qed

theorem false_flag_filters_witness:
  "\<exists>np cs'. NotificationsController_list ex_http (ex_request ''u1'')
      (flag_value (map_of (query_body (\<lambda>v. JBool (v \<noteq> [])) (\<lambda>_. None) ''unread'' [(''unread'', ''false'')]) ''unread''))
      None None ([], ex_app) = (Inr np, cs') \<and> (\<forall>n \<in> set (pg_data np). \<not> n_isRead n)"
proof -
  let ?b = "query_body (\<lambda>v. JBool (v \<noteq> [])) (\<lambda>_. None) ''unread'' [(''unread'', ''false'')]"
  have conv: "implicit_boolean (\<lambda>v. JBool (v \<noteq> []))" by (simp add: implicit_boolean_def)
  have flag: "flag_value (map_of ?b ''unread'') = Some True" by (rule flag_is_set [OF conv, of _ _ "''false''"]) simp_all
  obtain np where "keyset_page epoch_casts n_createdAt n_id None None (notifications_scope ''u1'' (Some True) ex_app) = Inr np"
    using keyset_page_bound [of epoch_casts None None None n_createdAt n_id "notifications_scope ''u1'' (Some True) ex_app"]
    by (auto simp: cursor_bound_def Let_def page_limit_def)
  then have run: "NotificationsController_list ex_http (ex_request ''u1'') (flag_value (map_of ?b ''unread'')) None None
      ([], ex_app) = (Inr np, ([], ex_app))"
    unfolding flag
    by (simp add: NotificationsController_list_def user_route_def ex_evals on_db_iff NotificationsService_list_def reads_def)
  have "\<forall>n \<in> set (pg_data np). \<not> n_isRead n"
    by (rule false_flag_filters [OF conv, THEN conjunct1, THEN mp, OF conjI [OF _ run]]) simp
  with run show ?thesis by blast
qed

text \<open>
  C39.  No page holds more than 100 rows, whatever the query string asks for: that is so of every list endpoint
  whose query passes the validation of its class.
\<close>

theorem pages_bounded:
  assumes "cv_documented cv"
  shows "(ValidationPipe (ListTasksQueryDto cv) b \<and>
      TasksController_list env req p (read_list_tasks b) (fst (page_of_query b)) (snd (page_of_query b)) cs = (Inr tp, cs') \<longrightarrow>
      length (pg_data tp) \<le> 100) \<and>
    (ValidationPipe (ListProjectsQueryDto cv) b \<and>
      ProjectsController_list env req st (fst (page_of_query b)) (snd (page_of_query b)) cs = (Inr pp, cs') \<longrightarrow>
      length (pg_data pp) \<le> 100) \<and>
    (ValidationPipe (ListCommentsQueryDto cv) b \<and>
      CommentsController_list env req p t (read_list_comments b) (fst (page_of_query b)) (snd (page_of_query b)) cs = (Inr cp, cs') \<longrightarrow>
      length (pg_data cp) \<le> 100) \<and>
    (ValidationPipe (ListActivityQueryDto cv) b \<and>
      ActivityController_list env req p t (fst (page_of_query b)) (snd (page_of_query b)) cs = (Inr ap, cs') \<longrightarrow>
      length (pg_data ap) \<le> 100) \<and>
    (ValidationPipe (ListNotificationsQueryDto cv) b \<and>
      NotificationsController_list env req unr (fst (page_of_query b)) (snd (page_of_query b)) cs = (Inr np, cs') \<longrightarrow>
      length (pg_data np) \<le> 100)"
proof -
  have lim: "page_limit (fst (page_of_query b)) \<le> 100"
    if "ValidationPipe rs b" "set (PaginationQueryDto cv) \<subseteq> set rs" for rs
    using query_limit [OF assms that] by blast
  show ?thesis
    by (intro conjI impI; elim conjE; erule controller_pages, erule lim)
      (auto simp: ListTasksQueryDto_def ListProjectsQueryDto_def ListCommentsQueryDto_def ListActivityQueryDto_def
        ListNotificationsQueryDto_def)
qed

theorem pages_bounded_witness:
  "\<exists>np cs'. NotificationsController_list ex_http (ex_request ''u1'') None
      (fst (page_of_query [(''limit'', JNum 100)])) (snd (page_of_query [(''limit'', JNum 100)])) ([], ex_app) = (Inr np, cs') \<and>
    length (pg_data np) \<le> 100"
proof -
  let ?q = "page_of_query [(''limit'', JNum 100)]"
  obtain np where np: "keyset_page epoch_casts n_createdAt n_id (fst ?q) (snd ?q) (notifications_scope ''u1'' None ex_app) = Inr np"
    using keyset_page_bound [of epoch_casts "snd ?q" None "fst ?q" n_createdAt n_id "notifications_scope ''u1'' None ex_app"]
    by (auto simp: page_of_query_def cursor_bound_def Let_def page_limit_def)
  then have run: "NotificationsController_list ex_http (ex_request ''u1'') None (fst ?q) (snd ?q) ([], ex_app) = (Inr np, ([], ex_app))"
    by (simp add: NotificationsController_list_def user_route_def ex_evals on_db_iff NotificationsService_list_def reads_def)
  have "ValidationPipe (ListNotificationsQueryDto ex_cv) [(''limit'', JNum 100)]" by code_simp
  with run pages_bounded [OF ex_cv_documented, of "[(''limit'', JNum 100)]"] show ?thesis by blast
qed

end
