(* ===== verification/Schema.thy ===== *)
theory Schema
  imports Example
begin

text \<open>
  The schema of the database and how it comes about: the data definition statements the migrations under
  \<open>src/database/migrations\<close> execute, their effect on the catalogue, and what the entity classes under
  \<open>src/modules\<close> say of the same tables.  The effect of a statement is PostgreSQL's, as far as the migrations need
  it: names that are taken, objects that are missing, objects that others depend on.
\<close>

section \<open>Statements\<close>

datatype sql_type = Uuid | Citext | Varchar nat | Text | Boolean | Timestamptz | Inet | Jsonb | Integer | Enum string

datatype col_default = NoDefault | Call string | Literal string

text \<open>A column: name, type, whether it is nullable, default.\<close>

type_synonym sql_column = "string \<times> sql_type \<times> bool \<times> col_default"

datatype sql_condition =
    ColumnIs string string
  | ColumnIn string "string list"
  | ColumnNotIn string "string list"
  | ColumnsDiffer string string

datatype on_delete = Cascade | Restrict | SetNull

datatype table_constraint =
    PrimaryKey string
  | Unique string "string list"
  | Check string sql_condition
  | ForeignKey string string string string on_delete

text \<open>The columns of an index, each with whether it is descending.\<close>

record sql_index =
  ix_name :: string
  ix_unique :: bool
  ix_table :: string
  ix_columns :: "(string \<times> bool) list"
  ix_where :: "sql_condition option"

record sql_table =
  tb_name :: string
  tb_columns :: "sql_column list"
  tb_constraints :: "table_constraint list"

record schema =
  sc_extensions :: "string list"
  sc_types :: "(string \<times> string list) list"
  sc_tables :: "sql_table list"
  sc_indexes :: "sql_index list"

definition empty_schema :: schema where
  "empty_schema = \<lparr>sc_extensions = [], sc_types = [], sc_tables = [], sc_indexes = []\<rparr>"

datatype ddl_statement =
    CreateExtension string
  | DropExtension string
  | CreateType string "string list"
  | DropType string
  | CreateTable string "sql_column list" "table_constraint list"
  | DropTable string
  | CreateIndex sql_index
  | DropIndex string

datatype ddl_error = Duplicate string | Missing string | Depended string

section \<open>Their effect\<close>

fun constraint_indexes :: "string \<Rightarrow> table_constraint \<Rightarrow> string list" where
  "constraint_indexes t (PrimaryKey c) = [t @ ''_pkey'']"
| "constraint_indexes t (Unique n cs) = [n]"
| "constraint_indexes t _ = []"

fun condition_columns :: "sql_condition \<Rightarrow> string list" where
  "condition_columns (ColumnIs c v) = [c]"
| "condition_columns (ColumnIn c vs) = [c]"
| "condition_columns (ColumnNotIn c vs) = [c]"
| "condition_columns (ColumnsDiffer c d) = [c, d]"

fun constraint_columns :: "table_constraint \<Rightarrow> string list" where
  "constraint_columns (PrimaryKey c) = [c]"
| "constraint_columns (Unique n cs) = cs"
| "constraint_columns (Check n w) = condition_columns w"
| "constraint_columns (ForeignKey n c t r d) = [c]"

definition table_names :: "schema \<Rightarrow> string list" where
  "table_names s = map tb_name (sc_tables s)"

text \<open>Tables and indexes share their names; the index of a constraint is one of them.\<close>

definition relation_names :: "schema \<Rightarrow> string list" where
  "relation_names s = table_names s @ map ix_name (sc_indexes s) @
     concat (map (\<lambda>t. concat (map (constraint_indexes (tb_name t)) (tb_constraints t))) (sc_tables s))"

definition type_names :: "schema \<Rightarrow> string list" where
  "type_names s = map fst (sc_types s)"

fun type_known :: "schema \<Rightarrow> sql_type \<Rightarrow> bool" where
  "type_known s Citext = (''citext'' \<in> set (sc_extensions s))"
| "type_known s (Enum n) = (n \<in> set (type_names s))"
| "type_known s _ = True"

definition uses_type :: "sql_type \<Rightarrow> schema \<Rightarrow> bool" where
  "uses_type ty s = list_ex (\<lambda>t. list_ex (\<lambda>c. fst (snd c) = ty) (tb_columns t)) (sc_tables s)"

text \<open>A foreign key refers to the primary key of a table that is there, or of its own.\<close>

fun reference_ok :: "sql_table list \<Rightarrow> table_constraint \<Rightarrow> bool" where
  "reference_ok ts (ForeignKey n c t r d) = list_ex (\<lambda>x. tb_name x = t \<and> PrimaryKey r \<in> set (tb_constraints x)) ts"
| "reference_ok ts _ = True"

fun refers_to :: "string \<Rightarrow> table_constraint \<Rightarrow> bool" where
  "refers_to t (ForeignKey n c t' r d) = (t' = t)"
| "refers_to t _ = False"

definition table_columns :: "schema \<Rightarrow> string \<Rightarrow> string list" where
  "table_columns s t = concat (map (\<lambda>x. if tb_name x = t then map fst (tb_columns x) else []) (sc_tables s))"

fun execute :: "ddl_statement \<Rightarrow> schema \<Rightarrow> ddl_error + schema" where
  "execute (CreateExtension e) s =
     Inr (if e \<in> set (sc_extensions s) then s else s\<lparr>sc_extensions := sc_extensions s @ [e]\<rparr>)"
| "execute (DropExtension e) s =
     (if e = ''citext'' \<and> uses_type Citext s then Inl (Depended e)
      else Inr (s\<lparr>sc_extensions := filter (\<lambda>x. x \<noteq> e) (sc_extensions s)\<rparr>))"
| "execute (CreateType n vs) s =
     (if n \<in> set (type_names s) \<or> n \<in> set (table_names s) then Inl (Duplicate n)
      else Inr (s\<lparr>sc_types := sc_types s @ [(n, vs)]\<rparr>))"
| "execute (DropType n) s =
     (if n \<notin> set (type_names s) then Inl (Missing n)
      else if uses_type (Enum n) s then Inl (Depended n)
      else Inr (s\<lparr>sc_types := filter (\<lambda>x. fst x \<noteq> n) (sc_types s)\<rparr>))"
| "execute (CreateTable n cs ks) s =
     (let t = \<lparr>tb_name = n, tb_columns = cs, tb_constraints = ks\<rparr>;
          names = n # concat (map (constraint_indexes n) ks)
      in if n \<in> set (type_names s) \<or> \<not> distinct names \<or> list_ex (\<lambda>x. x \<in> set (relation_names s)) names
         then Inl (Duplicate n)
         else if \<not> distinct (map fst cs) then Inl (Duplicate n)
         else if \<not> list_all (\<lambda>c. type_known s (fst (snd c))) cs then Inl (Missing n)
         else if \<not> list_all (\<lambda>c. c \<in> set (map fst cs)) (concat (map constraint_columns ks)) then Inl (Missing n)
         else if \<not> list_all (reference_ok (sc_tables s @ [t])) ks then Inl (Missing n)
         else Inr (s\<lparr>sc_tables := sc_tables s @ [t]\<rparr>))"
| "execute (DropTable n) s =
     (if n \<notin> set (table_names s) then Inl (Missing n)
      else if list_ex (\<lambda>t. tb_name t \<noteq> n \<and> list_ex (refers_to n) (tb_constraints t)) (sc_tables s) then Inl (Depended n)
      else Inr (s\<lparr>sc_tables := filter (\<lambda>t. tb_name t \<noteq> n) (sc_tables s),
                  sc_indexes := filter (\<lambda>i. ix_table i \<noteq> n) (sc_indexes s)\<rparr>))"
| "execute (CreateIndex i) s =
     (if ix_name i \<in> set (relation_names s) then Inl (Duplicate (ix_name i))
      else if ix_table i \<notin> set (table_names s) then Inl (Missing (ix_table i))
      else if \<not> list_all (\<lambda>c. c \<in> set (table_columns s (ix_table i)))
                (map fst (ix_columns i) @ (case ix_where i of None \<Rightarrow> [] | Some w \<Rightarrow> condition_columns w))
      then Inl (Missing (ix_name i))
      else Inr (s\<lparr>sc_indexes := sc_indexes s @ [i]\<rparr>))"
| "execute (DropIndex n) s =
     (if n \<in> set (map ix_name (sc_indexes s)) then Inr (s\<lparr>sc_indexes := filter (\<lambda>i. ix_name i \<noteq> n) (sc_indexes s)\<rparr>)
      else Inl (if n \<in> set (relation_names s) then Depended n else Missing n))"

fun run_ddl :: "ddl_statement list \<Rightarrow> schema \<Rightarrow> ddl_error + schema" where
  "run_ddl [] s = Inr s"
| "run_ddl (c # cs) s = (case execute c s of Inl e \<Rightarrow> Inl e | Inr t \<Rightarrow> run_ddl cs t)"

text \<open>A migration: the statements of \<open>up\<close> and of \<open>down\<close>.\<close>

type_synonym migration = "ddl_statement list \<times> ddl_statement list"

text \<open>The table an entity class stands for: its columns, its unique columns, its relations (column, table, what a
  delete does) and its indexes.\<close>

record entity =
  en_table :: string
  en_columns :: "sql_column list"
  en_unique :: "string list list"
  en_relations :: "(string \<times> string \<times> on_delete) list"
  en_indexes :: "string list list"

section \<open>The migrations\<close>

definition InitExtensions_up :: "ddl_statement list" where
  "InitExtensions_up =
    [CreateExtension ''pgcrypto'',
     CreateExtension ''citext'']"

definition InitExtensions_down :: "ddl_statement list" where
  "InitExtensions_down =
    [DropExtension ''citext'',
     DropExtension ''pgcrypto'']"

definition CreateUsers_up :: "ddl_statement list" where
  "CreateUsers_up =
    [CreateTable ''users''
       [(''id'', Uuid, False, (Call ''gen_random_uuid'')),
        (''email'', Citext, False, NoDefault),
        (''password_hash'', (Varchar 255), False, NoDefault),
        (''name'', (Varchar 255), False, NoDefault),
        (''is_active'', Boolean, False, (Literal ''true'')),
        (''created_at'', Timestamptz, False, (Call ''now'')),
        (''updated_at'', Timestamptz, False, (Call ''now''))]
       [PrimaryKey ''id'',
        Unique ''UQ_users_email'' [''email'']]]"

definition CreateUsers_down :: "ddl_statement list" where
  "CreateUsers_down =
    [DropTable ''users'']"

definition CreateRefreshTokens_up :: "ddl_statement list" where
  "CreateRefreshTokens_up =
    [CreateTable ''refresh_tokens''
       [(''id'', Uuid, False, (Call ''gen_random_uuid'')),
        (''user_id'', Uuid, False, NoDefault),
        (''token_hash'', (Varchar 64), False, NoDefault),
        (''family_id'', Uuid, False, NoDefault),
        (''expires_at'', Timestamptz, False, NoDefault),
        (''revoked_at'', Timestamptz, True, NoDefault),
        (''user_agent'', (Varchar 512), True, NoDefault),
        (''ip'', Inet, True, NoDefault),
        (''created_at'', Timestamptz, False, (Call ''now''))]
       [PrimaryKey ''id'',
        Unique ''UQ_refresh_tokens_token_hash'' [''token_hash''],
        ForeignKey ''FK_refresh_tokens_user'' ''user_id'' ''users'' ''id'' Cascade],
     CreateIndex \<lparr>ix_name = ''IDX_refresh_tokens_user_id'', ix_unique = False, ix_table = ''refresh_tokens'',
        ix_columns = [(''user_id'', False)], ix_where = None\<rparr>,
     CreateIndex \<lparr>ix_name = ''IDX_refresh_tokens_family_id'', ix_unique = False, ix_table = ''refresh_tokens'',
        ix_columns = [(''family_id'', False)], ix_where = None\<rparr>]"

definition CreateRefreshTokens_down :: "ddl_statement list" where
  "CreateRefreshTokens_down =
    [DropIndex ''IDX_refresh_tokens_family_id'',
     DropIndex ''IDX_refresh_tokens_user_id'',
     DropTable ''refresh_tokens'']"

definition CreateWorkspaces_up :: "ddl_statement list" where
  "CreateWorkspaces_up =
    [CreateTable ''workspaces''
       [(''id'', Uuid, False, (Call ''gen_random_uuid'')),
        (''name'', (Varchar 160), False, NoDefault),
        (''slug'', Citext, False, NoDefault),
        (''owner_id'', Uuid, False, NoDefault),
        (''created_at'', Timestamptz, False, (Call ''now'')),
        (''updated_at'', Timestamptz, False, (Call ''now''))]
       [PrimaryKey ''id'',
        Unique ''UQ_workspaces_slug'' [''slug''],
        ForeignKey ''FK_workspaces_owner'' ''owner_id'' ''users'' ''id'' Restrict],
     CreateIndex \<lparr>ix_name = ''IDX_workspaces_owner_id'', ix_unique = False, ix_table = ''workspaces'',
        ix_columns = [(''owner_id'', False)], ix_where = None\<rparr>]"

definition CreateWorkspaces_down :: "ddl_statement list" where
  "CreateWorkspaces_down =
    [DropIndex ''IDX_workspaces_owner_id'',
     DropTable ''workspaces'']"

definition CreateWorkspaceMembers_up :: "ddl_statement list" where
  "CreateWorkspaceMembers_up =
    [CreateType ''workspace_member_role'' [''ADMIN'', ''MEMBER''],
     CreateTable ''workspace_members''
       [(''id'', Uuid, False, (Call ''gen_random_uuid'')),
        (''workspace_id'', Uuid, False, NoDefault),
        (''user_id'', Uuid, False, NoDefault),
        (''role'', (Enum ''workspace_member_role''), False, (Literal ''MEMBER'')),
        (''joined_at'', Timestamptz, False, (Call ''now''))]
       [PrimaryKey ''id'',
        Unique ''UQ_workspace_members_ws_user'' [''workspace_id'', ''user_id''],
        ForeignKey ''FK_workspace_members_workspace'' ''workspace_id'' ''workspaces'' ''id'' Cascade,
        ForeignKey ''FK_workspace_members_user'' ''user_id'' ''users'' ''id'' Cascade],
     CreateIndex \<lparr>ix_name = ''IDX_workspace_members_user_id'', ix_unique = False, ix_table = ''workspace_members'',
        ix_columns = [(''user_id'', False)], ix_where = None\<rparr>]"

definition CreateWorkspaceMembers_down :: "ddl_statement list" where
  "CreateWorkspaceMembers_down =
    [DropIndex ''IDX_workspace_members_user_id'',
     DropTable ''workspace_members'',
     DropType ''workspace_member_role'']"

definition CreateWorkspaceInvitations_up :: "ddl_statement list" where
  "CreateWorkspaceInvitations_up =
    [CreateType ''invitation_status'' [''PENDING'', ''ACCEPTED'', ''EXPIRED'', ''REVOKED''],
     CreateTable ''workspace_invitations''
       [(''id'', Uuid, False, (Call ''gen_random_uuid'')),
        (''workspace_id'', Uuid, False, NoDefault),
        (''email'', Citext, False, NoDefault),
        (''role'', (Enum ''workspace_member_role''), False, (Literal ''MEMBER'')),
        (''token'', (Varchar 64), False, NoDefault),
        (''status'', (Enum ''invitation_status''), False, (Literal ''PENDING'')),
        (''invited_by'', Uuid, False, NoDefault),
        (''expires_at'', Timestamptz, False, NoDefault),
        (''created_at'', Timestamptz, False, (Call ''now''))]
       [PrimaryKey ''id'',
        Unique ''UQ_workspace_invitations_token'' [''token''],
        ForeignKey ''FK_workspace_invitations_workspace'' ''workspace_id'' ''workspaces'' ''id'' Cascade,
        ForeignKey ''FK_workspace_invitations_inviter'' ''invited_by'' ''users'' ''id'' Cascade],
     CreateIndex \<lparr>ix_name = ''IDX_workspace_invitations_workspace_id'', ix_unique = False, ix_table = ''workspace_invitations'',
        ix_columns = [(''workspace_id'', False)], ix_where = None\<rparr>,
     CreateIndex \<lparr>ix_name = ''UQ_workspace_invitations_pending_email'', ix_unique = True, ix_table = ''workspace_invitations'',
        ix_columns = [(''workspace_id'', False), (''email'', False)], ix_where = Some (ColumnIs ''status'' ''PENDING'')\<rparr>]"

definition CreateWorkspaceInvitations_down :: "ddl_statement list" where
  "CreateWorkspaceInvitations_down =
    [DropIndex ''UQ_workspace_invitations_pending_email'',
     DropIndex ''IDX_workspace_invitations_workspace_id'',
     DropTable ''workspace_invitations'',
     DropType ''invitation_status'']"

definition CreateProjects_up :: "ddl_statement list" where
  "CreateProjects_up =
    [CreateType ''project_status'' [''ACTIVE'', ''ARCHIVED''],
     CreateTable ''projects''
       [(''id'', Uuid, False, (Call ''gen_random_uuid'')),
        (''workspace_id'', Uuid, False, NoDefault),
        (''name'', (Varchar 160), False, NoDefault),
        (''description'', Text, True, NoDefault),
        (''status'', (Enum ''project_status''), False, (Literal ''ACTIVE'')),
        (''created_by'', Uuid, False, NoDefault),
        (''created_at'', Timestamptz, False, (Call ''now'')),
        (''updated_at'', Timestamptz, False, (Call ''now''))]
       [PrimaryKey ''id'',
        ForeignKey ''FK_projects_workspace'' ''workspace_id'' ''workspaces'' ''id'' Cascade,
        ForeignKey ''FK_projects_creator'' ''created_by'' ''users'' ''id'' Restrict],
     CreateIndex \<lparr>ix_name = ''IDX_projects_workspace_id'', ix_unique = False, ix_table = ''projects'',
        ix_columns = [(''workspace_id'', False)], ix_where = None\<rparr>,
     CreateIndex \<lparr>ix_name = ''IDX_projects_workspace_created'', ix_unique = False, ix_table = ''projects'',
        ix_columns = [(''workspace_id'', False), (''created_at'', False), (''id'', False)], ix_where = None\<rparr>]"

definition CreateProjects_down :: "ddl_statement list" where
  "CreateProjects_down =
    [DropIndex ''IDX_projects_workspace_created'',
     DropIndex ''IDX_projects_workspace_id'',
     DropTable ''projects'',
     DropType ''project_status'']"

definition CreateTasks_up :: "ddl_statement list" where
  "CreateTasks_up =
    [CreateType ''task_status'' [''TODO'', ''IN_PROGRESS'', ''BLOCKED'', ''DONE'', ''CANCELLED''],
     CreateType ''task_priority'' [''LOW'', ''MEDIUM'', ''HIGH'', ''URGENT''],
     CreateTable ''tasks''
       [(''id'', Uuid, False, (Call ''gen_random_uuid'')),
        (''project_id'', Uuid, False, NoDefault),
        (''parent_task_id'', Uuid, True, NoDefault),
        (''title'', (Varchar 200), False, NoDefault),
        (''description'', Text, True, NoDefault),
        (''status'', (Enum ''task_status''), False, (Literal ''TODO'')),
        (''priority'', (Enum ''task_priority''), False, (Literal ''MEDIUM'')),
        (''assignee_id'', Uuid, True, NoDefault),
        (''created_by'', Uuid, False, NoDefault),
        (''due_date'', Timestamptz, True, NoDefault),
        (''completed_at'', Timestamptz, True, NoDefault),
        (''created_at'', Timestamptz, False, (Call ''now'')),
        (''updated_at'', Timestamptz, False, (Call ''now''))]
       [PrimaryKey ''id'',
        Check ''CHK_tasks_no_self_parent'' (ColumnsDiffer ''parent_task_id'' ''id''),
        ForeignKey ''FK_tasks_project'' ''project_id'' ''projects'' ''id'' Cascade,
        ForeignKey ''FK_tasks_parent'' ''parent_task_id'' ''tasks'' ''id'' Cascade,
        ForeignKey ''FK_tasks_assignee'' ''assignee_id'' ''users'' ''id'' SetNull,
        ForeignKey ''FK_tasks_creator'' ''created_by'' ''users'' ''id'' Restrict],
     CreateIndex \<lparr>ix_name = ''IDX_tasks_project_id'', ix_unique = False, ix_table = ''tasks'',
        ix_columns = [(''project_id'', False)], ix_where = None\<rparr>,
     CreateIndex \<lparr>ix_name = ''IDX_tasks_parent_task_id'', ix_unique = False, ix_table = ''tasks'',
        ix_columns = [(''parent_task_id'', False)], ix_where = None\<rparr>,
     CreateIndex \<lparr>ix_name = ''IDX_tasks_assignee_id'', ix_unique = False, ix_table = ''tasks'',
        ix_columns = [(''assignee_id'', False)], ix_where = None\<rparr>,
     CreateIndex \<lparr>ix_name = ''IDX_tasks_status'', ix_unique = False, ix_table = ''tasks'',
        ix_columns = [(''status'', False)], ix_where = None\<rparr>,
     CreateIndex \<lparr>ix_name = ''IDX_tasks_project_created'', ix_unique = False, ix_table = ''tasks'',
        ix_columns = [(''project_id'', False), (''created_at'', False), (''id'', False)], ix_where = None\<rparr>,
     CreateIndex \<lparr>ix_name = ''IDX_tasks_due_open'', ix_unique = False, ix_table = ''tasks'',
        ix_columns = [(''due_date'', False)], ix_where = Some (ColumnNotIn ''status'' [''DONE'', ''CANCELLED''])\<rparr>]"

definition CreateTasks_down :: "ddl_statement list" where
  "CreateTasks_down =
    [DropIndex ''IDX_tasks_due_open'',
     DropIndex ''IDX_tasks_project_created'',
     DropIndex ''IDX_tasks_status'',
     DropIndex ''IDX_tasks_assignee_id'',
     DropIndex ''IDX_tasks_parent_task_id'',
     DropIndex ''IDX_tasks_project_id'',
     DropTable ''tasks'',
     DropType ''task_priority'',
     DropType ''task_status'']"

definition CreateComments_up :: "ddl_statement list" where
  "CreateComments_up =
    [CreateTable ''comments''
       [(''id'', Uuid, False, (Call ''gen_random_uuid'')),
        (''task_id'', Uuid, False, NoDefault),
        (''author_id'', Uuid, False, NoDefault),
        (''parent_comment_id'', Uuid, True, NoDefault),
        (''body'', Text, False, NoDefault),
        (''edited_at'', Timestamptz, True, NoDefault),
        (''created_at'', Timestamptz, False, (Call ''now'')),
        (''updated_at'', Timestamptz, False, (Call ''now''))]
       [PrimaryKey ''id'',
        Check ''CHK_comments_no_self_parent'' (ColumnsDiffer ''parent_comment_id'' ''id''),
        ForeignKey ''FK_comments_task'' ''task_id'' ''tasks'' ''id'' Cascade,
        ForeignKey ''FK_comments_author'' ''author_id'' ''users'' ''id'' Cascade,
        ForeignKey ''FK_comments_parent'' ''parent_comment_id'' ''comments'' ''id'' Cascade],
     CreateIndex \<lparr>ix_name = ''IDX_comments_task_created'', ix_unique = False, ix_table = ''comments'',
        ix_columns = [(''task_id'', False), (''created_at'', False), (''id'', False)], ix_where = None\<rparr>,
     CreateIndex \<lparr>ix_name = ''IDX_comments_parent'', ix_unique = False, ix_table = ''comments'',
        ix_columns = [(''parent_comment_id'', False)], ix_where = None\<rparr>]"

definition CreateComments_down :: "ddl_statement list" where
  "CreateComments_down =
    [DropIndex ''IDX_comments_parent'',
     DropIndex ''IDX_comments_task_created'',
     DropTable ''comments'']"

definition CreateTaskActivity_up :: "ddl_statement list" where
  "CreateTaskActivity_up =
    [CreateTable ''task_activity''
       [(''id'', Uuid, False, (Call ''gen_random_uuid'')),
        (''task_id'', Uuid, False, NoDefault),
        (''actor_id'', Uuid, True, NoDefault),
        (''action'', (Varchar 40), False, NoDefault),
        (''metadata'', Jsonb, False, (Literal ''{}'')),
        (''created_at'', Timestamptz, False, (Call ''now''))]
       [PrimaryKey ''id'',
        ForeignKey ''FK_task_activity_task'' ''task_id'' ''tasks'' ''id'' Cascade,
        ForeignKey ''FK_task_activity_actor'' ''actor_id'' ''users'' ''id'' SetNull,
        Check ''CHK_task_activity_action'' (ColumnIn ''action'' [''CREATED'', ''ASSIGNED'', ''UNASSIGNED'', ''STATUS_CHANGED'', ''COMPLETED'', ''COMMENTED'', ''REPLIED''])],
     CreateIndex \<lparr>ix_name = ''IDX_task_activity_task_created'', ix_unique = False, ix_table = ''task_activity'',
        ix_columns = [(''task_id'', False), (''created_at'', False), (''id'', False)], ix_where = None\<rparr>]"

definition CreateTaskActivity_down :: "ddl_statement list" where
  "CreateTaskActivity_down =
    [DropIndex ''IDX_task_activity_task_created'',
     DropTable ''task_activity'']"

definition CreateNotifications_up :: "ddl_statement list" where
  "CreateNotifications_up =
    [CreateTable ''notifications''
       [(''id'', Uuid, False, (Call ''gen_random_uuid'')),
        (''recipient_id'', Uuid, False, NoDefault),
        (''type'', (Varchar 40), False, NoDefault),
        (''title'', (Varchar 200), False, NoDefault),
        (''body'', Text, True, NoDefault),
        (''entity_type'', (Varchar 40), True, NoDefault),
        (''entity_id'', Uuid, True, NoDefault),
        (''workspace_id'', Uuid, True, NoDefault),
        (''is_read'', Boolean, False, (Literal ''false'')),
        (''read_at'', Timestamptz, True, NoDefault),
        (''created_at'', Timestamptz, False, (Call ''now''))]
       [PrimaryKey ''id'',
        ForeignKey ''FK_notifications_recipient'' ''recipient_id'' ''users'' ''id'' Cascade,
        ForeignKey ''FK_notifications_workspace'' ''workspace_id'' ''workspaces'' ''id'' Cascade,
        Check ''CHK_notifications_type'' (ColumnIn ''type'' [''TASK_ASSIGNED'', ''TASK_DUE_SOON'', ''TASK_OVERDUE'', ''TASK_COMPLETED'', ''COMMENT_ADDED'', ''COMMENT_REPLY'', ''WORKSPACE_INVITE''])],
     CreateIndex \<lparr>ix_name = ''IDX_notifications_recipient_created'', ix_unique = False, ix_table = ''notifications'',
        ix_columns = [(''recipient_id'', False), (''created_at'', False), (''id'', False)], ix_where = None\<rparr>,
     CreateIndex \<lparr>ix_name = ''IDX_notifications_recipient_unread'', ix_unique = False, ix_table = ''notifications'',
        ix_columns = [(''recipient_id'', False)], ix_where = Some (ColumnIs ''is_read'' ''false'')\<rparr>]"

definition CreateNotifications_down :: "ddl_statement list" where
  "CreateNotifications_down =
    [DropIndex ''IDX_notifications_recipient_unread'',
     DropIndex ''IDX_notifications_recipient_created'',
     DropTable ''notifications'']"

definition CreateReminders_up :: "ddl_statement list" where
  "CreateReminders_up =
    [CreateType ''reminder_type'' [''DUE_SOON'', ''OVERDUE''],
     CreateType ''reminder_status'' [''PENDING'', ''SENT'', ''FAILED''],
     CreateTable ''reminders''
       [(''id'', Uuid, False, (Call ''gen_random_uuid'')),
        (''task_id'', Uuid, False, NoDefault),
        (''type'', (Enum ''reminder_type''), False, NoDefault),
        (''scheduled_for'', Timestamptz, False, NoDefault),
        (''status'', (Enum ''reminder_status''), False, (Literal ''PENDING'')),
        (''attempts'', Integer, False, (Literal ''0'')),
        (''sent_at'', Timestamptz, True, NoDefault),
        (''created_at'', Timestamptz, False, (Call ''now''))]
       [PrimaryKey ''id'',
        Unique ''UQ_reminders_task_type_scheduled'' [''task_id'', ''type'', ''scheduled_for''],
        ForeignKey ''FK_reminders_task'' ''task_id'' ''tasks'' ''id'' Cascade],
     CreateIndex \<lparr>ix_name = ''IDX_reminders_status_scheduled'', ix_unique = False, ix_table = ''reminders'',
        ix_columns = [(''status'', False), (''scheduled_for'', False)], ix_where = None\<rparr>]"

definition CreateReminders_down :: "ddl_statement list" where
  "CreateReminders_down =
    [DropIndex ''IDX_reminders_status_scheduled'',
     DropTable ''reminders'',
     DropType ''reminder_status'',
     DropType ''reminder_type'']"

definition AddUnreadNotificationsIndex_up :: "ddl_statement list" where
  "AddUnreadNotificationsIndex_up =
    [CreateIndex \<lparr>ix_name = ''IDX_notifications_unread'', ix_unique = False, ix_table = ''notifications'',
        ix_columns = [(''recipient_id'', False), (''created_at'', True), (''id'', True)], ix_where = Some (ColumnIs ''is_read'' ''false'')\<rparr>]"

definition AddUnreadNotificationsIndex_down :: "ddl_statement list" where
  "AddUnreadNotificationsIndex_down =
    [DropIndex ''IDX_notifications_unread'']"

definition migrations :: "migration list" where
  "migrations = [(InitExtensions_up, InitExtensions_down),
     (CreateUsers_up, CreateUsers_down),
     (CreateRefreshTokens_up, CreateRefreshTokens_down),
     (CreateWorkspaces_up, CreateWorkspaces_down),
     (CreateWorkspaceMembers_up, CreateWorkspaceMembers_down),
     (CreateWorkspaceInvitations_up, CreateWorkspaceInvitations_down),
     (CreateProjects_up, CreateProjects_down),
     (CreateTasks_up, CreateTasks_down),
     (CreateComments_up, CreateComments_down),
     (CreateTaskActivity_up, CreateTaskActivity_down),
     (CreateNotifications_up, CreateNotifications_down),
     (CreateReminders_up, CreateReminders_down),
     (AddUnreadNotificationsIndex_up, AddUnreadNotificationsIndex_down)]"

lemmas migration_defs = migrations_def
  InitExtensions_up_def InitExtensions_down_def
  CreateUsers_up_def CreateUsers_down_def
  CreateRefreshTokens_up_def CreateRefreshTokens_down_def
  CreateWorkspaces_up_def CreateWorkspaces_down_def
  CreateWorkspaceMembers_up_def CreateWorkspaceMembers_down_def
  CreateWorkspaceInvitations_up_def CreateWorkspaceInvitations_down_def
  CreateProjects_up_def CreateProjects_down_def
  CreateTasks_up_def CreateTasks_down_def
  CreateComments_up_def CreateComments_down_def
  CreateTaskActivity_up_def CreateTaskActivity_down_def
  CreateNotifications_up_def CreateNotifications_down_def
  CreateReminders_up_def CreateReminders_down_def
  AddUnreadNotificationsIndex_up_def AddUnreadNotificationsIndex_down_def

section \<open>The entities\<close>

text \<open>What the decorators of an entity class say of its table.\<close>

definition TaskActivity_entity :: entity where
  "TaskActivity_entity =
    \<lparr>en_table = ''task_activity'',
     en_columns =
       [(''id'', Uuid, False, Call ''gen_random_uuid''),
        (''task_id'', Uuid, False, NoDefault),
        (''actor_id'', Uuid, True, NoDefault),
        (''action'', (Varchar 40), False, NoDefault),
        (''metadata'', Jsonb, False, (Literal ''{}'')),
        (''created_at'', Timestamptz, False, Call ''now'')],
     en_unique = [],
     en_relations = [(''task_id'', ''tasks'', Cascade),
       (''actor_id'', ''users'', SetNull)],
     en_indexes = [[''task_id'', ''created_at'', ''id''], [''task_id'']]\<rparr>"

definition RefreshToken_entity :: entity where
  "RefreshToken_entity =
    \<lparr>en_table = ''refresh_tokens'',
     en_columns =
       [(''id'', Uuid, False, Call ''gen_random_uuid''),
        (''user_id'', Uuid, False, NoDefault),
        (''token_hash'', (Varchar 64), False, NoDefault),
        (''family_id'', Uuid, False, NoDefault),
        (''expires_at'', Timestamptz, False, NoDefault),
        (''revoked_at'', Timestamptz, True, NoDefault),
        (''user_agent'', (Varchar 512), True, NoDefault),
        (''ip'', Inet, True, NoDefault),
        (''created_at'', Timestamptz, False, Call ''now'')],
     en_unique = [[''token_hash'']],
     en_relations = [(''user_id'', ''users'', Cascade)],
     en_indexes = [[''user_id''], [''family_id'']]\<rparr>"

definition Comment_entity :: entity where
  "Comment_entity =
    \<lparr>en_table = ''comments'',
     en_columns =
       [(''id'', Uuid, False, Call ''gen_random_uuid''),
        (''task_id'', Uuid, False, NoDefault),
        (''author_id'', Uuid, False, NoDefault),
        (''parent_comment_id'', Uuid, True, NoDefault),
        (''body'', Text, False, NoDefault),
        (''edited_at'', Timestamptz, True, NoDefault),
        (''created_at'', Timestamptz, False, Call ''now''),
        (''updated_at'', Timestamptz, False, Call ''now'')],
     en_unique = [],
     en_relations = [(''task_id'', ''tasks'', Cascade),
       (''author_id'', ''users'', Cascade),
       (''parent_comment_id'', ''comments'', Cascade)],
     en_indexes = [[''task_id'', ''created_at'', ''id''], [''task_id''], [''parent_comment_id'']]\<rparr>"

definition Notification_entity :: entity where
  "Notification_entity =
    \<lparr>en_table = ''notifications'',
     en_columns =
       [(''id'', Uuid, False, Call ''gen_random_uuid''),
        (''recipient_id'', Uuid, False, NoDefault),
        (''type'', (Varchar 40), False, NoDefault),
        (''title'', (Varchar 200), False, NoDefault),
        (''body'', Text, True, NoDefault),
        (''entity_type'', (Varchar 40), True, NoDefault),
        (''entity_id'', Uuid, True, NoDefault),
        (''workspace_id'', Uuid, True, NoDefault),
        (''is_read'', Boolean, False, (Literal ''false'')),
        (''read_at'', Timestamptz, True, NoDefault),
        (''created_at'', Timestamptz, False, Call ''now'')],
     en_unique = [],
     en_relations = [(''recipient_id'', ''users'', Cascade)],
     en_indexes = [[''recipient_id'', ''created_at'', ''id''], [''recipient_id'']]\<rparr>"

definition Project_entity :: entity where
  "Project_entity =
    \<lparr>en_table = ''projects'',
     en_columns =
       [(''id'', Uuid, False, Call ''gen_random_uuid''),
        (''workspace_id'', Uuid, False, NoDefault),
        (''name'', (Varchar 160), False, NoDefault),
        (''description'', Text, True, NoDefault),
        (''status'', (Enum ''project_status''), False, (Literal ''ACTIVE'')),
        (''created_by'', Uuid, False, NoDefault),
        (''created_at'', Timestamptz, False, Call ''now''),
        (''updated_at'', Timestamptz, False, Call ''now'')],
     en_unique = [],
     en_relations = [(''workspace_id'', ''workspaces'', Cascade)],
     en_indexes = [[''workspace_id'', ''created_at'', ''id''], [''workspace_id'']]\<rparr>"

definition Reminder_entity :: entity where
  "Reminder_entity =
    \<lparr>en_table = ''reminders'',
     en_columns =
       [(''id'', Uuid, False, Call ''gen_random_uuid''),
        (''task_id'', Uuid, False, NoDefault),
        (''type'', (Enum ''reminder_type''), False, NoDefault),
        (''scheduled_for'', Timestamptz, False, NoDefault),
        (''status'', (Enum ''reminder_status''), False, (Literal ''PENDING'')),
        (''attempts'', Integer, False, (Literal ''0'')),
        (''sent_at'', Timestamptz, True, NoDefault),
        (''created_at'', Timestamptz, False, Call ''now'')],
     en_unique = [[''task_id'', ''type'', ''scheduled_for'']],
     en_relations = [(''task_id'', ''tasks'', Cascade)],
     en_indexes = [[''status'', ''scheduled_for''], [''task_id'']]\<rparr>"

definition Task_entity :: entity where
  "Task_entity =
    \<lparr>en_table = ''tasks'',
     en_columns =
       [(''id'', Uuid, False, Call ''gen_random_uuid''),
        (''project_id'', Uuid, False, NoDefault),
        (''parent_task_id'', Uuid, True, NoDefault),
        (''title'', (Varchar 200), False, NoDefault),
        (''description'', Text, True, NoDefault),
        (''status'', (Enum ''task_status''), False, (Literal ''TODO'')),
        (''priority'', (Enum ''task_priority''), False, (Literal ''MEDIUM'')),
        (''assignee_id'', Uuid, True, NoDefault),
        (''created_by'', Uuid, False, NoDefault),
        (''due_date'', Timestamptz, True, NoDefault),
        (''completed_at'', Timestamptz, True, NoDefault),
        (''created_at'', Timestamptz, False, Call ''now''),
        (''updated_at'', Timestamptz, False, Call ''now'')],
     en_unique = [],
     en_relations = [(''project_id'', ''projects'', Cascade),
       (''parent_task_id'', ''tasks'', Cascade),
       (''assignee_id'', ''users'', SetNull)],
     en_indexes = [[''project_id'', ''created_at'', ''id''], [''project_id''], [''parent_task_id''], [''assignee_id'']]\<rparr>"

definition User_entity :: entity where
  "User_entity =
    \<lparr>en_table = ''users'',
     en_columns =
       [(''id'', Uuid, False, Call ''gen_random_uuid''),
        (''email'', Citext, False, NoDefault),
        (''password_hash'', (Varchar 255), False, NoDefault),
        (''name'', (Varchar 255), False, NoDefault),
        (''is_active'', Boolean, False, (Literal ''true'')),
        (''created_at'', Timestamptz, False, Call ''now''),
        (''updated_at'', Timestamptz, False, Call ''now'')],
     en_unique = [[''email'']],
     en_relations = [],
     en_indexes = []\<rparr>"

definition WorkspaceInvitation_entity :: entity where
  "WorkspaceInvitation_entity =
    \<lparr>en_table = ''workspace_invitations'',
     en_columns =
       [(''id'', Uuid, False, Call ''gen_random_uuid''),
        (''workspace_id'', Uuid, False, NoDefault),
        (''email'', Citext, False, NoDefault),
        (''role'', (Enum ''workspace_member_role''), False, (Literal ''MEMBER'')),
        (''token'', (Varchar 64), False, NoDefault),
        (''status'', (Enum ''invitation_status''), False, (Literal ''PENDING'')),
        (''invited_by'', Uuid, False, NoDefault),
        (''expires_at'', Timestamptz, False, NoDefault),
        (''created_at'', Timestamptz, False, Call ''now'')],
     en_unique = [[''token'']],
     en_relations = [(''workspace_id'', ''workspaces'', Cascade),
       (''invited_by'', ''users'', Cascade)],
     en_indexes = [[''workspace_id'']]\<rparr>"

definition WorkspaceMember_entity :: entity where
  "WorkspaceMember_entity =
    \<lparr>en_table = ''workspace_members'',
     en_columns =
       [(''id'', Uuid, False, Call ''gen_random_uuid''),
        (''workspace_id'', Uuid, False, NoDefault),
        (''user_id'', Uuid, False, NoDefault),
        (''role'', (Enum ''workspace_member_role''), False, (Literal ''MEMBER'')),
        (''joined_at'', Timestamptz, False, Call ''now'')],
     en_unique = [[''workspace_id'', ''user_id'']],
     en_relations = [(''workspace_id'', ''workspaces'', Cascade),
       (''user_id'', ''users'', Cascade)],
     en_indexes = [[''user_id'']]\<rparr>"

definition Workspace_entity :: entity where
  "Workspace_entity =
    \<lparr>en_table = ''workspaces'',
     en_columns =
       [(''id'', Uuid, False, Call ''gen_random_uuid''),
        (''name'', (Varchar 160), False, NoDefault),
        (''slug'', Citext, False, NoDefault),
        (''owner_id'', Uuid, False, NoDefault),
        (''created_at'', Timestamptz, False, Call ''now''),
        (''updated_at'', Timestamptz, False, Call ''now'')],
     en_unique = [[''slug'']],
     en_relations = [(''owner_id'', ''users'', Restrict)],
     en_indexes = [[''owner_id'']]\<rparr>"

definition entities :: "entity list" where
  "entities = [TaskActivity_entity, RefreshToken_entity, Comment_entity, Notification_entity, Project_entity, Reminder_entity, Task_entity, User_entity, WorkspaceInvitation_entity, WorkspaceMember_entity, Workspace_entity]"

lemmas entity_defs = entities_def
  TaskActivity_entity_def
  RefreshToken_entity_def
  Comment_entity_def
  Notification_entity_def
  Project_entity_def
  Reminder_entity_def
  Task_entity_def
  User_entity_def
  WorkspaceInvitation_entity_def
  WorkspaceMember_entity_def
  Workspace_entity_def

section \<open>Reverting\<close>

fun undo :: "ddl_statement \<Rightarrow> ddl_statement" where
  "undo (CreateExtension e) = DropExtension e"
| "undo (CreateType n vs) = DropType n"
| "undo (CreateTable n cs ks) = DropTable n"
| "undo (CreateIndex i) = DropIndex (ix_name i)"
| "undo c = c"

fun creating :: "ddl_statement \<Rightarrow> bool" where
  "creating (CreateExtension e) = True"
| "creating (CreateType n vs) = True"
| "creating (CreateTable n cs ks) = True"
| "creating (CreateIndex i) = True"
| "creating c = False"

fun new_extensions :: "ddl_statement \<Rightarrow> string list" where
  "new_extensions (CreateExtension e) = [e]"
| "new_extensions c = []"

text \<open>What holds of a catalogue: columns have known types, foreign keys and indexes belong to tables.\<close>

definition schema_ok :: "schema \<Rightarrow> bool" where
  "schema_ok s \<longleftrightarrow>
     (\<forall>t \<in> set (sc_tables s). (\<forall>c \<in> set (tb_columns t). type_known s (fst (snd c))) \<and>
        (\<forall>k \<in> set (tb_constraints t). reference_ok (sc_tables s) k)) \<and>
     (\<forall>i \<in> set (sc_indexes s). ix_table i \<in> set (table_names s))"

lemma empty_schema_ok: "schema_ok empty_schema"
  by (simp add: schema_ok_def empty_schema_def)

lemma type_known_extension [simp]:
  "type_known s ty \<Longrightarrow> type_known (s\<lparr>sc_extensions := sc_extensions s @ es\<rparr>) ty"
  by (cases ty) (auto simp: type_names_def)

lemma type_known_type [simp]:
  "type_known s ty \<Longrightarrow> type_known (s\<lparr>sc_types := sc_types s @ ts\<rparr>) ty"
  by (cases ty) (auto simp: type_names_def)

lemma type_known_tables [simp]: "type_known (s\<lparr>sc_tables := ts\<rparr>) ty = type_known s ty"
  by (cases ty) (auto simp: type_names_def)

lemma type_known_indexes [simp]: "type_known (s\<lparr>sc_indexes := is\<rparr>) ty = type_known s ty"
  by (cases ty) (auto simp: type_names_def)

lemma reference_ok_mono: "reference_ok ts k \<Longrightarrow> set ts \<subseteq> set us \<Longrightarrow> reference_ok us k"
  by (cases k) (auto simp: list_ex_iff)

lemma unknown_unused: "schema_ok s \<Longrightarrow> \<not> type_known s ty \<Longrightarrow> \<not> uses_type ty s"
  unfolding schema_ok_def uses_type_def list_ex_iff by fastforce

lemma reference_target: "reference_ok ts k \<Longrightarrow> refers_to n k \<Longrightarrow> n \<in> set (map tb_name ts)"
  by (cases k) (auto simp: list_ex_iff)

lemma filter_fresh: "(\<And>x. x \<in> set xs \<Longrightarrow> key x \<noteq> k) \<Longrightarrow> filter (\<lambda>x. key x \<noteq> k) xs = xs"
  by (simp add: filter_id_conv)

lemma uses_type_same_tables: "sc_tables s' = sc_tables s \<Longrightarrow> uses_type ty s' = uses_type ty s"
  by (simp add: uses_type_def)

lemma create_extension_undone:
  assumes "schema_ok s" and "e \<notin> set (sc_extensions s)"
  shows "schema_ok (s\<lparr>sc_extensions := sc_extensions s @ [e]\<rparr>) \<and>
    execute (DropExtension e) (s\<lparr>sc_extensions := sc_extensions s @ [e]\<rparr>) = Inr s"
proof -
  have "filter (\<lambda>x. x \<noteq> e) (sc_extensions s) = sc_extensions s"
    using assms(2) by (intro filter_fresh) auto
  then show ?thesis
    using assms unknown_unused [OF assms(1), of Citext]
    by (auto simp: schema_ok_def table_names_def uses_type_same_tables [of "s\<lparr>sc_extensions := sc_extensions s @ [e]\<rparr>" s])
qed

lemma create_type_undone:
  assumes "schema_ok s" and "n \<notin> set (type_names s)"
  shows "schema_ok (s\<lparr>sc_types := sc_types s @ [(n, vs)]\<rparr>) \<and>
    execute (DropType n) (s\<lparr>sc_types := sc_types s @ [(n, vs)]\<rparr>) = Inr s"
proof -
  have "filter (\<lambda>x. fst x \<noteq> n) (sc_types s) = sc_types s"
    using assms(2) by (intro filter_fresh) (auto simp: type_names_def)
  then show ?thesis
    using assms unknown_unused [OF assms(1), of "Enum n"]
    by (auto simp: schema_ok_def table_names_def type_names_def
        uses_type_same_tables [of "s\<lparr>sc_types := sc_types s @ [(n, vs)]\<rparr>" s])
qed

lemma create_index_undone:
  assumes "schema_ok s" and "ix_name i \<notin> set (relation_names s)" and "ix_table i \<in> set (table_names s)"
  shows "schema_ok (s\<lparr>sc_indexes := sc_indexes s @ [i]\<rparr>) \<and>
    execute (DropIndex (ix_name i)) (s\<lparr>sc_indexes := sc_indexes s @ [i]\<rparr>) = Inr s"
proof -
  have "ix_name i \<notin> set (map ix_name (sc_indexes s))" using assms(2) by (simp add: relation_names_def)
  then have "filter (\<lambda>x. ix_name x \<noteq> ix_name i) (sc_indexes s) = sc_indexes s"
    by (intro filter_fresh) (metis in_set_conv_nth length_map nth_map nth_mem)
  then show ?thesis using assms by (auto simp: schema_ok_def table_names_def)
qed

lemma create_table_undone:
  assumes ok: "schema_ok s" and new: "execute (CreateTable n cs ks) s = Inr s'"
  shows "schema_ok s' \<and> execute (DropTable n) s' = Inr s"
proof -
  let ?t = "\<lparr>tb_name = n, tb_columns = cs, tb_constraints = ks\<rparr>"
  have s': "s' = s\<lparr>sc_tables := sc_tables s @ [?t]\<rparr>" and n: "n \<notin> set (relation_names s)"
    and cs: "list_all (\<lambda>c. type_known s (fst (snd c))) cs" and ks: "list_all (reference_ok (sc_tables s @ [?t])) ks"
    using new by (auto simp: Let_def split: if_splits)
  have fresh: "n \<notin> set (map tb_name (sc_tables s))" using n by (simp add: relation_names_def table_names_def)
  have more: "reference_ok (sc_tables s) k \<Longrightarrow> reference_ok (sc_tables s @ [?t]) k" for k
    by (erule reference_ok_mono) auto
  have ok': "schema_ok s'"
    using ok cs ks unfolding s' schema_ok_def
    by (auto simp: list_all_iff table_names_def intro: more)
  have "\<not> refers_to n k" if "t \<in> set (sc_tables s)" "k \<in> set (tb_constraints t)" for t k
    using ok that fresh reference_target [of "sc_tables s" k n] by (auto simp: schema_ok_def)
  moreover have "filter (\<lambda>t. tb_name t \<noteq> n) (sc_tables s) = sc_tables s"
    using fresh by (intro filter_fresh) auto
  moreover have "filter (\<lambda>i. ix_table i \<noteq> n) (sc_indexes s) = sc_indexes s"
    using ok fresh by (intro filter_fresh) (auto simp: schema_ok_def table_names_def)
  ultimately have "execute (DropTable n) s' = Inr s"
    by (auto simp: s' table_names_def list_ex_iff)
  with ok' show ?thesis by blast
qed

lemma execute_undone:
  assumes "schema_ok s" and "creating c" and "set (new_extensions c) \<inter> set (sc_extensions s) = {}"
    and "execute c s = Inr s'"
  shows "schema_ok s' \<and> execute (undo c) s' = Inr s"
proof (cases c)
  case (CreateTable n cs ks)
  with create_table_undone [OF assms(1), of n cs ks s'] assms(4) show ?thesis by simp
next
  case (CreateExtension e)
  with create_extension_undone [OF assms(1), of e] assms(3,4) show ?thesis by auto
next
  case (CreateType n vs)
  with create_type_undone [OF assms(1), of n vs] assms(4) show ?thesis by (auto split: if_splits)
next
  case (CreateIndex i)
  with create_index_undone [OF assms(1), of i] assms(4) show ?thesis by (auto split: if_splits)
qed (use assms(2) in simp_all)

lemma execute_extensions:
  "creating c \<Longrightarrow> execute c s = Inr s' \<Longrightarrow> set (sc_extensions s') = set (sc_extensions s) \<union> set (new_extensions c)"
  by (cases c) (auto simp: Let_def split: if_splits)

lemma run_ddl_append:
  "run_ddl (cs @ ds) s = (case run_ddl cs s of Inl e \<Rightarrow> Inl e | Inr t \<Rightarrow> run_ddl ds t)"
  by (induction cs arbitrary: s) (auto split: sum.split)

lemma run_ddl_undone:
  assumes "schema_ok s" and "list_all creating cs" and "distinct (concat (map new_extensions cs))"
    and "set (concat (map new_extensions cs)) \<inter> set (sc_extensions s) = {}" and "run_ddl cs s = Inr s'"
  shows "schema_ok s' \<and> run_ddl (rev (map undo cs)) s' = Inr s"
  using assms
proof (induction cs arbitrary: s)
  case Nil
  then show ?case by simp
next
  case (Cons c cs)
  from Cons.prems(5) obtain t where t: "execute c s = Inr t" "run_ddl cs t = Inr s'" by (auto split: sum.splits)
  from Cons.prems have "schema_ok t \<and> execute (undo c) t = Inr s"
    using execute_undone [OF Cons.prems(1) _ _ t(1)] by auto
  moreover have "set (concat (map new_extensions cs)) \<inter> set (sc_extensions t) = {}"
    using Cons.prems execute_extensions [OF _ t(1)] by auto
  ultimately show ?case
    using Cons.IH [of t] Cons.prems t(2) by (auto simp: run_ddl_append)
qed

lemma run_ddl_extensions:
  "list_all creating cs \<Longrightarrow> run_ddl cs s = Inr s' \<Longrightarrow>
     set (sc_extensions s') = set (sc_extensions s) \<union> set (concat (map new_extensions cs))"
proof (induction cs arbitrary: s)
  case (Cons c cs)
  then obtain t where t: "execute c s = Inr t" "run_ddl cs t = Inr s'" by (auto split: sum.splits)
  from Cons.IH [OF _ t(2)] Cons.prems(1) execute_extensions [OF _ t(1)] show ?case by auto
qed simp

lemma downs_undo: "list_all (\<lambda>m. snd m = rev (map undo (fst m)) \<and> list_all creating (fst m)) migrations"
  by (simp add: migration_defs)

lemma downs_concat:
  "list_all (\<lambda>m. snd m = rev (map undo (fst m)) \<and> list_all creating (fst m)) ms \<Longrightarrow>
     concat (map snd (rev ms)) = rev (map undo (concat (map fst ms))) \<and> list_all creating (concat (map fst ms))"
  by (induction ms) auto


section \<open>The schema the migrations make\<close>

definition the_schema :: schema where
  "the_schema = (case run_ddl (concat (map fst migrations)) empty_schema of Inl e \<Rightarrow> empty_schema | Inr s \<Rightarrow> s)"

lemma migrations_run: "isl (run_ddl (concat (map fst migrations)) empty_schema) = False"
  by code_simp

lemma migrations_schema: "run_ddl (concat (map fst migrations)) empty_schema = Inr the_schema"
  using migrations_run by (cases "run_ddl (concat (map fst migrations)) empty_schema") (auto simp: the_schema_def)

text \<open>An entity agrees with a table: the same columns, and what it says is unique and related is so in the table.\<close>

definition unique_in :: "sql_table \<Rightarrow> string list \<Rightarrow> bool" where
  "unique_in t cs = list_ex (\<lambda>k. case k of Unique n ds \<Rightarrow> ds = cs | _ \<Rightarrow> False) (tb_constraints t)"

definition related_in :: "sql_table \<Rightarrow> string \<times> string \<times> on_delete \<Rightarrow> bool" where
  "related_in t r = list_ex (\<lambda>k. case k of ForeignKey n c u x d \<Rightarrow> (c, u, d) = r \<and> x = ''id'' | _ \<Rightarrow> False) (tb_constraints t)"

definition agrees :: "sql_table \<Rightarrow> entity \<Rightarrow> bool" where
  "agrees t e \<longleftrightarrow> tb_name t = en_table e \<and> tb_columns t = en_columns e \<and>
     list_all (unique_in t) (en_unique e) \<and> list_all (related_in t) (en_relations e)"

text \<open>The tables whose entity agrees with them, and the entities that have no such table.\<close>

lemma entities_agree:
  "list_all (\<lambda>t. list_ex (agrees t) entities) (sc_tables the_schema) \<and>
   list_all (\<lambda>e. list_ex (\<lambda>t. agrees t e) (sc_tables the_schema)) entities"
  by code_simp

text \<open>The errors a write to a table can end in, read off its constraints, its unique indexes and the widths of its
  columns.  A check that lists the values of a column is the type of that column in the model.\<close>

fun constraint_errors :: "string \<Rightarrow> table_constraint \<Rightarrow> db_error list" where
  "constraint_errors t (PrimaryKey c) = [UniqueViolation (t @ ''_pkey'')]"
| "constraint_errors t (Unique n cs) = [UniqueViolation n]"
| "constraint_errors t (Check n (ColumnsDiffer c d)) = [CheckViolation n]"
| "constraint_errors t (Check n w) = []"
| "constraint_errors t (ForeignKey n c u r d) = [ForeignKeyViolation n]"

fun width_errors :: "sql_column \<Rightarrow> db_error list" where
  "width_errors (c, Varchar k, nullable, d) = [ValueTooLong c]"
| "width_errors _ = []"

definition write_errors :: "schema \<Rightarrow> string \<Rightarrow> db_error list" where
  "write_errors s n =
     concat (map (\<lambda>t. if tb_name t = n then concat (map width_errors (tb_columns t)) @
        concat (map (constraint_errors n) (tb_constraints t)) else []) (sc_tables s)) @
     concat (map (\<lambda>i. if ix_table i = n \<and> ix_unique i then [UniqueViolation (ix_name i)] else []) (sc_indexes s))"

lemma the_write_errors:
  "map (write_errors the_schema) [''users'', ''refresh_tokens'', ''workspaces'', ''workspace_members'',
      ''workspace_invitations'', ''projects'', ''tasks'', ''comments'', ''task_activity'', ''notifications''] =
   [[ValueTooLong ''password_hash'', ValueTooLong ''name'', UniqueViolation ''users_pkey'', UniqueViolation ''UQ_users_email''],
    [ValueTooLong ''token_hash'', ValueTooLong ''user_agent'', UniqueViolation ''refresh_tokens_pkey'',
     UniqueViolation ''UQ_refresh_tokens_token_hash'', ForeignKeyViolation ''FK_refresh_tokens_user''],
    [ValueTooLong ''name'', UniqueViolation ''workspaces_pkey'', UniqueViolation ''UQ_workspaces_slug'',
     ForeignKeyViolation ''FK_workspaces_owner''],
    [UniqueViolation ''workspace_members_pkey'', UniqueViolation ''UQ_workspace_members_ws_user'',
     ForeignKeyViolation ''FK_workspace_members_workspace'', ForeignKeyViolation ''FK_workspace_members_user''],
    [ValueTooLong ''token'', UniqueViolation ''workspace_invitations_pkey'', UniqueViolation ''UQ_workspace_invitations_token'',
     ForeignKeyViolation ''FK_workspace_invitations_workspace'', ForeignKeyViolation ''FK_workspace_invitations_inviter'',
     UniqueViolation ''UQ_workspace_invitations_pending_email''],
    [ValueTooLong ''name'', UniqueViolation ''projects_pkey'', ForeignKeyViolation ''FK_projects_workspace'',
     ForeignKeyViolation ''FK_projects_creator''],
    [ValueTooLong ''title'', UniqueViolation ''tasks_pkey'', CheckViolation ''CHK_tasks_no_self_parent'',
     ForeignKeyViolation ''FK_tasks_project'', ForeignKeyViolation ''FK_tasks_parent'',
     ForeignKeyViolation ''FK_tasks_assignee'', ForeignKeyViolation ''FK_tasks_creator''],
    [UniqueViolation ''comments_pkey'', CheckViolation ''CHK_comments_no_self_parent'', ForeignKeyViolation ''FK_comments_task'',
     ForeignKeyViolation ''FK_comments_author'', ForeignKeyViolation ''FK_comments_parent''],
    [ValueTooLong ''action'', UniqueViolation ''task_activity_pkey'', ForeignKeyViolation ''FK_task_activity_task'',
     ForeignKeyViolation ''FK_task_activity_actor''],
    [ValueTooLong ''type'', ValueTooLong ''title'', ValueTooLong ''entity_type'', UniqueViolation ''notifications_pkey'',
     ForeignKeyViolation ''FK_notifications_recipient'', ForeignKeyViolation ''FK_notifications_workspace'']]"
  by code_simp

lemmas table_errors = the_write_errors [unfolded list.map list.inject]

lemma enforce_error: "enforce cs a = Inl e \<Longrightarrow> e \<in> set (map snd cs)"
  using enforce_Inl_mem [of cs a e] by force

lemmas insert_defs = insert_user_def insert_token_def insert_workspace_def insert_member_def insert_invitation_def
  insert_project_def project_checks_def insert_task_def task_checks_def update_task_def update_project_def
  insert_comment_def insert_activity_def insert_notification_def

section \<open>Properties\<close>

text \<open>
  C23.  Every migration undoes itself: after any number of the migrations has been applied, in order, to a catalogue
  in which every reference is good and no extension is installed, reverting the last ones, last first, gives back
  exactly the catalogue that was there before them, and no statement of a revert fails.
\<close>

theorem migrations_revert:
  assumes "schema_ok s" and "sc_extensions s = []" and "i \<le> j" and "j \<le> length migrations"
    and up: "run_ddl (concat (map fst (take i migrations))) s = Inr si"
    and more: "run_ddl (concat (map fst (drop i (take j migrations)))) si = Inr sj"
  shows "run_ddl (concat (map snd (rev (drop i (take j migrations))))) sj = Inr si"
proof -
  have all: "list_all (\<lambda>m. snd m = rev (map undo (fst m)) \<and> list_all creating (fst m)) (drop i (take j migrations))"
      "list_all (\<lambda>m. snd m = rev (map undo (fst m)) \<and> list_all creating (fst m)) (take i migrations)"
    using downs_undo by (auto simp: list_all_iff dest: in_set_dropD in_set_takeD)
  let ?ext = "\<lambda>ms. concat (map new_extensions (concat (map fst ms)))"
  have "take j migrations = take i migrations @ drop i (take j migrations)"
    using assms(3) by (metis append_take_drop_id min.absorb1 take_take)
  then have "migrations = take i migrations @ drop i (take j migrations) @ drop j migrations"
    by (metis append.assoc append_take_drop_id)
  then have "?ext migrations = ?ext (take i migrations) @ ?ext (drop i (take j migrations)) @ ?ext (drop j migrations)"
    by (metis concat_append map_append)
  moreover have "distinct (?ext migrations)" by code_simp
  ultimately have dist: "distinct (?ext (take i migrations) @ ?ext (drop i (take j migrations)))"
    by (metis append_assoc distinct_append)
  have creating: "list_all creating (concat (map fst (take i migrations)))"
    using downs_concat [OF all(2)] by blast
  have ok: "schema_ok si"
    using run_ddl_undone [OF assms(1) creating _ _ up] dist assms(2) by simp
  have "set (sc_extensions si) = set (?ext (take i migrations))"
    using run_ddl_extensions [OF creating up] assms(2) by simp
  with run_ddl_undone [OF ok _ _ _ more] downs_concat [OF all(1)] dist show ?thesis by auto
qed

theorem migrations_revert_witness:
  "run_ddl (concat (map snd (rev migrations))) the_schema = Inr empty_schema"
proof -
  have "take 0 migrations = []" "drop 0 (take (length migrations) migrations) = migrations" by simp_all
  with migrations_revert [OF empty_schema_ok, of 0 "length migrations" empty_schema the_schema] migrations_schema
  show ?thesis by (simp add: empty_schema_def)
qed


text \<open>
  The writes of the model are those of the schema: whatever row is inserted or updated, the error the write
  ends in, if it does, is one that a constraint, a unique index or a column width of that table in the migrated
  schema can give.
\<close>

theorem refusals_are_constraints:
  "(insert_user u s = Inl e \<longrightarrow> e \<in> set (write_errors the_schema ''users'')) \<and>
   (insert_token tk s = Inl e \<longrightarrow> e \<in> set (write_errors the_schema ''refresh_tokens'')) \<and>
   (insert_workspace w s = Inl e \<longrightarrow> e \<in> set (write_errors the_schema ''workspaces'')) \<and>
   (insert_member m s = Inl e \<longrightarrow> e \<in> set (write_errors the_schema ''workspace_members'')) \<and>
   (insert_invitation i s = Inl e \<longrightarrow> e \<in> set (write_errors the_schema ''workspace_invitations'')) \<and>
   (insert_project p s = Inl e \<or> update_project p s = Inl e \<longrightarrow> e \<in> set (write_errors the_schema ''projects'')) \<and>
   (insert_task t s = Inl e \<or> update_task t s = Inl e \<longrightarrow> e \<in> set (write_errors the_schema ''tasks'')) \<and>
   (insert_comment c s = Inl e \<longrightarrow> e \<in> set (write_errors the_schema ''comments'')) \<and>
   (insert_activity a s = Inl e \<longrightarrow> e \<in> set (write_errors the_schema ''task_activity'')) \<and>
   (insert_notification n s = Inl e \<longrightarrow> e \<in> set (write_errors the_schema ''notifications''))"
  by (intro conjI impI; (elim disjE)?;
      unfold insert_defs; drule enforce_error; simp only: table_errors list.map snd_conv append_Cons append_Nil list.set; blast)

theorem refusals_are_constraints_witness:
  "insert_user ((ex_user ''u4'' ''A@x'')) ex_app = Inl (UniqueViolation ''UQ_users_email'') \<and>
    UniqueViolation ''UQ_users_email'' \<in> set (write_errors the_schema ''users'')"
proof -
  have "insert_user ((ex_user ''u4'' ''A@x'')) ex_app = Inl (UniqueViolation ''UQ_users_email'')" by code_simp
  with refusals_are_constraints [THEN conjunct1, rule_format, OF this] show ?thesis by blast
qed

end
