(* ===== verification/Bootstrap.thy ===== *)
theory Bootstrap
  imports Realtime
begin

text \<open>
  How a process starts (\<open>src/main.ts\<close>, \<open>src/config\<close>, \<open>src/queue\<close>, \<open>src/database\<close> and the modules of the
  features): the check of the environment, the configuration read from it, the connections, and the providers the
  modules choose by \<open>QUEUE_ENABLED\<close> and \<open>RUN_MODE\<close>.  The environment is a map; \<open>dotenv\<close> has filled it.
  Joi's elementary checks and the platform's \<open>URL\<close> and \<open>decodeURIComponent\<close> are parameters.
\<close>

type_synonym env = "string \<Rightarrow> string option"

section \<open>Reading the environment\<close>

text \<open>\<open>a ?? d\<close> and \<open>a || undefined\<close>.\<close>

definition or_else :: "'a option \<Rightarrow> 'a \<Rightarrow> 'a" where
  "or_else a d = (case a of None \<Rightarrow> d | Some x \<Rightarrow> x)"

definition non_empty :: "string option \<Rightarrow> string option" where
  "non_empty a = (case a of None \<Rightarrow> None | Some s \<Rightarrow> if s = [] then None else Some s)"

text \<open>\<open>parseInt(s, 10)\<close>, None where it is \<open>NaN\<close>.\<close>

definition js_parseInt :: "string \<Rightarrow> int option" where
  "js_parseInt s =
     (let t = dropWhile is_space s;
          (sign, u) = (case t of c # r \<Rightarrow> if c = CHR ''-'' then (- 1, r) else if c = CHR ''+'' then (1, r) else (1, t)
                       | [] \<Rightarrow> (1, t));
          ds = takeWhile is_digit u
      in if ds = [] then None else Some (sign * digits_val ds))"

record config =
  cf_env :: string
  cf_runMode :: string
  cf_port :: "int option"
  cf_dbUrl :: "string option"
  cf_dbHost :: string
  cf_dbPort :: "int option"
  cf_dbUsername :: string
  cf_dbPassword :: string
  cf_dbName :: string
  cf_dbSynchronize :: bool
  cf_dbLogging :: bool
  cf_dbSsl :: bool
  cf_redisHost :: string
  cf_redisPort :: "int option"
  cf_queueEnabled :: bool
  cf_queueRedisUrl :: "string option"
  cf_accessSecret :: string
  cf_accessTtl :: string
  cf_refreshSecret :: string
  cf_refreshTtl :: string

definition DEV_ACCESS_SECRET :: string where
  "DEV_ACCESS_SECRET = ''dev-access-secret-change-me''"

definition DEV_REFRESH_SECRET :: string where
  "DEV_REFRESH_SECRET = ''dev-refresh-secret-change-me''"

definition configuration :: "env \<Rightarrow> config" where
  "configuration env =
     \<lparr>cf_env = or_else (env ''NODE_ENV'') ''development'',
      cf_runMode = or_else (env ''RUN_MODE'') ''api'',
      cf_port = js_parseInt (or_else (env ''PORT'') ''3000''),
      cf_dbUrl = non_empty (env ''DATABASE_URL''),
      cf_dbHost = or_else (env ''DB_HOST'') ''localhost'',
      cf_dbPort = js_parseInt (or_else (env ''DB_PORT'') ''5432''),
      cf_dbUsername = or_else (env ''DB_USERNAME'') ''postgres'',
      cf_dbPassword = or_else (env ''DB_PASSWORD'') ''postgres'',
      cf_dbName = or_else (env ''DB_NAME'') ''task_platform'',
      cf_dbSynchronize = (or_else (env ''DB_SYNCHRONIZE'') ''false'' = ''true''),
      cf_dbLogging = (or_else (env ''DB_LOGGING'') ''false'' = ''true''),
      cf_dbSsl = (or_else (env ''DB_SSL'') ''false'' = ''true''),
      cf_redisHost = or_else (env ''REDIS_HOST'') ''localhost'',
      cf_redisPort = js_parseInt (or_else (env ''REDIS_PORT'') ''6379''),
      cf_queueEnabled = (or_else (env ''QUEUE_ENABLED'') ''false'' = ''true''),
      cf_queueRedisUrl = non_empty (env ''REDIS_URL''),
      cf_accessSecret = or_else (env ''JWT_ACCESS_SECRET'') DEV_ACCESS_SECRET,
      cf_accessTtl = or_else (env ''JWT_ACCESS_TTL'') ''15m'',
      cf_refreshSecret = or_else (env ''JWT_REFRESH_SECRET'') DEV_REFRESH_SECRET,
      cf_refreshTtl = or_else (env ''JWT_REFRESH_TTL'') ''7d''\<rparr>"

section \<open>The check at boot\<close>

text \<open>What Joi decides of one value: \<open>string()\<close>, \<open>min(n)\<close> of a string, \<open>number().port()\<close>, \<open>boolean()\<close>.\<close>

record joi =
  jo_string :: "string \<Rightarrow> bool"
  jo_min :: "nat \<Rightarrow> string \<Rightarrow> bool"
  jo_port :: "string \<Rightarrow> bool"
  jo_boolean :: "string \<Rightarrow> bool"

text \<open>As documented: \<open>min(n)\<close> asks for at least \<open>n\<close> characters, \<open>string()\<close> for a non-empty string.\<close>

definition joi_documented :: "joi \<Rightarrow> bool" where
  "joi_documented j \<longleftrightarrow> (\<forall>n s. jo_min j n s \<longrightarrow> n \<le> length s) \<and> (\<forall>s. jo_string j s \<longrightarrow> s \<noteq> [])"

definition optional_value :: "(string \<Rightarrow> bool) \<Rightarrow> string option \<Rightarrow> bool" where
  "optional_value ok v = (case v of None \<Rightarrow> True | Some s \<Rightarrow> ok s)"

definition required_value :: "(string \<Rightarrow> bool) \<Rightarrow> string option \<Rightarrow> bool" where
  "required_value ok v = (case v of None \<Rightarrow> False | Some s \<Rightarrow> ok s)"

definition requiredUnlessUrl :: "joi \<Rightarrow> env \<Rightarrow> string option \<Rightarrow> bool" where
  "requiredUnlessUrl j env v =
     (if env ''DATABASE_URL'' \<noteq> None then optional_value (jo_string j) v else required_value (jo_string j) v)"

definition productionSecret :: "joi \<Rightarrow> env \<Rightarrow> string \<Rightarrow> string option \<Rightarrow> bool" where
  "productionSecret j env devDefault v =
     (if env ''NODE_ENV'' = Some ''production''
      then required_value (\<lambda>s. jo_string j s \<and> jo_min j 32 s \<and> s \<noteq> devDefault) v
      else optional_value (jo_string j) v)"

definition envValidationSchema :: "joi \<Rightarrow> env \<Rightarrow> bool" where
  "envValidationSchema j env \<longleftrightarrow>
     optional_value (\<lambda>s. s \<in> {''development'', ''test'', ''production''}) (env ''NODE_ENV'') \<and>
     optional_value (\<lambda>s. s \<in> {''api'', ''worker''}) (env ''RUN_MODE'') \<and>
     optional_value (jo_port j) (env ''PORT'') \<and>
     optional_value (jo_string j) (env ''DATABASE_URL'') \<and>
     optional_value (jo_string j) (env ''DB_HOST'') \<and>
     optional_value (jo_port j) (env ''DB_PORT'') \<and>
     requiredUnlessUrl j env (env ''DB_USERNAME'') \<and>
     requiredUnlessUrl j env (env ''DB_PASSWORD'') \<and>
     requiredUnlessUrl j env (env ''DB_NAME'') \<and>
     optional_value (jo_boolean j) (env ''DB_SYNCHRONIZE'') \<and>
     optional_value (jo_boolean j) (env ''DB_LOGGING'') \<and>
     optional_value (jo_boolean j) (env ''DB_SSL'') \<and>
     optional_value (jo_string j) (env ''REDIS_HOST'') \<and>
     optional_value (jo_port j) (env ''REDIS_PORT'') \<and>
     optional_value (jo_string j) (env ''REDIS_URL'') \<and>
     optional_value (jo_boolean j) (env ''QUEUE_ENABLED'') \<and>
     productionSecret j env DEV_ACCESS_SECRET (env ''JWT_ACCESS_SECRET'') \<and>
     optional_value (jo_string j) (env ''JWT_ACCESS_TTL'') \<and>
     productionSecret j env DEV_REFRESH_SECRET (env ''JWT_REFRESH_SECRET'') \<and>
     optional_value (jo_string j) (env ''JWT_REFRESH_TTL'')"

text \<open>
  A process starts with the configuration of an environment that passes the check.  The defaults Joi would fill in are
  those \<open>configuration\<close> fills in.
\<close>

definition boot :: "joi \<Rightarrow> env \<Rightarrow> config option" where
  "boot j env = (if envValidationSchema j env then Some (configuration env) else None)"

text \<open>The secret of the guard of the requests, of the signer of access tokens and of the socket handshake.\<close>

definition JwtStrategy_secret :: "config \<Rightarrow> string" where
  "JwtStrategy_secret config = cf_accessSecret config"

definition AuthModule_jwt :: "config \<Rightarrow> string \<times> string" where
  "AuthModule_jwt config = (cf_accessSecret config, cf_accessTtl config)"

definition RealtimeModule_jwt :: "config \<Rightarrow> string" where
  "RealtimeModule_jwt config = cf_accessSecret config"

text \<open>The constructor of \<open>RefreshTokenService\<close>: the lifetime of a session, or no start.\<close>

definition RefreshTokenService_ttlMs :: "(string \<Rightarrow> int option) \<Rightarrow> config \<Rightarrow> int res" where
  "RefreshTokenService_ttlMs number config = parseDurationMs number (cf_refreshTtl config)"

section \<open>Connections\<close>

datatype db_target =
    DbUrl string
  | DbFields string "int option" string string string

record db_options =
  do_target :: db_target
  do_synchronize :: bool
  do_logging :: bool
  do_ssl :: bool

text \<open>The connection of the application and that of the command line that runs the migrations.\<close>

definition DatabaseModule_options :: "config \<Rightarrow> db_options" where
  "DatabaseModule_options config =
     \<lparr>do_target = (case cf_dbUrl config of
        Some url \<Rightarrow> DbUrl url
      | None \<Rightarrow> DbFields (cf_dbHost config) (cf_dbPort config) (cf_dbUsername config) (cf_dbPassword config) (cf_dbName config)),
      do_synchronize = False, do_logging = cf_dbLogging config, do_ssl = cf_dbSsl config\<rparr>"

definition AppDataSource_options :: "env \<Rightarrow> db_options" where
  "AppDataSource_options env =
     \<lparr>do_target = (case non_empty (env ''DATABASE_URL'') of
        Some url \<Rightarrow> DbUrl url
      | None \<Rightarrow> DbFields (or_else (env ''DB_HOST'') ''localhost'') (js_parseInt (or_else (env ''DB_PORT'') ''5432''))
          (or_else (env ''DB_USERNAME'') ''postgres'') (or_else (env ''DB_PASSWORD'') ''postgres'')
          (or_else (env ''DB_NAME'') ''task_platform'')),
      do_synchronize = False, do_logging = (or_else (env ''DB_LOGGING'') ''false'' = ''true''),
      do_ssl = (or_else (env ''DB_SSL'') ''false'' = ''true'')\<rparr>"

text \<open>A parsed URL; a part that is absent is the empty string, as in \<open>URL\<close>.\<close>

record url_parts =
  ur_protocol :: string
  ur_hostname :: string
  ur_portText :: string
  ur_user :: string
  ur_pass :: string

record redis_connection =
  rc_host :: string
  rc_port :: "int option"
  rc_username :: "string option"
  rc_password :: "string option"
  rc_tls :: bool

definition connectionFromUrl ::
    "(string \<Rightarrow> url_parts option) \<Rightarrow> (string \<Rightarrow> string option) \<Rightarrow> (string \<Rightarrow> int option) \<Rightarrow> string \<Rightarrow> redis_connection res" where
  "connectionFromUrl parse decode number url =
     (case parse url of
        None \<Rightarrow> Inl (JsError ''Invalid URL'')
      | Some u \<Rightarrow>
          (case (if ur_user u = [] then Some None else map_option Some (decode (ur_user u)),
                 if ur_pass u = [] then Some None else map_option Some (decode (ur_pass u))) of
             (Some user, Some pass) \<Rightarrow>
               Inr \<lparr>rc_host = ur_hostname u, rc_port = number (if ur_portText u = [] then ''6379'' else ur_portText u),
                    rc_username = user, rc_password = pass, rc_tls = (ur_protocol u = ''rediss:'')\<rparr>
           | _ \<Rightarrow> Inl (JsError ''URI malformed'')))"

definition queueEnabled :: "env \<Rightarrow> bool" where
  "queueEnabled env \<longleftrightarrow> env ''QUEUE_ENABLED'' = Some ''true''"

definition isWorker :: "env \<Rightarrow> bool" where
  "isWorker env \<longleftrightarrow> env ''RUN_MODE'' = Some ''worker''"

text \<open>No connection without the queue.\<close>

definition QueueModule_forRoot ::
    "(string \<Rightarrow> url_parts option) \<Rightarrow> (string \<Rightarrow> string option) \<Rightarrow> (string \<Rightarrow> int option) \<Rightarrow> env \<Rightarrow> config \<Rightarrow>
     redis_connection option res" where
  "QueueModule_forRoot parse decode number env config =
     (if env ''QUEUE_ENABLED'' \<noteq> Some ''true'' then Inr None
      else (case cf_queueRedisUrl config of
              Some url \<Rightarrow> (case connectionFromUrl parse decode number url of Inl e \<Rightarrow> Inl e | Inr c \<Rightarrow> Inr (Some c))
            | None \<Rightarrow> Inr (Some \<lparr>rc_host = cf_redisHost config, rc_port = cf_redisPort config,
                               rc_username = None, rc_password = None, rc_tls = False\<rparr>)))"

text \<open>Where the two halves of the bridge find Redis; both classes read it the same way.\<close>

datatype redis_target = RedisUrl string | RedisHost string "int option"

definition RealtimePublisher_onModuleInit :: "(string \<Rightarrow> int option) \<Rightarrow> env \<Rightarrow> config \<Rightarrow> redis_target" where
  "RealtimePublisher_onModuleInit number env config =
     (let url = (case cf_queueRedisUrl config of Some u \<Rightarrow> Some u | None \<Rightarrow> env ''REDIS_URL'')
      in case non_empty url of
           Some u \<Rightarrow> RedisUrl u
         | None \<Rightarrow> RedisHost (or_else (env ''REDIS_HOST'') ''localhost'') (number (or_else (env ''REDIS_PORT'') ''6379'')))"

definition RealtimeSubscriber_onModuleInit :: "(string \<Rightarrow> int option) \<Rightarrow> env \<Rightarrow> config \<Rightarrow> redis_target" where
  "RealtimeSubscriber_onModuleInit number env config =
     (let url = (case cf_queueRedisUrl config of Some u \<Rightarrow> Some u | None \<Rightarrow> env ''REDIS_URL'')
      in case non_empty url of
           Some u \<Rightarrow> RedisUrl u
         | None \<Rightarrow> RedisHost (or_else (env ''REDIS_HOST'') ''localhost'') (number (or_else (env ''REDIS_PORT'') ''6379'')))"

section \<open>Providers\<close>

datatype provider =
    NotificationListener | NotificationQueueListener | NotificationProcessor
  | SchedulerService | ReminderProcessor
  | RealtimePublisher | RealtimeSubscriber

definition NotificationsModule_delivery :: "env \<Rightarrow> provider list" where
  "NotificationsModule_delivery env =
     (if queueEnabled env then if isWorker env then [NotificationProcessor] else [NotificationQueueListener]
      else [NotificationListener])"

definition RemindersModule_providers :: "env \<Rightarrow> provider list" where
  "RemindersModule_providers env =
     (if isWorker env then [SchedulerService] else []) @
     (if queueEnabled env \<and> isWorker env then [ReminderProcessor] else [])"

definition RealtimeModule_bridge :: "env \<Rightarrow> provider list" where
  "RealtimeModule_bridge env =
     (if queueEnabled env then if isWorker env then [RealtimePublisher] else [RealtimeSubscriber] else [])"

definition AppModule_providers :: "env \<Rightarrow> provider list" where
  "AppModule_providers env =
     NotificationsModule_delivery env @ RemindersModule_providers env @ RealtimeModule_bridge env"

text \<open>
  A running process: its environment and, of an API process, the sockets that are connected to it; a worker has no
  server.  \<open>main.ts\<close> sets the Redis adapter when \<open>REDIS_URL\<close> is not empty.
\<close>

record process =
  pr_env :: env
  pr_sockets :: "socket list"

definition bootstrap_isApi :: "env \<Rightarrow> bool" where
  "bootstrap_isApi env \<longleftrightarrow> or_else (env ''RUN_MODE'') ''api'' \<noteq> ''worker''"

definition bootstrap_redisAdapter :: "env \<Rightarrow> bool" where
  "bootstrap_redisAdapter env \<longleftrightarrow> bootstrap_isApi env \<and> non_empty (env ''REDIS_URL'') \<noteq> None"

section \<open>A cluster\<close>

text \<open>
  What reaches the sockets of a cluster when a notification is created in the process \<open>p\<close>: the gateway of \<open>p\<close>
  handles the event, and so does the publisher, if \<open>p\<close> has one, whose message every subscriber turns into an event
  for its own gateway.
\<close>

definition api_sockets :: "process list \<Rightarrow> socket list list" where
  "api_sockets ps = map pr_sockets (filter (\<lambda>q. bootstrap_isApi (pr_env q)) ps)"

definition gateway_push :: "process list \<Rightarrow> process \<Rightarrow> notification \<Rightarrow> (string \<times> push_payload) list" where
  "gateway_push ps p n =
     NotificationsGateway_pushNotification
       (if bootstrap_isApi (pr_env p)
        then Some (reach (bootstrap_redisAdapter (pr_env p)) (api_sockets ps) (pr_sockets p)) else None) n"

definition cluster_push :: "json_ops \<Rightarrow> process list \<Rightarrow> process \<Rightarrow> notification \<Rightarrow> (string \<times> push_payload) list" where
  "cluster_push json ps p n =
     gateway_push ps p n @
     (if RealtimePublisher \<in> set (AppModule_providers (pr_env p))
      then concat (map (\<lambda>q. if RealtimeSubscriber \<in> set (AppModule_providers (pr_env q))
             then concat (map (\<lambda>e. case e of NotificationCreated m \<Rightarrow> gateway_push ps q m | _ \<Rightarrow> [])
                    (RealtimeSubscriber_handleMessage json (RealtimePublisher_publish json n)))
             else []) ps)
      else [])"

text \<open>The processes of a deployment share their environment but for \<open>RUN_MODE\<close>.\<close>

definition one_deployment :: "process list \<Rightarrow> bool" where
  "one_deployment ps \<longleftrightarrow> (\<forall>p \<in> set ps. \<forall>q \<in> set ps.
     pr_env p ''QUEUE_ENABLED'' = pr_env q ''QUEUE_ENABLED'' \<and> pr_env p ''REDIS_URL'' = pr_env q ''REDIS_URL'')"

lemma isApi_iff: "bootstrap_isApi env \<longleftrightarrow> \<not> isWorker env"
  by (simp add: bootstrap_isApi_def isWorker_def or_else_def split: option.split)

lemmas provider_defs = AppModule_providers_def NotificationsModule_delivery_def RemindersModule_providers_def
  RealtimeModule_bridge_def

lemma bridge_providers:
  "RealtimePublisher \<in> set (AppModule_providers env) \<longleftrightarrow> queueEnabled env \<and> isWorker env"
  "RealtimeSubscriber \<in> set (AppModule_providers env) \<longleftrightarrow> queueEnabled env \<and> bootstrap_isApi env"
  by (simp_all add: provider_defs isApi_iff)

text \<open>One process has one way to deliver the notifications of an event, and consumes jobs exactly if others may
  enqueue them.\<close>

lemma one_delivery_provider:
  "length (filter (\<lambda>x. x \<in> {NotificationListener, NotificationQueueListener, NotificationProcessor})
     (AppModule_providers env)) = 1"
  "NotificationListener \<in> set (AppModule_providers env) \<longleftrightarrow> \<not> queueEnabled env"
  "NotificationQueueListener \<in> set (AppModule_providers env) \<longleftrightarrow> queueEnabled env \<and> bootstrap_isApi env"
  "NotificationProcessor \<in> set (AppModule_providers env) \<longleftrightarrow> queueEnabled env \<and> isWorker env"
  by (simp_all add: provider_defs isApi_iff)

lemma reached_once:
  assumes "\<forall>k \<in> set (concat xss). admitted verify k" and "distinct (map sk_id (concat xss))"
    and "k \<in> set (concat xss)" and "sk_userId k = Some (n_recipientId n)" and "ks \<in> set xss"
  shows "pushes n k (concat xss) = 1" and "pushes n k ks = (if k \<in> set ks then 1 else 0)"
proof -
  have P: "sk_connected k \<and> NotificationsGateway_room (n_recipientId n) \<in> set (sk_rooms k)"
    using admitted_room [of verify k] assms(1,3,4) by blast
  show "pushes n k (concat xss) = 1" by (rule pushes_own [OF assms(2,3) P])
  have sub: "set ks \<subseteq> set (concat xss)" using assms(5) by auto
  have "distinct (map sk_id ks)"
    using assms(2,5) by (metis distinct_concat distinct_map inj_on_subset sub in_set_conv_decomp concat_append concat.simps(2) distinct_append)
  moreover have "sk_id k \<in> sk_id ` set ks \<Longrightarrow> k \<in> set ks"
    using assms(2,3) sub by (auto simp: distinct_map dest: inj_onD)
  ultimately show "pushes n k ks = (if k \<in> set ks then 1 else 0)"
    using pushes_own [OF _ _ P, of ks] pushes_other [of k ks n] by auto
qed

lemma sum_over_api:
  "sum_list (map (\<lambda>q. if bootstrap_isApi (pr_env q) then f (pr_sockets q) else (0::nat)) ps) =
     sum_list (map f (api_sockets ps))"
  by (induction ps) (auto simp: api_sockets_def)

lemma sum_constant_one: "sum_list (map (\<lambda>_. Suc 0) xs) = length xs"
  by (induction xs) auto

text \<open>A publisher's message, counted at one socket: one push by every subscriber.\<close>

lemma count_bridge:
  assumes "json_parse json (json_stringify json n) = Some n" and "isWorker (pr_env p)" and "queueEnabled (pr_env p)"
    and "\<And>q. q \<in> set ps \<Longrightarrow> queueEnabled (pr_env q) \<and> bootstrap_redisAdapter (pr_env q) = (a \<and> bootstrap_isApi (pr_env q))"
  shows "count_list (cluster_push json ps p n) (sk_id k, push_payload_of n) =
    sum_list (map (\<lambda>ks. pushes n k (reach a (api_sockets ps) ks)) (api_sockets ps))"
proof -
  let ?hears = "\<lambda>q. RealtimeSubscriber \<in> set (AppModule_providers (pr_env q))"
  have own: "gateway_push ps p n = []"
    using assms(2) by (simp add: gateway_push_def isApi_iff NotificationsGateway_pushNotification_def)
  have heard: "RealtimeSubscriber_handleMessage json (RealtimePublisher_publish json n) = [NotificationCreated n]"
    using assms(1) by (simp add: RealtimePublisher_publish_def RealtimeSubscriber_handleMessage_def)
  have "cluster_push json ps p n = concat (map (\<lambda>q. if ?hears q then gateway_push ps q n else []) ps)"
    using assms(2,3) own unfolding cluster_push_def heard list.map domain_event.case concat.simps append_Nil2
    by (simp add: bridge_providers)
  also have "count_list \<dots> (sk_id k, push_payload_of n) =
      sum_list (map (\<lambda>q. if bootstrap_isApi (pr_env q) then pushes n k (reach a (api_sockets ps) (pr_sockets q)) else 0) ps)"
    unfolding count_concat using assms(4)
    by (intro arg_cong [where f = sum_list]) (auto simp: bridge_providers gateway_push_def)
  finally show ?thesis unfolding sum_over_api [where f = "\<lambda>ks. pushes n k (reach a (api_sockets ps) ks)"] .
qed

section \<open>Properties\<close>

text \<open>
  C21.  How often a client sees a new notification follows from the environment: created by a worker, it is pushed
  only if the queue is on, and then once, but with \<open>REDIS_URL\<close> set once for each API process, since the Redis
  adapter already spans them; created by an API process, it reaches that process's own sockets, and with
  \<open>REDIS_URL\<close> set every socket of the recipient once.
\<close>

theorem pushes_per_wiring:
  assumes "one_deployment ps" and "p \<in> set ps" and "json_parse json (json_stringify json n) = Some n"
    and sockets: "\<forall>k \<in> set (concat (api_sockets ps)). admitted verify k" "distinct (map sk_id (concat (api_sockets ps)))"
    and k: "k \<in> set (concat (api_sockets ps))" "sk_userId k = Some (n_recipientId n)"
  shows "count_list (cluster_push json ps p n) (sk_id k, push_payload_of n) =
    (if isWorker (pr_env p)
     then if queueEnabled (pr_env p)
          then if non_empty (pr_env p ''REDIS_URL'') \<noteq> None then length (api_sockets ps) else 1
          else 0
     else if non_empty (pr_env p ''REDIS_URL'') \<noteq> None \<or> k \<in> set (pr_sockets p) then 1 else 0)"
proof -
  let ?a = "non_empty (pr_env p ''REDIS_URL'') \<noteq> None"
  have P: "sk_connected k \<and> NotificationsGateway_room (n_recipientId n) \<in> set (sk_rooms k)"
    using admitted_room [of verify k] sockets(1) k by blast
  show ?thesis
  proof (cases "isWorker (pr_env p)")
    case False
    then have own: "pr_sockets p \<in> set (api_sockets ps)" using assms(2) by (simp add: api_sockets_def isApi_iff)
    have "cluster_push json ps p n = gateway_push ps p n"
      using False by (simp add: cluster_push_def bridge_providers)
    with False reached_once [OF sockets k own] show ?thesis
      by (simp add: gateway_push_def isApi_iff bootstrap_redisAdapter_def reach_def)
  next
    case True
    show ?thesis
    proof (cases "queueEnabled (pr_env p)")
      case False
      with True show ?thesis
        by (simp add: cluster_push_def gateway_push_def isApi_iff bridge_providers NotificationsGateway_pushNotification_def)
    next
      case queue: True
      have "queueEnabled (pr_env q) \<and> bootstrap_redisAdapter (pr_env q) = (?a \<and> bootstrap_isApi (pr_env q))"
        if "q \<in> set ps" for q
      proof -
        have "pr_env q ''QUEUE_ENABLED'' = pr_env p ''QUEUE_ENABLED''" "pr_env q ''REDIS_URL'' = pr_env p ''REDIS_URL''"
          using assms(1,2) that unfolding one_deployment_def by blast+
        with queue show ?thesis by (simp add: queueEnabled_def bootstrap_redisAdapter_def conj_commute)
      qed
      from count_bridge [OF assms(3) True queue this, where k = k]
      have "count_list (cluster_push json ps p n) (sk_id k, push_payload_of n) =
          sum_list (map (\<lambda>ks. pushes n k (reach ?a (api_sockets ps) ks)) (api_sockets ps))" .
      with True queue pushes_own [OF sockets(2) k(1) P] pushes_once [OF sockets(2) k(1) P] show ?thesis
        by (simp add: reach_def sum_constant_one)
    qed
  qed
qed

text \<open>Two API processes and a worker, with the queue and a Redis server.\<close>

definition ex_cluster_env :: "string \<Rightarrow> env" where
  "ex_cluster_env mode = [''RUN_MODE'' \<mapsto> mode, ''QUEUE_ENABLED'' \<mapsto> ''true'', ''REDIS_URL'' \<mapsto> ''redis://redis:6379'',
     ''DB_USERNAME'' \<mapsto> ''u'', ''DB_PASSWORD'' \<mapsto> ''p'', ''DB_NAME'' \<mapsto> ''d'']"

definition ex_cluster :: "process list" where
  "ex_cluster = \<lparr>pr_env = ex_cluster_env ''worker'', pr_sockets = []\<rparr> #
     map (\<lambda>ks. \<lparr>pr_env = ex_cluster_env ''api'', pr_sockets = ks\<rparr>) ex_instances"

lemma ex_cluster_sockets: "api_sockets ex_cluster = ex_instances"
  by (simp add: ex_cluster_def api_sockets_def ex_cluster_env_def bootstrap_isApi_def or_else_def comp_def)

theorem pushes_per_wiring_witness:
  "\<exists>k \<in> set (concat ex_instances).
     count_list (cluster_push ex_json ex_cluster (hd ex_cluster) ex_notification) (sk_id k, push_payload_of ex_notification) = 2"
proof -
  let ?k = "NotificationsGateway_handleConnection ex_verify (Some ''token2'') None (new_socket ''a'')"
  have "one_deployment ex_cluster" "hd ex_cluster \<in> set ex_cluster"
    by (auto simp: one_deployment_def ex_cluster_def ex_cluster_env_def)
  moreover have "json_parse ex_json (json_stringify ex_json ex_notification) = Some ex_notification"
    by (simp add: ex_json_def ex_notification_def)
  moreover have "?k \<in> set (concat ex_instances)" "sk_userId ?k = Some (n_recipientId ex_notification)"
      "distinct (map sk_id (concat ex_instances))" "length ex_instances = 2"
    by (simp_all add: ex_instances_def NotificationsGateway_handleConnection_def ex_verify_def new_socket_def
        ex_notification_def)
  moreover have "isWorker (pr_env (hd ex_cluster))" "queueEnabled (pr_env (hd ex_cluster))"
      "non_empty (pr_env (hd ex_cluster) ''REDIS_URL'') \<noteq> None"
    by (simp_all add: ex_cluster_def ex_cluster_env_def isWorker_def queueEnabled_def non_empty_def)
  ultimately show ?thesis
    using pushes_per_wiring [of ex_cluster "hd ex_cluster" ex_json ex_notification ex_verify ?k] ex_bridge(2)
    by (auto simp: ex_cluster_sockets)
qed

text \<open>The worker publishes to the Redis server the API processes listen to and the queue uses.\<close>

lemma bridge_same_redis:
  assumes "\<And>k. k \<in> {''REDIS_URL'', ''REDIS_HOST'', ''REDIS_PORT''} \<Longrightarrow> env k = env' k"
  shows "RealtimePublisher_onModuleInit number env (configuration env) =
      RealtimeSubscriber_onModuleInit number env' (configuration env')"
    and "RealtimePublisher_onModuleInit number env (configuration env) =
      (case cf_queueRedisUrl (configuration env) of
         Some u \<Rightarrow> RedisUrl u
       | None \<Rightarrow> RedisHost (cf_redisHost (configuration env)) (number (or_else (env ''REDIS_PORT'') ''6379'')))"
  using assms
  by (auto simp: RealtimePublisher_onModuleInit_def RealtimeSubscriber_onModuleInit_def configuration_def non_empty_def
      split: option.splits)

text \<open>
  A production process that starts has access and refresh secrets that were set explicitly, of at least 32
  characters, other than the defaults for development; and the guard of the requests, the signer and the socket
  handshake use one and the same secret.
\<close>

theorem production_secrets:
  assumes "joi_documented j" and "boot j env = Some config" and "env ''NODE_ENV'' = Some ''production''"
  shows "env ''JWT_ACCESS_SECRET'' = Some (cf_accessSecret config) \<and> 32 \<le> length (cf_accessSecret config) \<and>
    cf_accessSecret config \<noteq> DEV_ACCESS_SECRET \<and>
    env ''JWT_REFRESH_SECRET'' = Some (cf_refreshSecret config) \<and> 32 \<le> length (cf_refreshSecret config) \<and>
    cf_refreshSecret config \<noteq> DEV_REFRESH_SECRET \<and>
    JwtStrategy_secret config = fst (AuthModule_jwt config) \<and> RealtimeModule_jwt config = fst (AuthModule_jwt config)"
proof -
  from assms(2) have ok: "envValidationSchema j env" and c: "config = configuration env"
    by (auto simp: boot_def split: if_splits)
  from ok have "productionSecret j env DEV_ACCESS_SECRET (env ''JWT_ACCESS_SECRET'')"
      "productionSecret j env DEV_REFRESH_SECRET (env ''JWT_REFRESH_SECRET'')"
    by (simp_all add: envValidationSchema_def)
  with assms(1,3) obtain a r where
    "env ''JWT_ACCESS_SECRET'' = Some a" "32 \<le> length a" "a \<noteq> DEV_ACCESS_SECRET"
    "env ''JWT_REFRESH_SECRET'' = Some r" "32 \<le> length r" "r \<noteq> DEV_REFRESH_SECRET"
    by (auto simp: productionSecret_def required_value_def joi_documented_def split: option.splits)
  then show ?thesis
    by (simp add: c configuration_def or_else_def JwtStrategy_secret_def AuthModule_jwt_def RealtimeModule_jwt_def)
qed

definition ex_joi :: joi where
  "ex_joi = \<lparr>jo_string = (\<lambda>s. s \<noteq> []), jo_min = (\<lambda>n s. n \<le> length s), jo_port = (\<lambda>s. s \<noteq> [] \<and> list_all is_digit s),
     jo_boolean = (\<lambda>s. s \<in> {''true'', ''false''})\<rparr>"

definition ex_production :: env where
  "ex_production = [''NODE_ENV'' \<mapsto> ''production'', ''DATABASE_URL'' \<mapsto> ''postgres://x'',
     ''JWT_ACCESS_SECRET'' \<mapsto> replicate 40 (CHR ''a''), ''JWT_REFRESH_SECRET'' \<mapsto> replicate 40 (CHR ''b'')]"

lemma ex_production_ok: "envValidationSchema ex_joi ex_production"
  by (simp add: envValidationSchema_def ex_production_def ex_joi_def optional_value_def requiredUnlessUrl_def
      productionSecret_def required_value_def DEV_ACCESS_SECRET_def DEV_REFRESH_SECRET_def numeral_eq_Suc)

theorem production_secrets_witness:
  "cf_accessSecret (configuration ex_production) = replicate 40 (CHR ''a'')"
proof -
  have "joi_documented ex_joi" by (simp add: joi_documented_def ex_joi_def)
  moreover have "boot ex_joi ex_production = Some (configuration ex_production)"
    by (simp add: boot_def ex_production_ok)
  moreover have "ex_production ''NODE_ENV'' = Some ''production''" by (simp add: ex_production_def)
  ultimately have "ex_production ''JWT_ACCESS_SECRET'' = Some (cf_accessSecret (configuration ex_production))"
    using production_secrets by blast
  then show ?thesis by (simp add: ex_production_def)
qed

text \<open>
  The command line that runs the migrations connects to the database the application uses: from one
  environment, both build the same options, whichever of \<open>DATABASE_URL\<close> and the \<open>DB_\<close> variables are set or empty,
  and neither lets TypeORM change the schema, whatever \<open>DB_SYNCHRONIZE\<close> says.
\<close>

theorem migrations_same_database:
  "DatabaseModule_options (configuration env) = AppDataSource_options env \<and>
   \<not> do_synchronize (DatabaseModule_options (configuration env))"
  by (simp add: DatabaseModule_options_def AppDataSource_options_def configuration_def non_empty_def split: option.split)

end
