(* ===== verification/Wiring.thy ===== *)
theory Wiring
  imports Bootstrap
begin

text \<open>
  The modules of the application (\<open>src/app.module.ts\<close> and the \<open>*.module.ts\<close> files) with what their classes ask for
  in their constructors and guards, and the injector of Nest, documented as here: a class finds its arguments among
  the providers of its module, what the imported modules export and what global modules export, and is constructed
  after them.  What the modules of libraries export is a parameter.
\<close>

section \<open>Modules\<close>

text \<open>A token that can be injected: a class or a named value, the repository of an entity, a queue.\<close>

datatype token = Cls string | Repository string | Queue string

datatype library =
    ConfigRoot bool | CacheRegister bool | LoggerRoot | PrometheusRoot | ThrottlerRoot | EventEmitterRoot | ScheduleRoot
  | TypeOrmRoot | BullRoot | TypeOrmFeature "string list" | BullQueue string | JwtAsync | PassportRegister | Terminus

record libraries =
  lib_exports :: "library \<Rightarrow> token list"
  lib_global :: "library \<Rightarrow> bool"
  lib_core :: "token list"

datatype mod_name =
    Queue_module | Common_module | Database_module | Health_module | Users_module | Auth_module | Workspaces_module
  | Projects_module | Tasks_module | Comments_module | Activity_module | Notifications_module | Reminders_module
  | Realtime_module | App_module

datatype imported = Own mod_name | Lib library

record component =
  co_token :: token
  co_needs :: "token list"
  co_optional :: "token list"

record nest_module =
  mo_imports :: "imported list"
  mo_controllers :: "component list"
  mo_providers :: "component list"
  mo_exports :: "token list"

definition inject :: "string \<Rightarrow> token list \<Rightarrow> component" where
  "inject name needs = \<lparr>co_token = Cls name, co_needs = needs, co_optional = []\<rparr>"

section \<open>The classes\<close>

text \<open>A guard of a controller is constructed in the module of the controller.\<close>

definition WorkspaceMemberGuard_needs :: "token list" where
  "WorkspaceMemberGuard_needs = [Cls ''WorkspacesService'']"

definition RolesGuard_needs :: "token list" where
  "RolesGuard_needs = [Cls ''Reflector'']"

definition UsersService_needs :: "token list" where
  "UsersService_needs = [Repository ''User'']"

definition AuthService_needs :: "token list" where
  "AuthService_needs = [Cls ''UsersService'', Cls ''PasswordService'', Cls ''RefreshTokenService'', Cls ''JwtService'']"

definition RefreshTokenService_needs :: "token list" where
  "RefreshTokenService_needs = [Repository ''RefreshToken'', Cls ''ConfigService'']"

definition JwtStrategy_needs :: "token list" where
  "JwtStrategy_needs = [Cls ''ConfigService'']"

definition WorkspacesService_needs :: "token list" where
  "WorkspacesService_needs = [Repository ''Workspace'', Repository ''WorkspaceMember'', Cls ''CACHE_MANAGER'']"

definition InvitationsService_needs :: "token list" where
  "InvitationsService_needs = [Repository ''WorkspaceInvitation'', Repository ''WorkspaceMember'', Cls ''UsersService'']"

definition ProjectsService_needs :: "token list" where
  "ProjectsService_needs = [Repository ''Project'']"

definition TasksService_needs :: "token list" where
  "TasksService_needs = [Repository ''Task'', Cls ''ProjectsService'', Cls ''EventEmitter2'']"

definition CommentsService_needs :: "token list" where
  "CommentsService_needs = [Repository ''Comment'', Cls ''TasksService'', Cls ''EventEmitter2'']"

definition ActivityService_needs :: "token list" where
  "ActivityService_needs = [Repository ''TaskActivity'', Cls ''TasksService'']"

definition NotificationsService_needs :: "token list" where
  "NotificationsService_needs = [Repository ''Notification'', Cls ''EventEmitter2'']"

definition NotificationsGateway_needs :: "token list" where
  "NotificationsGateway_needs = [Cls ''JwtService'', Cls ''ConfigService'']"

definition HealthController_needs :: "token list" where
  "HealthController_needs = [Cls ''HealthCheckService'', Cls ''TypeOrmHealthIndicator'']"

text \<open>The queue of \<open>RemindersService\<close> is \<open>@Optional\<close>.\<close>

definition RemindersService_component :: component where
  "RemindersService_component = \<lparr>co_token = Cls ''RemindersService'',
     co_needs = [Repository ''Reminder'', Repository ''Task'', Cls ''NotificationsService''],
     co_optional = [Queue ''reminders'']\<rparr>"

text \<open>The providers that depend on the run mode.\<close>

fun provider_component :: "provider \<Rightarrow> component" where
  "provider_component NotificationListener = inject ''NotificationListener'' [Cls ''NotificationsService'']"
| "provider_component NotificationQueueListener = inject ''NotificationQueueListener'' [Queue ''notifications'']"
| "provider_component NotificationProcessor = inject ''NotificationProcessor'' [Cls ''NOTIFICATION_CHANNELS'']"
| "provider_component SchedulerService = inject ''SchedulerService'' [Cls ''RemindersService'']"
| "provider_component ReminderProcessor = inject ''ReminderProcessor'' [Cls ''RemindersService'']"
| "provider_component RealtimePublisher = inject ''RealtimePublisher'' [Cls ''ConfigService'']"
| "provider_component RealtimeSubscriber = inject ''RealtimeSubscriber'' [Cls ''ConfigService'', Cls ''EventEmitter2'']"

section \<open>The modules\<close>

text \<open>
  The guards and the filter of the whole application are library classes or have no arguments (\<open>APP_GUARD\<close>,
  \<open>APP_FILTER\<close>).
\<close>

definition CommonModule :: "nest_module" where
  "CommonModule = \<lparr>mo_imports = [],
     mo_controllers = [],
     mo_providers = [inject ''APP_FILTER'' []],
     mo_exports = []\<rparr>"

definition HealthModule :: "nest_module" where
  "HealthModule = \<lparr>mo_imports = [Lib Terminus],
     mo_controllers = [inject ''HealthController'' HealthController_needs],
     mo_providers = [],
     mo_exports = []\<rparr>"

definition UsersModule :: "nest_module" where
  "UsersModule = \<lparr>mo_imports = [Lib (TypeOrmFeature [''User''])],
     mo_controllers = [inject ''UsersController'' [Cls ''UsersService'']],
     mo_providers = [inject ''UsersService'' UsersService_needs],
     mo_exports = [Cls ''UsersService'']\<rparr>"

definition AuthModule :: "nest_module" where
  "AuthModule = \<lparr>mo_imports = [Own Users_module, Lib (TypeOrmFeature [''RefreshToken'']), Lib PassportRegister, Lib JwtAsync],
     mo_controllers = [inject ''AuthController'' [Cls ''AuthService'']],
     mo_providers = [inject ''AuthService'' AuthService_needs, inject ''PasswordService'' [],
       inject ''RefreshTokenService'' RefreshTokenService_needs, inject ''JwtStrategy'' JwtStrategy_needs],
     mo_exports = [Cls ''AuthService'']\<rparr>"

definition WorkspacesModule :: "nest_module" where
  "WorkspacesModule = \<lparr>mo_imports = [Lib (TypeOrmFeature [''Workspace'', ''WorkspaceMember'', ''WorkspaceInvitation'']), Own Users_module],
     mo_controllers = [inject ''WorkspacesController'' (Cls ''WorkspacesService'' # WorkspaceMemberGuard_needs @ RolesGuard_needs),
       inject ''InvitationsController'' (Cls ''InvitationsService'' # WorkspaceMemberGuard_needs @ RolesGuard_needs)],
     mo_providers = [inject ''WorkspacesService'' WorkspacesService_needs, inject ''InvitationsService'' InvitationsService_needs,
       inject ''WorkspaceMemberGuard'' WorkspaceMemberGuard_needs, inject ''RolesGuard'' RolesGuard_needs],
     mo_exports = [Cls ''WorkspacesService'', Cls ''WorkspaceMemberGuard'', Cls ''RolesGuard'']\<rparr>"

definition ProjectsModule :: "nest_module" where
  "ProjectsModule = \<lparr>mo_imports = [Lib (TypeOrmFeature [''Project'']), Own Workspaces_module],
     mo_controllers = [inject ''ProjectsController'' (Cls ''ProjectsService'' # WorkspaceMemberGuard_needs @ RolesGuard_needs)],
     mo_providers = [inject ''ProjectsService'' ProjectsService_needs],
     mo_exports = [Cls ''ProjectsService'']\<rparr>"

definition TasksModule :: "nest_module" where
  "TasksModule = \<lparr>mo_imports = [Lib (TypeOrmFeature [''Task'']), Own Workspaces_module, Own Projects_module],
     mo_controllers = [inject ''TasksController'' (Cls ''TasksService'' # WorkspaceMemberGuard_needs)],
     mo_providers = [inject ''TasksService'' TasksService_needs],
     mo_exports = [Cls ''TasksService'']\<rparr>"

definition CommentsModule :: "nest_module" where
  "CommentsModule = \<lparr>mo_imports = [Lib (TypeOrmFeature [''Comment'']), Own Workspaces_module, Own Tasks_module],
     mo_controllers = [inject ''CommentsController'' (Cls ''CommentsService'' # WorkspaceMemberGuard_needs)],
     mo_providers = [inject ''CommentsService'' CommentsService_needs],
     mo_exports = [Cls ''CommentsService'']\<rparr>"

definition ActivityModule :: "nest_module" where
  "ActivityModule = \<lparr>mo_imports = [Lib (TypeOrmFeature [''TaskActivity'']), Own Workspaces_module, Own Tasks_module],
     mo_controllers = [inject ''ActivityController'' (Cls ''ActivityService'' # WorkspaceMemberGuard_needs)],
     mo_providers = [inject ''ActivityService'' ActivityService_needs, inject ''ActivityListener'' [Cls ''ActivityService'']],
     mo_exports = []\<rparr>"

definition NotificationsModule :: "env \<Rightarrow> nest_module" where
  "NotificationsModule env = \<lparr>mo_imports = Lib (TypeOrmFeature [''Notification'']) #
       (if queueEnabled env then [Lib (BullQueue ''notifications'')] else []),
     mo_controllers = [inject ''NotificationsController'' [Cls ''NotificationsService'']],
     mo_providers = [inject ''NotificationsService'' NotificationsService_needs, inject ''InAppChannel'' [Cls ''NotificationsService''],
       inject ''NOTIFICATION_CHANNELS'' [Cls ''InAppChannel'']] @
       map provider_component (NotificationsModule_delivery env),
     mo_exports = [Cls ''NotificationsService'']\<rparr>"

definition RemindersModule :: "env \<Rightarrow> nest_module" where
  "RemindersModule env = \<lparr>mo_imports = [Lib (TypeOrmFeature [''Reminder'', ''Task'']), Own Notifications_module] @
       (if queueEnabled env then [Lib (BullQueue ''reminders'')] else []),
     mo_controllers = [inject ''RemindersController'' [Cls ''RemindersService'']],
     mo_providers = RemindersService_component # map provider_component (RemindersModule_providers env),
     mo_exports = [Cls ''RemindersService'']\<rparr>"

definition RealtimeModule :: "env \<Rightarrow> nest_module" where
  "RealtimeModule env = \<lparr>mo_imports = [Lib JwtAsync],
     mo_controllers = [],
     mo_providers = inject ''NotificationsGateway'' NotificationsGateway_needs # map provider_component (RealtimeModule_bridge env),
     mo_exports = []\<rparr>"

definition DatabaseModule :: "nest_module" where
  "DatabaseModule = \<lparr>mo_imports = [Lib TypeOrmRoot],
     mo_controllers = [],
     mo_providers = [],
     mo_exports = []\<rparr>"

definition QueueModule :: "env \<Rightarrow> nest_module" where
  "QueueModule env = \<lparr>mo_imports = (if queueEnabled env then [Lib BullRoot] else []),
     mo_controllers = [],
     mo_providers = [],
     mo_exports = []\<rparr>"

definition AppModule :: "nest_module" where
  "AppModule = \<lparr>mo_imports = [Lib (ConfigRoot True), Lib LoggerRoot, Lib PrometheusRoot, Lib (CacheRegister True), Lib ThrottlerRoot,
       Lib EventEmitterRoot, Lib ScheduleRoot] @
       map Own [Queue_module, Common_module, Database_module, Health_module, Users_module, Auth_module, Workspaces_module,
         Projects_module, Tasks_module, Comments_module, Activity_module, Notifications_module, Reminders_module, Realtime_module],
     mo_controllers = [],
     mo_providers = [inject ''APP_GUARD'' []],
     mo_exports = []\<rparr>"

text \<open>All of them, each after those it imports.\<close>

fun application :: "env \<Rightarrow> mod_name \<Rightarrow> nest_module" where
  "application env Queue_module = QueueModule env"
| "application env Common_module = CommonModule"
| "application env Database_module = DatabaseModule"
| "application env Health_module = HealthModule"
| "application env Users_module = UsersModule"
| "application env Auth_module = AuthModule"
| "application env Workspaces_module = WorkspacesModule"
| "application env Projects_module = ProjectsModule"
| "application env Tasks_module = TasksModule"
| "application env Comments_module = CommentsModule"
| "application env Activity_module = ActivityModule"
| "application env Notifications_module = NotificationsModule env"
| "application env Reminders_module = RemindersModule env"
| "application env Realtime_module = RealtimeModule env"
| "application env App_module = AppModule"

definition mod_names :: "mod_name list" where
  "mod_names = [Queue_module, Common_module, Database_module, Health_module, Users_module, Auth_module,
     Workspaces_module, Projects_module, Tasks_module, Comments_module, Activity_module,
     Notifications_module, Reminders_module, Realtime_module, App_module]"

section \<open>The injector\<close>

definition components :: "nest_module \<Rightarrow> component list" where
  "components m = mo_controllers m @ mo_providers m"

definition provides :: "nest_module \<Rightarrow> token \<Rightarrow> bool" where
  "provides m t \<longleftrightarrow> list_ex (\<lambda>c. co_token c = t) (mo_providers m)"

fun library_of :: "imported \<Rightarrow> library list" where
  "library_of (Lib l) = [l]"
| "library_of (Own n) = []"

fun own_of :: "imported \<Rightarrow> mod_name list" where
  "own_of (Own n) = [n]"
| "own_of (Lib l) = []"

definition own_imports :: "nest_module \<Rightarrow> mod_name list" where
  "own_imports m = concat (map own_of (mo_imports m))"

definition library_imports :: "nest_module \<Rightarrow> library list" where
  "library_imports m = concat (map library_of (mo_imports m))"

type_synonym modules = "mod_name \<Rightarrow> nest_module"

text \<open>The libraries that offer what they export to every module.\<close>

definition global_libraries :: "libraries \<Rightarrow> modules \<Rightarrow> library list" where
  "global_libraries L ms = filter (lib_global L) (concat (map (\<lambda>n. library_imports (ms n)) mod_names))"

definition from_library :: "libraries \<Rightarrow> modules \<Rightarrow> nest_module \<Rightarrow> token \<Rightarrow> bool" where
  "from_library L ms m t \<longleftrightarrow>
     list_ex (\<lambda>l. t \<in> set (lib_exports L l)) (library_imports m) \<or> t \<in> set (lib_core L) \<or>
     list_ex (\<lambda>l. t \<in> set (lib_exports L l)) (global_libraries L ms)"

definition exported_by :: "modules \<Rightarrow> nest_module \<Rightarrow> token \<Rightarrow> mod_name option" where
  "exported_by ms m t = List.find (\<lambda>n. t \<in> set (mo_exports (ms n)) \<and> provides (ms n) t) (own_imports m)"

datatype source = FromLibrary | FromModule mod_name

definition resolve :: "libraries \<Rightarrow> modules \<Rightarrow> mod_name \<Rightarrow> token \<Rightarrow> source option" where
  "resolve L ms n t =
     (if provides (ms n) t then Some (FromModule n)
      else case exported_by ms (ms n) t of
        Some k \<Rightarrow> Some (FromModule k)
      | None \<Rightarrow> if from_library L ms (ms n) t then Some FromLibrary else None)"

text \<open>What gets constructed: a class whose arguments have been.\<close>

inductive constructed :: "libraries \<Rightarrow> modules \<Rightarrow> mod_name \<Rightarrow> token \<Rightarrow> bool" for L ms where
  construct: "c \<in> set (components (ms n)) \<Longrightarrow>
    (\<And>t. t \<in> set (co_needs c) \<Longrightarrow>
      resolve L ms n t = Some FromLibrary \<or> (\<exists>k. resolve L ms n t = Some (FromModule k) \<and> constructed L ms k t)) \<Longrightarrow>
    (\<And>t. t \<in> set (co_optional c) \<Longrightarrow>
      resolve L ms n t = None \<or> resolve L ms n t = Some FromLibrary \<or>
      (\<exists>k. resolve L ms n t = Some (FromModule k) \<and> constructed L ms k t)) \<Longrightarrow>
    constructed L ms n (co_token c)"

text \<open>The same in rounds, which can be computed.\<close>

definition ready :: "libraries \<Rightarrow> modules \<Rightarrow> (mod_name \<times> token) list \<Rightarrow> mod_name \<Rightarrow> component \<Rightarrow> bool" where
  "ready L ms done n c \<longleftrightarrow>
     list_all (\<lambda>t. case resolve L ms n t of
       None \<Rightarrow> False | Some FromLibrary \<Rightarrow> True | Some (FromModule k) \<Rightarrow> (k, t) \<in> set done) (co_needs c) \<and>
     list_all (\<lambda>t. case resolve L ms n t of
       None \<Rightarrow> True | Some FromLibrary \<Rightarrow> True | Some (FromModule k) \<Rightarrow> (k, t) \<in> set done) (co_optional c)"

text \<open>An order of construction: every class after its arguments.\<close>

fun in_order :: "libraries \<Rightarrow> modules \<Rightarrow> (mod_name \<times> token) list \<Rightarrow> (mod_name \<times> component) list \<Rightarrow> bool" where
  "in_order L ms done [] \<longleftrightarrow> True"
| "in_order L ms done ((n, c) # xs) \<longleftrightarrow> ready L ms done n c \<and> in_order L ms ((n, co_token c) # done) xs"

lemma resolved_cases:
  "(case r of None \<Rightarrow> b | Some FromLibrary \<Rightarrow> True | Some (FromModule k) \<Rightarrow> P k) \<longleftrightarrow>
     (r = None \<and> b) \<or> r = Some FromLibrary \<or> (\<exists>k. r = Some (FromModule k) \<and> P k)"
  by (auto split: option.split source.split)

lemma in_order_sound:
  assumes "in_order L ms done xs" and "\<forall>(n, t) \<in> set done. constructed L ms n t"
    and "\<forall>(n, c) \<in> set xs. c \<in> set (components (ms n))"
  shows "\<forall>(n, c) \<in> set xs. constructed L ms n (co_token c)"
  using assms
proof (induction xs arbitrary: "done")
  case (Cons x xs)
  obtain n c where x: "x = (n, c)" by (cases x)
  have "constructed L ms n (co_token c)"
  proof (rule construct)
    show "c \<in> set (components (ms n))" using Cons.prems(3) x by simp
  next
    fix t assume "t \<in> set (co_needs c)"
    with Cons.prems(1,2) show "resolve L ms n t = Some FromLibrary \<or>
        (\<exists>k. resolve L ms n t = Some (FromModule k) \<and> constructed L ms k t)"
      unfolding x in_order.simps ready_def list_all_iff resolved_cases by blast
  next
    fix t assume "t \<in> set (co_optional c)"
    with Cons.prems(1,2) show "resolve L ms n t = None \<or> resolve L ms n t = Some FromLibrary \<or>
        (\<exists>k. resolve L ms n t = Some (FromModule k) \<and> constructed L ms k t)"
      unfolding x in_order.simps ready_def list_all_iff resolved_cases by blast
  qed
  with Cons.IH [of "(n, co_token c) # done"] Cons.prems show ?case by (simp add: x)
qed simp

text \<open>Libraries that export more take nothing away.\<close>

definition libraries_le :: "libraries \<Rightarrow> libraries \<Rightarrow> bool" where
  "libraries_le A B \<longleftrightarrow> set (lib_core A) \<subseteq> set (lib_core B) \<and>
     (\<forall>l. set (lib_exports A l) \<subseteq> set (lib_exports B l) \<and> (lib_global A l \<longrightarrow> lib_global B l))"

lemma resolve_mono:
  assumes le: "libraries_le A B" and r: "resolve A ms n t = Some x"
  shows "resolve B ms n t = Some FromLibrary \<or> resolve B ms n t = Some x"
proof -
  have "from_library A ms (ms n) t \<longrightarrow> from_library B ms (ms n) t"
    using le unfolding from_library_def libraries_le_def list_ex_iff global_libraries_def set_filter by blast
  with r show ?thesis by (auto simp: resolve_def split: if_splits option.splits)
qed

lemma resolve_None_mono:
  assumes "resolve A ms n t = None"
  shows "resolve B ms n t = None \<or> resolve B ms n t = Some FromLibrary"
  using assms by (auto simp: resolve_def split: if_splits option.splits)

lemma constructed_mono:
  assumes le: "libraries_le A B"
  shows "constructed A ms k t \<Longrightarrow> constructed B ms k t"
proof (induction rule: constructed.induct)
  case (construct c n)
  show ?case
  proof (rule constructed.construct [where L = B and ms = ms and n = n and c = c, OF construct(1)])
    fix t assume "t \<in> set (co_needs c)"
    from construct(2) [OF this] show "resolve B ms n t = Some FromLibrary \<or>
        (\<exists>k. resolve B ms n t = Some (FromModule k) \<and> constructed B ms k t)"
      using resolve_mono [OF le] by blast
  next
    fix t assume "t \<in> set (co_optional c)"
    from construct(3) [OF this] show "resolve B ms n t = None \<or> resolve B ms n t = Some FromLibrary \<or>
        (\<exists>k. resolve B ms n t = Some (FromModule k) \<and> constructed B ms k t)"
      using resolve_mono [OF le] resolve_None_mono by blast
  qed
qed

section \<open>What the libraries export\<close>

text \<open>
  As their documentation has it: the options \<open>isGlobal\<close>, the event emitter for everyone, the repositories of
  \<open>forFeature\<close>, the queue of \<open>registerQueue\<close>.
\<close>

fun documented_exports :: "library \<Rightarrow> token list" where
  "documented_exports (ConfigRoot g) = [Cls ''ConfigService'']"
| "documented_exports (CacheRegister g) = [Cls ''CACHE_MANAGER'']"
| "documented_exports EventEmitterRoot = [Cls ''EventEmitter2'']"
| "documented_exports (TypeOrmFeature es) = map Repository es"
| "documented_exports (BullQueue n) = [Queue n]"
| "documented_exports JwtAsync = [Cls ''JwtService'']"
| "documented_exports Terminus = [Cls ''HealthCheckService'', Cls ''TypeOrmHealthIndicator'']"
| "documented_exports _ = []"

fun documented_global :: "library \<Rightarrow> bool" where
  "documented_global (ConfigRoot g) = g"
| "documented_global (CacheRegister g) = g"
| "documented_global EventEmitterRoot = True"
| "documented_global _ = False"

definition documented :: libraries where
  "documented = \<lparr>lib_exports = documented_exports, lib_global = documented_global, lib_core = [Cls ''Reflector'']\<rparr>"

section \<open>The application\<close>

text \<open>Every class of the application after its arguments: \<open>AuthModule\<close> from its end, controllers last.\<close>

definition construction :: "modules \<Rightarrow> (mod_name \<times> component) list" where
  "construction ms =
     concat (map (\<lambda>n. map (Pair n) ((if n = Auth_module then rev else id) (mo_providers (ms n)))) mod_names) @
     concat (map (\<lambda>n. map (Pair n) (mo_controllers (ms n))) mod_names)"

text \<open>The modules depend on the environment by two flags.\<close>

definition env_of :: "bool \<Rightarrow> bool \<Rightarrow> env" where
  "env_of q w = (\<lambda>k. if k = ''QUEUE_ENABLED'' \<and> q then Some ''true'' else if k = ''RUN_MODE'' \<and> w then Some ''worker'' else None)"

lemma application_cong:
  assumes "queueEnabled e = queueEnabled e'" and "isWorker e = isWorker e'"
  shows "application e = application e'"
proof (rule ext)
  fix n show "application e n = application e' n"
  using assms by (cases n) (simp_all add: NotificationsModule_def RemindersModule_def RealtimeModule_def QueueModule_def
      NotificationsModule_delivery_def RemindersModule_providers_def RealtimeModule_bridge_def)
qed

lemma env_of_flags: "queueEnabled (env_of q w) = q" "isWorker (env_of q w) = w"
  by (simp_all add: queueEnabled_def isWorker_def env_of_def)

lemma application_env_of: "application env = application (env_of (queueEnabled env) (isWorker env))"
  by (rule application_cong) (simp_all add: env_of_flags)

text \<open>The four deployments.\<close>

lemma computed_orders:
  "in_order documented (application (env_of False False)) [] (construction (application (env_of False False)))"
  "in_order documented (application (env_of False True)) [] (construction (application (env_of False True)))"
  "in_order documented (application (env_of True False)) [] (construction (application (env_of True False)))"
  "in_order documented (application (env_of True True)) [] (construction (application (env_of True True)))"
  by code_simp+

lemma application_in_order: "in_order documented (application env) [] (construction (application env))"
proof -
  have "in_order documented (application (env_of q w)) [] (construction (application (env_of q w)))" for q w
    using computed_orders by (cases q; cases w) simp_all
  then show ?thesis by (subst (1 2) application_env_of)
qed

lemma mod_names_all: "set mod_names = UNIV"
proof -
  have "n \<in> set mod_names" for n by (cases n) (simp_all add: mod_names_def)
  then show ?thesis by blast
qed

lemma construction_set: "set (construction ms) = {(n, c). c \<in> set (components (ms n))}"
proof -
  have "set ((if n = Auth_module then rev else id) xs) = set xs" for n and xs :: "component list" by simp
  then show ?thesis by (auto simp: construction_def components_def mod_names_all simp del: if_split)
qed

section \<open>Properties\<close>

text \<open>
  C25.  The application starts, as an API process and as a worker, with the queue and without: no module imports
  itself through others, every module exports only what it provides, and every class of every module, its controllers
  with their guards included, is constructed, since each argument it asks for is provided where it can see it and is
  constructed before it.
\<close>

theorem application_starts:
  assumes "libraries_le documented L"
  shows "list_all (\<lambda>n. list_all (\<lambda>c. constructed L (application env) n (co_token c)) (components (application env n))) mod_names \<and>
    list_all (\<lambda>i. list_all (\<lambda>k. k \<in> set (take i mod_names)) (own_imports (application env (mod_names ! i))))
      [0..<length mod_names] \<and>
    list_all (\<lambda>n. list_all (provides (application env n)) (mo_exports (application env n))) mod_names"
proof (intro conjI)
  have "\<forall>(n, c) \<in> set (construction (application env)). constructed documented (application env) n (co_token c)"
    by (rule in_order_sound [OF application_in_order]) (auto simp: construction_set)
  then show "list_all (\<lambda>n. list_all (\<lambda>c. constructed L (application env) n (co_token c)) (components (application env n))) mod_names"
    by (auto simp: list_all_iff construction_set intro: constructed_mono [OF assms])
next
  have "list_all (\<lambda>i. list_all (\<lambda>k. k \<in> set (take i mod_names)) (own_imports (application (env_of q w) (mod_names ! i))))
      [0..<length mod_names]" for q w
    by (cases q; cases w) (simp_all only:, code_simp+)
  then show "list_all (\<lambda>i. list_all (\<lambda>k. k \<in> set (take i mod_names)) (own_imports (application env (mod_names ! i))))
      [0..<length mod_names]"
    by (subst application_env_of)
next
  have "list_all (\<lambda>n. list_all (provides (application (env_of q w) n)) (mo_exports (application (env_of q w) n))) mod_names" for q w
    by (cases q; cases w) (simp_all only:, code_simp+)
  then show "list_all (\<lambda>n. list_all (provides (application env n)) (mo_exports (application env n))) mod_names"
    by (subst (1 2) application_env_of)
qed

theorem application_starts_witness:
  "constructed documented (application (env_of True True)) Reminders_module (Cls ''ReminderProcessor'') \<and>
    constructed documented (application (env_of False False)) Tasks_module (Cls ''TasksController'')"
proof -
  have le: "libraries_le documented documented" by (simp add: libraries_le_def)
  have "c \<in> set (components (application env n)) \<Longrightarrow> constructed documented (application env) n (co_token c)" for env n c
    using application_starts [OF le, of env] by (simp add: list_all_iff mod_names_all)
  from this [of "inject ''ReminderProcessor'' [Cls ''RemindersService'']" "env_of True True" Reminders_module]
    this [of "inject ''TasksController'' (Cls ''TasksService'' # WorkspaceMemberGuard_needs)" "env_of False False" Tasks_module]
  show ?thesis
    by (simp add: components_def RemindersModule_def RemindersModule_providers_def env_of_flags TasksModule_def inject_def)
qed

end
