(* ===== verification/System.thy ===== *)
theory System
  imports Access Auth Realtime Requests
begin

text \<open>
  The running system: one state for the database, the membership cache and the two queues, and a step for
  everything that acts on it: a request with whatever body or query, a call of \<open>AuthController\<close>, the delivery of
  a domain event to the listeners, a notification job, a reminder scan, a reminder job and its final failure.  Steps
  come in any order; each is taken whole.
\<close>

record ('c, 'q, 'n) deployment =
  dp_cache :: "'c cache_ops"
  dp_auth :: auth_env
  dp_reminders :: "('q, uuid) queue_ops option"
  dp_notifications :: "('n, create_notification_input) queue_ops option"

record ('c, 'q, 'n) system =
  sys_cache :: 'c
  sys_reminders :: 'q
  sys_notifications :: 'n
  sys_data :: app

section \<open>The other controllers\<close>

text \<open>\<open>AuthController\<close> hands on the headers as the session's context.\<close>

definition AuthController_context :: "string option \<Rightarrow> string option \<Rightarrow> session_context" where
  "AuthController_context userAgent ip = \<lparr>ctx_userAgent = userAgent, ctx_ip = ip\<rparr>"

definition AuthController_signup ::
    "auth_env \<Rightarrow> int \<Rightarrow> signup_dto \<Rightarrow> string option \<times> string option \<Rightarrow> string \<Rightarrow> uuid \<Rightarrow> uuid \<Rightarrow> string \<Rightarrow> uuid \<Rightarrow>
     js_date \<Rightarrow> pg_time \<Rightarrow> (app, auth_response) svc" where
  "AuthController_signup env ttlMs dto req salt uid familyId raw rid date now =
     AuthService_signup env ttlMs dto (AuthController_context (fst req) (snd req)) salt uid familyId raw rid date now"

definition AuthController_login ::
    "auth_env \<Rightarrow> int \<Rightarrow> login_dto \<Rightarrow> string option \<times> string option \<Rightarrow> uuid \<Rightarrow> string \<Rightarrow> uuid \<Rightarrow> js_date \<Rightarrow> pg_time \<Rightarrow>
     (app, auth_response) svc" where
  "AuthController_login env ttlMs dto req familyId raw rid date now =
     AuthService_login env ttlMs dto (AuthController_context (fst req) (snd req)) familyId raw rid date now"

definition AuthController_refresh ::
    "auth_env \<Rightarrow> int \<Rightarrow> string \<Rightarrow> string option \<times> string option \<Rightarrow> string \<Rightarrow> uuid \<Rightarrow> js_date \<Rightarrow> pg_time \<Rightarrow>
     (app, auth_response) svc" where
  "AuthController_refresh env ttlMs refreshToken req nextRaw rid date now =
     AuthService_refresh env ttlMs refreshToken (AuthController_context (fst req) (snd req)) nextRaw rid date now"

definition AuthController_logout :: "auth_env \<Rightarrow> string \<Rightarrow> js_date \<Rightarrow> (app, unit) svc" where
  "AuthController_logout env refreshToken date = bindM (AuthService_logout env refreshToken date) (\<lambda>_. ret ())"

text \<open>Any user with a token may start a scan.\<close>

definition RemindersController_scan ::
    "request \<Rightarrow> ('q, uuid) queue_ops option \<Rightarrow> js_date \<Rightarrow> (uuid \<times> uuid) list \<Rightarrow> pg_time \<Rightarrow> ('q \<times> app, scan_result) svc" where
  "RemindersController_scan req queue date ids now =
     bindM (JwtAuthGuard req) (\<lambda>_. RemindersService_scan queue date ids now)"

section \<open>Events\<close>

text \<open>
  An event reaches both listeners; an error of one is logged and changes nothing.  Notifications are
  written at once or, with a queue, become jobs.
\<close>

definition event_inline :: "domain_event \<Rightarrow> uuid \<times> uuid \<Rightarrow> pg_time \<Rightarrow> app \<Rightarrow> app" where
  "event_inline e ids now s =
     snd (NotificationListener_on e (snd ids) now (snd (ActivityListener_on e (fst ids) now s)))"

definition event_queued ::
    "('n, create_notification_input) queue_ops \<Rightarrow> domain_event \<Rightarrow> uuid \<times> uuid \<Rightarrow> pg_time \<Rightarrow> 'n \<times> app \<Rightarrow> 'n \<times> app" where
  "event_queued ops e ids now = (\<lambda>(n, s).
     (snd (NotificationQueueListener_on ops e n), snd (ActivityListener_on e (fst ids) now s)))"

text \<open>The events of a bus, first to last, each with the ids its entry and its notification are given.\<close>

fun deliver_events :: "(uuid \<times> uuid) list \<Rightarrow> pg_time \<Rightarrow> app \<Rightarrow> app" where
  "deliver_events [] now s = s"
| "deliver_events (i # ids) now s =
     (case bus s of
        [] \<Rightarrow> s
      | e # es \<Rightarrow> deliver_events ids now (event_inline e i now (s\<lparr>bus := es\<rparr>)))"

section \<open>Steps\<close>

inductive step ::
    "('c, 'q, 'n) deployment \<Rightarrow> ('c, 'q, 'n) system \<Rightarrow> ('c, 'q, 'n) system \<Rightarrow> bool"
  for dp :: "('c, 'q, 'n) deployment" where
  request: "env_ok env \<Longrightarrow> he_cache env = dp_cache dp \<Longrightarrow> request_ok req \<Longrightarrow> cv_documented cv \<Longrightarrow>
      receive cv env req i (sys_cache y, sys_data y) = (r, (c', s')) \<Longrightarrow>
      step dp y (y\<lparr>sys_cache := c', sys_data := s'\<rparr>)"
| signup: "\<not> has_id rt_familyId (tokens (sys_data y)) f \<Longrightarrow>
      AuthController_signup (dp_auth dp) ttl sdto hdr salt uid f raw rid d now (sys_data y) = (a, s') \<Longrightarrow>
      step dp y (y\<lparr>sys_data := s'\<rparr>)"
| login: "\<not> has_id rt_familyId (tokens (sys_data y)) f \<Longrightarrow>
      AuthController_login (dp_auth dp) ttl ldto hdr f raw rid d now (sys_data y) = (a, s') \<Longrightarrow>
      step dp y (y\<lparr>sys_data := s'\<rparr>)"
| refresh: "AuthController_refresh (dp_auth dp) ttl raw hdr next rid d now (sys_data y) = (a, s') \<Longrightarrow>
      step dp y (y\<lparr>sys_data := s'\<rparr>)"
| logout: "AuthController_logout (dp_auth dp) raw d (sys_data y) = (u, s') \<Longrightarrow> step dp y (y\<lparr>sys_data := s'\<rparr>)"
| event_inline: "dp_notifications dp = None \<Longrightarrow> bus (sys_data y) = e # es \<Longrightarrow>
      step dp y (y\<lparr>sys_data := event_inline e ids now ((sys_data y)\<lparr>bus := es\<rparr>)\<rparr>)"
| event_queued: "dp_notifications dp = Some ops \<Longrightarrow> bus (sys_data y) = e # es \<Longrightarrow>
      event_queued ops e ids now (sys_notifications y, (sys_data y)\<lparr>bus := es\<rparr>) = (n', s') \<Longrightarrow>
      step dp y (y\<lparr>sys_notifications := n', sys_data := s'\<rparr>)"
| notification_job: "dp_notifications dp = Some ops \<Longrightarrow> (j, input) \<in> set (queue_jobs ops (sys_notifications y)) \<Longrightarrow>
      NotificationProcessor_process [InAppChannel_deliver nid now] input (sys_data y) = (u, s') \<Longrightarrow>
      step dp y (y\<lparr>sys_data := s'\<rparr>)"
| scan_request: "RemindersController_scan req (dp_reminders dp) d pairs now (sys_reminders y, sys_data y) = (result, (q', s')) \<Longrightarrow>
      step dp y (y\<lparr>sys_reminders := q', sys_data := s'\<rparr>)"
| scan_cron: "SchedulerService_handleReminderScan (dp_reminders dp) d pairs now (False, sys_reminders y, sys_data y) =
        (running, q', s') \<Longrightarrow>
      step dp y (y\<lparr>sys_reminders := q', sys_data := s'\<rparr>)"
| reminder_job: "dp_reminders dp = Some rops \<Longrightarrow> (j, j_reminderId job) \<in> set (queue_jobs rops (sys_reminders y)) \<Longrightarrow>
      ReminderProcessor_process job nid d now (sys_data y) = (u, s') \<Longrightarrow>
      step dp y (y\<lparr>sys_data := s'\<rparr>)"
| reminder_failed: "dp_reminders dp = Some rops \<Longrightarrow> (j, j_reminderId job) \<in> set (queue_jobs rops (sys_reminders y)) \<Longrightarrow>
      ReminderProcessor_onFailed job (sys_data y) = (u, s') \<Longrightarrow>
      step dp y (y\<lparr>sys_data := s'\<rparr>)"

inductive reachable :: "('c, 'q, 'n) deployment \<Rightarrow> ('c, 'q, 'n) system \<Rightarrow> bool"
  for dp :: "('c, 'q, 'n) deployment" where
  start: "sys_data y = empty_app \<Longrightarrow> (\<And>d k. cache_get (dp_cache dp) (sys_cache y) d k = None) \<Longrightarrow> reachable dp y"
| steps: "reachable dp y \<Longrightarrow> step dp y y' \<Longrightarrow> reachable dp y'"

section \<open>What every step keeps\<close>

lemma served_data: "keeps app_ok m \<Longrightarrow> keeps_members m \<Longrightarrow> served ops (c, s) \<Longrightarrow> m s = (r, s') \<Longrightarrow> served ops (c, s')"
  using keepsD [OF served_on_db, of m ops "(c, s)" r "(c, s')"] by (simp add: on_db_iff)

lemma same_members_current:
  "cache_current ops (c, s) \<Longrightarrow> members s' = members s \<Longrightarrow> cache_current ops (c, s')"
  by (simp add: cache_current_def find_member_def)

text \<open>Users, sessions, notifications, the audit trail and reminders leave the members alone.\<close>

lemma writes_members_more:
  "keeps (has_member w u x) (writes (insert_user a))" "keeps (has_member w u x) (writes (insert_token b))"
  "keeps (has_member w u x) (writes (insert_activity c))" "keeps (has_member w u x) (writes (insert_notification d))"
  by (rule keeps_members_writes; simp add: insert_user_def insert_token_def insert_activity_def
      insert_notification_def; elim conjE; simp)+

lemma modifies_members_more:
  "keeps (has_member w u x) (modifies (\<lambda>s. s\<lparr>tokens := f1 s\<rparr>))"
  "keeps (has_member w u x) (modifies (\<lambda>s. s\<lparr>reminders := f2 s\<rparr>))"
  by (rule keeps_members_modifies, simp)+

lemmas more_rules = members_rules writes_members_more modifies_members_more

lemma more_members:
  "keeps_members (AuthService_signup env ttl sdto ctx salt uid f raw rid d now)"
  "keeps_members (AuthService_login env ttl ldto ctx f raw rid d now)"
  "keeps_members (AuthService_refresh env ttl raw ctx next rid d now)"
  "keeps_members (AuthService_logout env raw d)"
  "keeps_members (ActivityService_record t a act meta aid now)"
  "keeps_members (NotificationsService_create input nid now)"
  "keeps_members (update_reminder i g)"
  unfolding AuthService_signup_def AuthService_login_def AuthService_logout_def AuthService_issueTokens_def
    AuthService_refresh_def RefreshTokenService_rotate_def RefreshTokenService_revokeFamily_def
    UsersService_create_def RefreshTokenService_issueForNewSession_def RefreshTokenService_createToken_def
    RefreshTokenService_revoke_def ActivityService_record_def NotificationsService_create_def update_reminder_def Let_def
  by (rule keeps_membersI, auto split: option.split prod.split intro!: more_rules)+

lemma keeps_members_bindM: "keeps_members m \<Longrightarrow> (\<And>a. keeps_members (f a)) \<Longrightarrow> keeps_members (bindM m f)"
  unfolding keeps_members_def by (auto intro: keeps_bindM)

lemma keeps_members_basic:
  "keeps_members (ret a)" "keeps_members (throw e)" "keeps_members (reads g)" "keeps_members (guardM b e)"
  by (simp_all add: keeps_members_def keeps_intros)

lemma listeners_members:
  "keeps_members (ActivityListener_on e aid now)" "keeps_members (NotificationListener_on e nid now)"
  "keeps_members (NotificationProcessor_process [InAppChannel_deliver nid now] input)"
  unfolding NotificationListener_on_def NotificationListener_deliver_def InAppChannel_deliver_def
    NotificationProcessor_process.simps ActivityListener_on_entry
  by (auto split: option.split prod.split intro!: keeps_members_bindM keeps_members_basic more_members)

lemma reminder_members:
  "keeps_members (ReminderProcessor_process job nid d now)" "keeps_members (ReminderProcessor_onFailed job)"
  unfolding ReminderProcessor_process_def RemindersService_deliverReminder_def RemindersService_notifyAssignee_def
    ReminderProcessor_onFailed_def RemindersService_markFailed_def Let_def
  by (auto split: option.split intro!: keeps_members_bindM keeps_members_basic more_members)

lemma NotificationProcessor_keeps:
  "keeps app_ok (NotificationProcessor_process [InAppChannel_deliver nid now] input)"
  by (auto intro!: keeps_intros InAppChannel_deliver_keeps)

lemma ReminderProcessor_process_keeps: "keeps app_ok (ReminderProcessor_process job nid d now)"
  unfolding ReminderProcessor_process_def by (rule RemindersService_deliverReminder_keeps)

lemma keeps_on_app_members: "keeps_members m \<Longrightarrow> keeps (\<lambda>qs. has_member w u x (snd qs)) (on_app m)"
  unfolding keeps_members_def by (intro keeps_on_app) blast

lemma createReminder_members: "keeps_members (RemindersService_createReminder t ty d rid pg)"
  unfolding keeps_members_def keeps_def RemindersService_createReminder_def
  by (auto simp: insert_reminder_or_ignore_def has_member_def find_member_def split: sum.splits prod.splits if_splits)

lemma scan_members:
  "keeps (\<lambda>qs. has_member w u x (snd qs)) (RemindersService_scan queue now ids pg)"
  for queue :: "('a, uuid) queue_ops option"
proof -
  have dispatch: "keeps (\<lambda>qs. has_member w u x (snd qs)) (RemindersService_dispatch qu t ty i d pg')"
    for qu :: "('a, uuid) queue_ops option" and t ty i d pg'
    unfolding RemindersService_dispatch_def RemindersService_notifyAssignee_def
    by (auto split: option.split prod.split sum.split
        intro!: keeps_intros keeps_on_app_members createReminder_members keeps_members_bindM keeps_members_basic more_members)
      (auto simp: keeps_def split: option.splits)
  have "keeps (\<lambda>qs. has_member w u x (snd qs)) (dispatch_each queue xs now pg r)" for xs r
    by (induction queue xs now pg r rule: dispatch_each.induct) (auto intro!: keeps_intros dispatch)
  then show ?thesis
    by (auto intro!: keepsI simp: RemindersService_scan_def Let_def dest: keepsD)
qed

lemma scan_current:
  assumes "cache_current ops (c, s)" and "RemindersService_scan queue now ids pg (q, s) = (r, (q', s'))"
  shows "cache_current ops (c, s')"
proof -
  have "find_member w u s = Some x \<Longrightarrow> find_member w u s' = Some x" for w u x
    using keepsD [OF scan_members [of w u x] _ assms(2)] by (simp add: has_member_def)
  with assms(1) show ?thesis by (simp add: cache_current_def)
qed

lemma controller_defs:
  "AuthController_signup env ttl sdto hdr = AuthService_signup env ttl sdto (AuthController_context (fst hdr) (snd hdr))"
  "AuthController_login env ttl ldto hdr = AuthService_login env ttl ldto (AuthController_context (fst hdr) (snd hdr))"
  "AuthController_refresh env ttl raw hdr = AuthService_refresh env ttl raw (AuthController_context (fst hdr) (snd hdr))"
  by (simp_all add: fun_eq_iff AuthController_signup_def AuthController_login_def AuthController_refresh_def)

lemma AuthController_logout_same: "AuthController_logout env raw d = AuthService_logout env raw d"
  by (auto simp: AuthController_logout_def bindM_def ret_def fun_eq_iff split: prod.split sum.split)

lemma scan_served:
  assumes "served ops (c, s)" and "RemindersService_scan queue d ids now (q, s) = (r, (q', s'))"
  shows "served ops (c, s')"
  using keepsD [OF RemindersService_scan_keeps _ assms(2)] scan_current [OF _ assms(2), of ops c] assms(1)
  by (simp add: served_def)

lemma popped_served: "served ops (c, s) \<Longrightarrow> served ops (c, s\<lparr>bus := es\<rparr>)"
  by (simp add: served_def cache_current_def find_member_def app_ok_def)

text \<open>
  What the event bus and the queues call: a handler takes a message, runs to its end and leaves the data sound and
  every member a member, whatever comes of it.
\<close>

locale message_handler =
  fixes handler :: "'m \<Rightarrow> (app, unit) svc"
  assumes handler_keeps: "keeps app_ok (handler m)"
    and handler_members: "keeps_members (handler m)"
begin

lemma handled: "served ops (c, s) \<Longrightarrow> handler m s = (r, s') \<Longrightarrow> served ops (c, s')"
  by (rule served_data [OF handler_keeps handler_members])

lemma handled_state: "served ops (c, s) \<Longrightarrow> served ops (c, snd (handler m s))"
  by (rule handled [OF _ prod.collapse [symmetric]])

end

interpretation activity_listener: message_handler "\<lambda>(e, aid, now). ActivityListener_on e aid now"
  by unfold_locales (auto intro: ActivityListener_on_keeps listeners_members(1))

interpretation notification_listener: message_handler "\<lambda>(e, nid, now). NotificationListener_on e nid now"
  by unfold_locales (auto intro: NotificationListener_on_keeps listeners_members(2))

interpretation notification_processor:
    message_handler "\<lambda>(input, nid, now). NotificationProcessor_process [InAppChannel_deliver nid now] input"
  by unfold_locales (auto intro: NotificationProcessor_keeps listeners_members(3) simp del: NotificationProcessor_process.simps)

interpretation reminder_processor: message_handler "\<lambda>(job, nid, d, now). ReminderProcessor_process job nid d now"
  by unfold_locales (auto intro: ReminderProcessor_process_keeps reminder_members(1))

interpretation reminder_failure: message_handler ReminderProcessor_onFailed
  by unfold_locales (auto intro: ReminderProcessor_onFailed_keeps reminder_members(2))

lemmas listened_served = activity_listener.handled_state [of _ _ _ "(e, aid, now)" for e aid now, simplified]
  notification_listener.handled_state [of _ _ _ "(e, nid, now)" for e nid now, simplified]

lemmas processed_served =
  notification_processor.handled [of _ _ _ "(input, nid, now)" for input nid now, simplified NotificationProcessor_process.simps prod.case]
  reminder_processor.handled [of _ _ _ "(job, nid, d, now)" for job nid d now, simplified]
  reminder_failure.handled

definition system_ok :: "('c, 'q, 'n) deployment \<Rightarrow> ('c, 'q, 'n) system \<Rightarrow> bool" where
  "system_ok dp y \<longleftrightarrow> served (dp_cache dp) (sys_cache y, sys_data y)"

lemma step_ok:
  assumes "step dp y y'" and "system_ok dp y"
  shows "system_ok dp y'"
  using assms
proof (induction rule: step.induct)
  case (request env req cv i y r c' s')
  show ?case
    using keepsD [OF receive_keeps [OF request(1,3,4)] _ request(5)] request(2,6) by (simp add: system_ok_def)
next
  case (signup y f ttl sdto hdr salt uid raw rid d now a s')
  have "cache_current (dp_cache dp) (sys_cache y, s')"
    using keepsD [OF on_db_current [OF more_members(1)], of "dp_cache dp" "(sys_cache y, sys_data y)"]
      signup by (simp add: on_db_iff system_ok_def served_def controller_defs)
  with signup_runs(1) [OF _ signup(1) signup(2) [unfolded controller_defs]] signup(3) show ?case by (simp add: system_ok_def served_def)
next
  case (login y f ttl ldto hdr raw rid d now a s')
  have "cache_current (dp_cache dp) (sys_cache y, s')"
    using keepsD [OF on_db_current [OF more_members(2)], of "dp_cache dp" "(sys_cache y, sys_data y)"]
      login by (simp add: on_db_iff system_ok_def served_def controller_defs)
  with login_runs_ok [OF _ login(1) login(2) [unfolded controller_defs]] login(3) show ?case by (simp add: system_ok_def served_def)
next
  case (scan_request req d pairs now y result q' s')
  then show ?case
    by (auto simp: system_ok_def RemindersController_scan_def JwtAuthGuard_def split: option.splits intro: scan_served)
next
  case (scan_cron d pairs now y running q' s')
  obtain r q2 s2 where "RemindersService_scan (dp_reminders dp) d pairs now (sys_reminders y, sys_data y) = (r, (q2, s2))"
    by (metis surj_pair)
  with scan_cron show ?case
    by (auto simp: system_ok_def SchedulerService_handleReminderScan_def SchedulerService_start_def intro: scan_served)
next
  case (event_queued ops y e es ids now n' s')
  then show ?case
    by (auto simp: system_ok_def event_queued_def intro: listened_served popped_served)
qed (auto simp: system_ok_def event_inline_def controller_defs AuthController_logout_same intro: listened_served popped_served
    served_data [OF refresh_keeps more_members(3)] served_data [OF logout_keeps more_members(4)]
    processed_served)

lemma reachable_system_ok: "reachable dp y \<Longrightarrow> system_ok dp y"
proof (induction rule: reachable.induct)
  case (start y)
  then show ?case by (simp add: system_ok_def served_def app_ok_empty cache_current_def)
qed (rule step_ok)

section \<open>What the events of a bus lead to\<close>

definition entry_row :: "task_activity \<Rightarrow> uuid \<times> uuid option \<times> activity_action \<times> (string \<times> string) list" where
  "entry_row a = (a_taskId a, a_actorId a, a_action a, a_metadata a)"

definition input_of :: "notification \<Rightarrow> create_notification_input" where
  "input_of n = \<lparr>cn_recipientId = n_recipientId n, cn_type = n_type n, cn_title = n_title n, cn_body = n_body n,
     cn_entityType = n_entityType n, cn_entityId = n_entityId n, cn_workspaceId = n_workspaceId n\<rparr>"

text \<open>The specification: the entries and the notifications that a sequence of events calls for.\<close>

definition trail_of :: "domain_event list \<Rightarrow> (uuid \<times> uuid option \<times> activity_action \<times> (string \<times> string) list) list" where
  "trail_of es = List.map_filter (\<lambda>e. map_option (\<lambda>(act, u, meta). (ev_task e, Some u, act, meta)) (entry_of e)) es"

definition inbox_of :: "domain_event list \<Rightarrow> create_notification_input list" where
  "inbox_of es = List.map_filter notification_for es"

text \<open>The rows an event speaks of are there.\<close>

definition event_refs :: "app \<Rightarrow> domain_event \<Rightarrow> bool" where
  "event_refs s e \<longleftrightarrow>
     (case entry_of e of None \<Rightarrow> True
      | Some (act, u, meta) \<Rightarrow> has_id t_id (tasks s) (ev_task e) \<and> has_id u_id (users s) u) \<and>
     (case notification_for e of None \<Rightarrow> True | Some i \<Rightarrow> has_id u_id (users s) (cn_recipientId i))"

lemma event_refs_cong: "tasks s' = tasks s \<Longrightarrow> users s' = users s \<Longrightarrow> event_refs s' e = event_refs s e"
  by (auto simp: event_refs_def split: option.split)

definition fresh_pairs :: "app \<Rightarrow> (uuid \<times> uuid) list \<Rightarrow> bool" where
  "fresh_pairs s ids \<longleftrightarrow> distinct (map fst ids) \<and> distinct (map snd ids) \<and>
     set (map fst ids) \<inter> set (map a_id (activities s)) = {} \<and>
     set (map snd ids) \<inter> set (map n_id (notifications s)) = {}"

lemma trail_of_Cons: "trail_of (e # es) = trail_of [e] @ trail_of es"
  and inbox_of_Cons: "inbox_of (e # es) = inbox_of [e] @ inbox_of es"
  by (simp_all add: trail_of_def inbox_of_def List.map_filter_def)

lemma notification_for_short:
  "notification_for e = Some i \<Longrightarrow> length (cn_title i) \<le> 200 \<and> cn_workspaceId i = None \<and>
     (\<exists>t. cn_entityType i = Some t \<and> length t \<le> 40)"
  by (cases e) (auto simp: mapTaskAssigned_def mapTaskCompleted_def mapCommentCreated_def mapCommentReplied_def
      notify_def split: if_splits)

lemma recorded:
  assumes "event_refs s e" and "aid \<notin> set (map a_id (activities s))"
  shows "\<exists>as. snd (ActivityListener_on e aid now s) = s\<lparr>activities := activities s @ as\<rparr> \<and>
    map entry_row as = trail_of [e] \<and> set (map a_id as) \<subseteq> {aid}"
proof (cases "entry_of e")
  case None
  then show ?thesis
    by (intro exI [of _ "[]"]) (simp add: ActivityListener_on_entry ret_def trail_of_def List.map_filter_def)
next
  case (Some x)
  obtain act u meta where x: "x = (act, u, meta)" by (cases x)
  show ?thesis
    using assms Some
    by (intro exI [of _ "[\<lparr>a_id = aid, a_taskId = ev_task e, a_actorId = Some u, a_action = act,
          a_metadata = meta, a_createdAt = now\<rparr>]"])
      (simp add: ActivityListener_on_entry ActivityService_record_def writes_def insert_activity_def x enforce.simps
        event_refs_def has_id_def has_id_opt_def trail_of_def List.map_filter_def entry_row_def)
qed

lemma notified:
  assumes "event_refs s e" and "nid \<notin> set (map n_id (notifications s))"
  shows "\<exists>ns. snd (NotificationListener_on e nid now s) =
      s\<lparr>notifications := notifications s @ ns, bus := bus s @ map NotificationCreated ns\<rparr> \<and>
    map input_of ns = inbox_of [e] \<and> set (map n_id ns) \<subseteq> {nid}"
proof (cases "notification_for e")
  case None
  then show ?thesis
    by (intro exI [of _ "[]"])
      (simp add: NotificationListener_on_def NotificationListener_deliver_def ret_def inbox_of_def List.map_filter_def)
next
  case (Some i)
  let ?n = "\<lparr>n_id = nid, n_recipientId = cn_recipientId i, n_type = cn_type i, n_title = cn_title i, n_body = cn_body i,
     n_entityType = cn_entityType i, n_entityId = cn_entityId i, n_workspaceId = cn_workspaceId i,
     n_isRead = False, n_readAt = None, n_createdAt = now\<rparr>"
  have "insert_notification ?n s = Inr (s\<lparr>notifications := notifications s @ [?n]\<rparr>)"
    using assms Some notification_for_short [OF Some]
    by (auto simp: insert_notification_def event_refs_def has_id_def has_id_opt_def)
  then show ?thesis
    using Some
    by (intro exI [of _ "[?n]"])
      (simp add: NotificationListener_on_def NotificationListener_deliver_def NotificationsService_create_def
        bindM_def writes_def modifies_def ret_def Let_def emit_def inbox_of_def List.map_filter_def input_of_def)
qed

lemma event_inline_effect:
  assumes "event_refs s e" and "fst i \<notin> set (map a_id (activities s))" and "snd i \<notin> set (map n_id (notifications s))"
  shows "\<exists>as ns. event_inline e i now s = s\<lparr>activities := activities s @ as, notifications := notifications s @ ns,
        bus := bus s @ map NotificationCreated ns\<rparr> \<and>
    map entry_row as = trail_of [e] \<and> set (map a_id as) \<subseteq> {fst i} \<and>
    map input_of ns = inbox_of [e] \<and> set (map n_id ns) \<subseteq> {snd i}"
proof -
  obtain as where as: "snd (ActivityListener_on e (fst i) now s) = s\<lparr>activities := activities s @ as\<rparr>"
      "map entry_row as = trail_of [e]" "set (map a_id as) \<subseteq> {fst i}"
    using recorded [OF assms(1,2)] by blast
  let ?s = "s\<lparr>activities := activities s @ as\<rparr>"
  have "event_refs ?s e" "snd i \<notin> set (map n_id (notifications ?s))" using assms event_refs_cong [of ?s s] by simp_all
  from notified [OF this, of now] as show ?thesis
    by (auto simp: event_inline_def intro!: exI [of _ as])
qed

text \<open>One event after the other, \<open>n\<close> of them, with what is announced to the gateway queued behind.\<close>

lemma deliver_events_effect:
  assumes "bus s = es @ later" and "length ids = length es" and "fresh_pairs s ids" and "\<forall>e \<in> set es. event_refs s e"
  shows "\<exists>as ns. deliver_events ids now s = s\<lparr>activities := activities s @ as, notifications := notifications s @ ns,
        bus := later @ map NotificationCreated ns\<rparr> \<and>
    map entry_row as = trail_of es \<and> map input_of ns = inbox_of es"
  using assms
proof (induction es arbitrary: s ids later)
  case Nil
  then show ?case
    by (intro exI [of _ "[]"]) (simp add: trail_of_def inbox_of_def List.map_filter_def)
next
  case (Cons e es)
  from Cons.prems(2) obtain i js where ids: "ids = i # js" and js: "length js = length es" by (cases ids) auto
  let ?s = "s\<lparr>bus := es @ later\<rparr>"
  from Cons.prems(3,4) have "event_refs ?s e" "fst i \<notin> set (map a_id (activities ?s))"
      "snd i \<notin> set (map n_id (notifications ?s))"
    using event_refs_cong [of ?s s] by (simp_all add: fresh_pairs_def ids)
  from event_inline_effect [OF this, of now] obtain as ns where
    step: "event_inline e i now ?s = s\<lparr>activities := activities s @ as, notifications := notifications s @ ns,
        bus := (es @ later) @ map NotificationCreated ns\<rparr>"
    and as: "map entry_row as = trail_of [e]" "set (map a_id as) \<subseteq> {fst i}"
    and ns: "map input_of ns = inbox_of [e]" "set (map n_id ns) \<subseteq> {snd i}"
    by auto
  define t where "t = event_inline e i now ?s"
  have "bus t = es @ (later @ map NotificationCreated ns)" by (simp add: t_def step)
  moreover have "set (map fst js) \<inter> set (map a_id as) = {}" "set (map snd js) \<inter> set (map n_id ns) = {}"
    using Cons.prems(3) as(2) ns(2) unfolding fresh_pairs_def ids list.map distinct.simps by blast+
  then have "fresh_pairs t js"
    using Cons.prems(3) by (auto simp: fresh_pairs_def ids t_def step)
  moreover have "\<forall>e \<in> set es. event_refs t e"
    using Cons.prems(4) event_refs_cong [of t s] by (simp add: t_def step)
  ultimately obtain as' ns' where rest: "deliver_events js now t = t\<lparr>activities := activities t @ as',
        notifications := notifications t @ ns', bus := (later @ map NotificationCreated ns) @ map NotificationCreated ns'\<rparr>"
      "map entry_row as' = trail_of es" "map input_of ns' = inbox_of es"
    using Cons.IH [OF _ js] by blast
  have "deliver_events ids now s = deliver_events js now t"
    using Cons.prems(1) by (simp add: ids t_def)
  with rest as ns show ?case
    by (intro exI [of _ "as @ as'"] exI [of _ "ns @ ns'"])
      (simp add: t_def step trail_of_Cons [of e es] inbox_of_Cons [of e es])
qed

text \<open>The events of an update speak of rows that are there.\<close>

lemma update_event_refs:
  assumes ok: "app_ok s" and u: "has_id u_id (users s) u" and r: "r \<in> set (tasks s)"
    and e: "e \<in> set (update_events dto u t r)"
  shows "event_refs s e"
proof -
  have "has_id_opt u_id (users s) (t_assigneeId r)" "has_id u_id (users s) (t_createdBy r)"
    using ok r by (auto simp: app_ok_def tasks_ok_def)
  moreover have "has_id t_id (tasks s) (t_id r)" using r by (simp add: has_id_def)
  ultimately show ?thesis
    using e u
    by (auto simp: update_events_def event_refs_def mapTaskAssigned_def mapTaskCompleted_def notify_def has_id_opt_def
        split: if_splits option.splits)
qed

section \<open>Properties\<close>


definition ex_deployment :: "((string \<times> member \<times> js_date) list, unit, unit) deployment" where
  "ex_deployment = \<lparr>dp_cache = memory_cache, dp_auth = ex_env, dp_reminders = None, dp_notifications = None\<rparr>"

definition ex_start :: "((string \<times> member \<times> js_date) list, unit, unit) system" where
  "ex_start = \<lparr>sys_cache = [], sys_reminders = (), sys_notifications = (), sys_data = empty_app\<rparr>"

definition ex_signup :: signup_dto where
  "ex_signup = \<lparr>su_email = ''a@x'', su_name = ''A'', su_password = ''pw''\<rparr>"

lemma ex_signed_up:
  "\<not> isl (fst (AuthService_signup ex_env 1000 ex_signup ex_ctx [] ''u1'' ''f1'' ''raw'' ''k1'' 0 0 empty_app))"
  by code_simp



lemma ex_updated:
  "\<not> isl (fst (TasksService_update ''w1'' ''p1'' ''t3'' ''u2'' ex_update 5000 ex_app))"
  "length (bus (snd (TasksService_update ''w1'' ''p1'' ''t3'' ''u2'' ex_update 5000 ex_app))) = 3"
  by code_simp+


end
