(* ===== verification/Races.thy ===== *)
theory Races
  imports Access Auth
begin

text \<open>
  What two requests can do to each other.  A handler awaits the database at each statement, so another request
  may run there; \<open>rotate\<close> and \<open>moveTask\<close> check with reads and write afterwards, in no transaction.  Each is
  split here at that point, the parts compose to the whole, and \<open>overlapped\<close> runs two calls so that both check
  before either writes.  A membership cache of another instance of the API is not told of a change.
\<close>

definition overlapped ::
    "('s, 'a) svc \<Rightarrow> ('a \<Rightarrow> ('s, 'b) svc) \<Rightarrow> ('s, 'c) svc \<Rightarrow> ('c \<Rightarrow> ('s, 'd) svc) \<Rightarrow> 's \<Rightarrow> ('b res \<times> 'd res) \<times> 's" where
  "overlapped check1 write1 check2 write2 s =
     (case check1 s of (r1, s1) \<Rightarrow> case check2 s1 of (r2, s2) \<Rightarrow>
      case (case r1 of Inl e \<Rightarrow> (Inl e, s2) | Inr a \<Rightarrow> write1 a s2) of (x1, s3) \<Rightarrow>
      case (case r2 of Inl e \<Rightarrow> (Inl e, s3) | Inr b \<Rightarrow> write2 b s3) of (x2, s4) \<Rightarrow> ((x1, x2), s4))"

section \<open>Moving tasks\<close>

definition moveTask_checks :: "uuid \<Rightarrow> uuid \<Rightarrow> uuid \<Rightarrow> uuid \<Rightarrow> (app, task) svc" where
  "moveTask_checks workspaceId projectId taskId newParentId =
     bindM (TasksService_findOneOrFail workspaceId projectId taskId) (\<lambda>task.
     bindM (guardM (newParentId \<noteq> taskId) (BadRequest ''A task cannot be its own parent'')) (\<lambda>_.
     bindM (tasks_find_in_project projectId newParentId
              (BadRequest ''New parent task not found in this project'')) (\<lambda>_.
     bindM (run_cte (cte_descendants taskId)) (\<lambda>descendants.
     bindM (guardM (\<not> list_ex (\<lambda>d. t_id (fst d) = newParentId) descendants)
              (BadRequest ''Cannot move a task underneath its own descendant (would create a cycle)'')) (\<lambda>_.
     let subtreeHeight = max_depth descendants in
     bindM (TasksService_depthOf newParentId) (\<lambda>parentDepth.
     bindM (guardM (\<not> MAX_DEPTH < parentDepth + 1 + subtreeHeight)
              (BadRequest ''Maximum nesting depth of 5 would be exceeded'')) (\<lambda>_.
     ret task)))))))"

definition moveTask_write :: "uuid \<Rightarrow> pg_time \<Rightarrow> task \<Rightarrow> (app, task) svc" where
  "moveTask_write newParentId now task = save_task now task (task\<lparr>t_parentTaskId := Some newParentId\<rparr>)"

lemma moveTask_split:
  "TasksService_moveTask w p i (Some q) now = bindM (moveTask_checks w p i q) (moveTask_write q now)"
  by (simp add: TasksService_moveTask_def moveTask_checks_def moveTask_write_def bindM_assoc Let_def)

lemma moveTask_checks_pass:
  assumes ok: "app_ok s" and t: "reachable_task w p t s"
    and allowed: "move_refusal s p (t_id t) (Some q) = None"
  shows "moveTask_checks w p (t_id t) q s = (Inr t, s)"
proof -
  have found: "TasksService_findOneOrFail w p (t_id t) s = (Inr t, s)"
    using t by (simp add: TasksService_findOneOrFail_found [OF ok])
  have tin: "t \<in> set (tasks s)" using t by (simp add: reachable_task_def)
  from allowed obtain n where n: "List.find (\<lambda>t. t_id t = q \<and> t_projectId t = p) (tasks s) = Some n"
    by (auto simp: move_refusal_def exists_row_find split: if_splits)
  then have nin: "n \<in> set (tasks s)" "t_id n = q" by (auto dest: find_SomeD)
  obtain D where D: "cte_descendants (t_id t) s = Some D"
    and desc: "\<And>q. list_ex (\<lambda>d. t_id (fst d) = q) D \<longleftrightarrow> has_id t_id (tasks s) q \<and> under (task_up s) (t_id t) q"
    and hgt: "max_depth D = height_of (task_up s) (t_id t)"
    using cte_descendants_spec [OF ok tin] by metis
  obtain A where A: "cte_ancestors q s = Some A" and dep: "max_depth A = depth_of (task_up s) q"
    using cte_ancestors_spec [OF ok nin(1)] nin(2) by metis
  have find: "tasks_find_in_project p q e s = (Inr n, s)" for e
    using n by (simp add: tasks_find_in_project_def reads_def)
  have depth: "TasksService_depthOf q s = (Inr (depth_of (task_up s) q), s)"
    by (simp add: TasksService_depthOf_def bindM_def run_cte_Some A ret_def dep)
  show ?thesis
    using allowed
    by (auto simp: moveTask_checks_def bindM_def found find guardM_def ret_def move_refusal_def
        run_cte_Some D desc depth hgt Let_def split: if_splits)
qed

text \<open>Two tasks that are each other's parent: the walk down from one never ends.\<close>

lemma mutual_parents_diverge:
  assumes d: "distinct (map t_id ts)" and a: "a \<in> set ts" and b: "b \<in> set ts"
    and par: "t_parentTaskId a = Some (t_id b)" "t_parentTaskId b = Some (t_id a)"
  shows "cte (join_down t_id t_parentTaskId ts) n 0 [a] = None"
proof -
  let ?up = "parent_of t_id t_parentTaskId ts"
  have up: "?up (t_id a) = Some (t_id b)" "?up (t_id b) = Some (t_id a)"
    using parent_of_row [OF d a, of t_parentTaskId] parent_of_row [OF d b, of t_parentTaskId] par by simp_all
  have "climb ?up k (t_id a) = Some (t_id a) \<and> climb ?up k (t_id b) = Some (t_id b) \<or>
      climb ?up k (t_id a) = Some (t_id b) \<and> climb ?up k (t_id b) = Some (t_id a)" for k
    by (induction k) (auto simp: up)
  then have "\<exists>r \<in> set ts. climb ?up k (t_id r) = Some (t_id a)" for k
    using a b by metis
  moreover have "set [a] \<subseteq> set ts" using a by simp
  ultimately have "(join_down t_id t_parentTaskId ts ^^ k) [a] \<noteq> []" for k
    using set_down_level [OF d, of "[a]" k t_parentTaskId] by (metis (mono_tags, lifting) emptyE empty_set list.set_intros(1) mem_Collect_eq)
  then show ?thesis by (simp add: cte_None)
qed

text \<open>The subtree query of such a task is cut off by the database.\<close>

lemma getSubtree_diverges:
  assumes d: "distinct (map t_id (tasks s))" and t: "reachable_task w p t s"
    and loop: "\<And>n. cte (join_down t_id t_parentTaskId (tasks s)) n 0 [t] = None"
  shows "TasksService_getSubtree w p (t_id t) s = (Inl (QueryFailed StatementTimeout), s)"
proof -
  have found: "TasksService_findOneOrFail w p (t_id t) s = (Inr t, s)"
    using t by (simp add: TasksService_findOneOrFail_keyed [OF d])
  have tin: "t \<in> set (tasks s)" "t_projectId t = p" using t by (simp_all add: reachable_task_def)
  have "filter (\<lambda>x. t_id x = t_id t \<and> t_projectId x = p) (tasks s) =
      filter (\<lambda>x. t_projectId x = p) (filter (\<lambda>x. t_id x = t_id t) (tasks s))"
    by (simp add: conj_commute)
  also have "\<dots> = [t]" using filter_by_id [OF d tin(1)] tin(2) by simp
  finally have "cte_subtree p (t_id t) s = None" by (simp add: cte_subtree_def loop)
  then show ?thesis by (simp add: TasksService_getSubtree_def bindM_def found run_cte_def reads_def)
qed

lemma first_move:
  assumes ok: "app_ok s" and t: "reachable_task w p t s"
    and allowed: "move_refusal s p (t_id t) (Some q) = None"
  shows "\<exists>r. moveTask_write q now t s = (Inr r, s\<lparr>tasks := update_row t_id r (tasks s)\<rparr>) \<and>
    t_id r = t_id t \<and> t_projectId r = p \<and> t_parentTaskId r = Some q \<and> app_ok (s\<lparr>tasks := update_row t_id r (tasks s)\<rparr>)"
proof -
  have tin: "t \<in> set (tasks s)" "t_projectId t = p" using t by (simp_all add: reachable_task_def)
  obtain r where r: "moveTask_write q now t s = (Inr r, s\<lparr>tasks := update_row t_id r (tasks s)\<rparr>)"
      "t_id r = t_id t" "t_parentTaskId r = Some q" "r = t\<lparr>t_parentTaskId := Some q, t_updatedAt := t_updatedAt r\<rparr>"
    unfolding moveTask_write_def
    by (rule save_task_moved [OF ok tin(1) move_refusal_allowed [OF allowed tin(2) refl]])
  moreover have "t_projectId r = p" by (subst r(4)) (simp add: tin)
  moreover have "TasksService_moveTask w p (t_id t) (Some q) now s = (Inr r, s\<lparr>tasks := update_row t_id r (tasks s)\<rparr>)"
    by (simp add: moveTask_split bindM_def moveTask_checks_pass [OF assms] r(1))
  with keepsD [OF TasksService_moveTask_keeps ok] have "app_ok (s\<lparr>tasks := update_row t_id r (tasks s)\<rparr>)" by blast
  ultimately show ?thesis by blast
qed

text \<open>The second write, after the first: no constraint of the database refuses it.\<close>

lemma second_move:
  assumes ok: "app_ok s" and t: "t \<in> set (tasks s)" "t_projectId t = p"
    and q: "q \<in> set (tasks s)" "t_id q \<noteq> t_id t"
  shows "\<exists>r. moveTask_write (t_id q) now t s = (Inr r, s\<lparr>tasks := update_row t_id r (tasks s)\<rparr>) \<and>
    t_id r = t_id t \<and> t_projectId r = p \<and> t_parentTaskId r = Some (t_id q)"
proof -
  have "has_id_opt t_id (tasks s) (Some (t_id q))" using q(1) by (simp add: has_id_def has_id_opt_def)
  then obtain r where r: "moveTask_write (t_id q) now t s = (Inr r, s\<lparr>tasks := update_row t_id r (tasks s)\<rparr>)"
      "r = t\<lparr>t_parentTaskId := Some (t_id q), t_updatedAt := t_updatedAt r\<rparr>"
    using save_task_placed [OF ok t(1), of "Some (t_id q)" now] q(2) by (auto simp: moveTask_write_def)
  moreover obtain x where "r = t\<lparr>t_parentTaskId := Some (t_id q), t_updatedAt := x\<rparr>" using r(2) by blast
  then have "t_id r = t_id t \<and> t_projectId r = p \<and> t_parentTaskId r = Some (t_id q)" by (simp add: t)
  ultimately show ?thesis by blast
qed

definition moved_apart :: "uuid \<Rightarrow> uuid \<Rightarrow> task \<Rightarrow> task \<Rightarrow> app \<Rightarrow> bool" where
  "moved_apart w p t q s \<longleftrightarrow> app_ok s \<and> reachable_task w p t s \<and> reachable_task w p q s \<and>
     move_refusal s p (t_id t) (Some (t_id q)) = None \<and> move_refusal s p (t_id q) (Some (t_id t)) = None"

lemma overlapped_moves:
  assumes "moved_apart w p t q s"
  shows "\<exists>r1 r2 s'. overlapped (moveTask_checks w p (t_id t) (t_id q)) (moveTask_write (t_id q) now)
        (moveTask_checks w p (t_id q) (t_id t)) (moveTask_write (t_id t) now') s = ((Inr r1, Inr r2), s') \<and>
      reachable_task w p r1 s' \<and> reachable_task w p r2 s' \<and> distinct (map t_id (tasks s')) \<and>
      t_id r1 = t_id t \<and> t_id r2 = t_id q \<and> t_parentTaskId r1 = Some (t_id r2) \<and> t_parentTaskId r2 = Some (t_id r1)"
proof -
  have ok: "app_ok s" and t: "reachable_task w p t s" and q: "reachable_task w p q s"
    and a1: "move_refusal s p (t_id t) (Some (t_id q)) = None"
    and a2: "move_refusal s p (t_id q) (Some (t_id t)) = None"
    using assms by (simp_all add: moved_apart_def)
  from a1 have ne: "t_id q \<noteq> t_id t" by (auto simp: move_refusal_def)
  obtain r1 where w1: "moveTask_write (t_id q) now t s = (Inr r1, s\<lparr>tasks := update_row t_id r1 (tasks s)\<rparr>)"
    and r1: "t_id r1 = t_id t" "t_projectId r1 = p" "t_parentTaskId r1 = Some (t_id q)"
    and ok1: "app_ok (s\<lparr>tasks := update_row t_id r1 (tasks s)\<rparr>)"
    using first_move [OF ok t a1] by blast
  let ?s1 = "s\<lparr>tasks := update_row t_id r1 (tasks s)\<rparr>"
  have in1: "r1 \<in> set (tasks ?s1)" "q \<in> set (tasks ?s1)" "t_projectId q = p" "t_id r1 \<noteq> t_id q"
    using t q r1(1) ne by (auto simp: reachable_task_def set_update_row)
  obtain r2 where w2: "moveTask_write (t_id r1) now' q ?s1 = (Inr r2, ?s1\<lparr>tasks := update_row t_id r2 (tasks ?s1)\<rparr>)"
    and r2: "t_id r2 = t_id q" "t_projectId r2 = p" "t_parentTaskId r2 = Some (t_id r1)"
    using second_move [OF ok1 in1(2,3,1,4)] by blast
  let ?s2 = "?s1\<lparr>tasks := update_row t_id r2 (tasks ?s1)\<rparr>"
  have "overlapped (moveTask_checks w p (t_id t) (t_id q)) (moveTask_write (t_id q) now)
        (moveTask_checks w p (t_id q) (t_id t)) (moveTask_write (t_id t) now') s = ((Inr r1, Inr r2), ?s2)"
    using w2 by (simp add: overlapped_def moveTask_checks_pass [OF ok t a1] moveTask_checks_pass [OF ok q a2] w1 r1(1))
  moreover have "r1 \<in> set (tasks ?s2)" "r2 \<in> set (tasks ?s2)"
    using in1 r2(1) by (auto simp: set_update_row)
  then have "reachable_task w p r1 ?s2" "reachable_task w p r2 ?s2"
    using t r1(2) r2(2) by (simp_all add: reachable_task_def)
  moreover have "distinct (map t_id (tasks ?s2))" using app_ok_tasks(2) [OF ok] by simp
  ultimately show ?thesis using r1 r2 by fastforce
qed

text \<open>
  C29.  Two moves that are each allowed, a task under another and that one under the first, and overlap: both pass
  their checks before either writes, and both succeed.  The tasks are then each other's parent, the invariant of the
  tree is gone, the query of their subtree ends after no number of steps, and \<open>getSubtree\<close> fails for good.
\<close>

theorem concurrent_moves_cycle:
  assumes "moved_apart w p t q s"
  shows "\<exists>r1 r2 s'. overlapped (moveTask_checks w p (t_id t) (t_id q)) (moveTask_write (t_id q) now)
        (moveTask_checks w p (t_id q) (t_id t)) (moveTask_write (t_id t) now') s = ((Inr r1, Inr r2), s') \<and>
      r1 \<in> set (tasks s') \<and> r2 \<in> set (tasks s') \<and>
      t_parentTaskId r1 = Some (t_id r2) \<and> t_parentTaskId r2 = Some (t_id r1) \<and> \<not> app_ok s' \<and>
      (\<forall>n. cte (join_down t_id t_parentTaskId (tasks s')) n 0 [r1] = None) \<and>
      TasksService_getSubtree w p (t_id t) s' = (Inl (QueryFailed StatementTimeout), s')"
proof -
  obtain r1 r2 s' where run: "overlapped (moveTask_checks w p (t_id t) (t_id q)) (moveTask_write (t_id q) now)
        (moveTask_checks w p (t_id q) (t_id t)) (moveTask_write (t_id t) now') s = ((Inr r1, Inr r2), s')"
    and r: "reachable_task w p r1 s'" "reachable_task w p r2 s'" and d: "distinct (map t_id (tasks s'))"
    and par: "t_id r1 = t_id t" "t_parentTaskId r1 = Some (t_id r2)" "t_parentTaskId r2 = Some (t_id r1)"
    using overlapped_moves [OF assms] by blast
  have ins: "r1 \<in> set (tasks s')" "r2 \<in> set (tasks s')" using r by (simp_all add: reachable_task_def)
  note loop = mutual_parents_diverge [OF d ins par(2,3)]
  note stuck = getSubtree_diverges [OF d r(1) loop, unfolded par(1)]
  have "\<not> app_ok s'"
  proof
    assume ok: "app_ok s'"
    have "cte_descendants (t_id r1) s' = None"
      by (simp add: cte_descendants_def filter_by_id [OF d ins(1)] loop)
    with cte_descendants_spec [OF ok ins(1)] show False by auto
  qed
  with run ins par loop stuck show ?thesis by blast
qed

lemma ex_moved_apart: "moved_apart ''w1'' ''p1'' (ex_task ''t1'' None None) (ex_task ''t3'' None (Some ''u2'')) ex_app"
proof -
  have "TasksService_moveTask ''w1'' ''p1'' ''t1'' (Some ''t3'') 5 ex_app \<noteq> (Inl (BadRequest m), s')"
    and "TasksService_moveTask ''w1'' ''p1'' ''t3'' (Some ''t1'') 5 ex_app \<noteq> (Inl (BadRequest m), s')" for m s'
    by code_simp+
  then show ?thesis
    using ex_reachable moveTask_cases [OF ex_app_ok ex_reachable(1) refl, of "Some ''t1''" 5]
      moveTask_cases [OF ex_app_ok ex_reachable(2) refl, of "Some ''t3''" 5]
    by (auto simp: moved_apart_def ex_app_ok ex_task_def split: option.splits)
qed

theorem concurrent_moves_cycle_witness:
  "\<exists>r1 r2 s'. overlapped (moveTask_checks ''w1'' ''p1'' ''t1'' ''t3'') (moveTask_write ''t3'' 5)
        (moveTask_checks ''w1'' ''p1'' ''t3'' ''t1'') (moveTask_write ''t1'' 6) ex_app = ((Inr r1, Inr r2), s') \<and>
      TasksService_getSubtree ''w1'' ''p1'' ''t1'' s' = (Inl (QueryFailed StatementTimeout), s')"
proof -
  have "t_id (ex_task ''t1'' None None) = ''t1''" "t_id (ex_task ''t3'' None (Some ''u2'')) = ''t3''"
    by (simp_all add: ex_task_def)
  with concurrent_moves_cycle [OF ex_moved_apart, of 5 6] show ?thesis by auto
qed

section \<open>Rotating a refresh token\<close>

definition rotate_checks :: "auth_env \<Rightarrow> string \<Rightarrow> js_date \<Rightarrow> (app, refresh_token) svc" where
  "rotate_checks env rawToken date =
     bindM (reads (\<lambda>s.
         case List.find (\<lambda>t. rt_tokenHash t = RefreshTokenService_hashToken env rawToken) (tokens s) of
           None \<Rightarrow> Inl (Unauthorized ''Invalid refresh token'') | Some t \<Rightarrow> Inr t)) (\<lambda>current.
     if rt_revokedAt current \<noteq> None
     then bindM (RefreshTokenService_revokeFamily (rt_familyId current) date) (\<lambda>_.
          throw (Unauthorized ''Refresh token reuse detected''))
     else
     bindM (guardM (\<not> rt_expiresAt current < date) (Unauthorized ''Refresh token expired'')) (\<lambda>_.
     ret current))"

definition rotate_write ::
    "auth_env \<Rightarrow> int \<Rightarrow> session_context \<Rightarrow> string \<Rightarrow> uuid \<Rightarrow> js_date \<Rightarrow> pg_time \<Rightarrow> refresh_token \<Rightarrow>
     (app, uuid \<times> string) svc" where
  "rotate_write env ttlMs ctx nextRaw rid date now current =
     bindM (modifies (\<lambda>s. s\<lparr>tokens := update_row rt_id (set_revoked date current) (tokens s)\<rparr>)) (\<lambda>_.
     bindM (RefreshTokenService_createToken env ttlMs (rt_userId current) (rt_familyId current) ctx
              nextRaw rid date now) (\<lambda>raw.
     ret (rt_userId current, raw)))"

lemma bindM_if: "bindM (if b then m else n) f = (if b then bindM m f else bindM n f)"
  by simp

lemma rotate_split:
  "RefreshTokenService_rotate env ttl raw ctx n rid d now =
     bindM (rotate_checks env raw d) (rotate_write env ttl ctx n rid d now)"
  by (simp add: RefreshTokenService_rotate_def rotate_checks_def rotate_write_def bindM_assoc bindM_if bindM_throw
      cong: if_cong)

lemma rotate_checks_pass:
  assumes "app_ok s" and "t \<in> set (tokens s)" and "rt_tokenHash t = sha256_hex env raw"
    and "live t" and "\<not> rt_expiresAt t < d"
  shows "rotate_checks env raw d s = (Inr t, s)"
  using find_token [OF assms(1,2)] assms(3-5)
  by (simp add: rotate_checks_def RefreshTokenService_hashToken_def bindM_def reads_def guardM_def ret_def live_def)

text \<open>A token that can be stored, with an id and a hash of its own.\<close>

definition storable :: "auth_env \<Rightarrow> session_context \<Rightarrow> refresh_token list \<Rightarrow> string \<Rightarrow> uuid \<Rightarrow> bool" where
  "storable env ctx ts raw rid \<longleftrightarrow>
     length (sha256_hex env raw) \<le> 64 \<and> (case ctx_userAgent ctx of None \<Rightarrow> True | Some a \<Rightarrow> length a \<le> 512) \<and>
     \<not> has_id rt_id ts rid \<and> \<not> exists_row (\<lambda>t. rt_tokenHash t = sha256_hex env raw) ts"

definition issued :: "auth_env \<Rightarrow> int \<Rightarrow> refresh_token \<Rightarrow> session_context \<Rightarrow> string \<Rightarrow> uuid \<Rightarrow> js_date \<Rightarrow> pg_time \<Rightarrow> refresh_token" where
  "issued env ttl t ctx raw rid d now =
     \<lparr>rt_id = rid, rt_userId = rt_userId t, rt_tokenHash = sha256_hex env raw, rt_familyId = rt_familyId t,
      rt_expiresAt = d + ttl, rt_revokedAt = None, rt_userAgent = ctx_userAgent ctx, rt_ip = ctx_ip ctx,
      rt_createdAt = now\<rparr>"

lemma storable_keys:
  "storable env ctx ts raw rid \<longleftrightarrow>
     length (sha256_hex env raw) \<le> 64 \<and> (case ctx_userAgent ctx of None \<Rightarrow> True | Some a \<Rightarrow> length a \<le> 512) \<and>
     rid \<notin> set (map rt_id ts) \<and> sha256_hex env raw \<notin> set (map rt_tokenHash ts)"
  by (auto simp: storable_def has_id_def exists_row_def image_iff)

text \<open>Rows of one id have one hash, as when the row was rewritten in between.\<close>

definition same_hash :: "refresh_token \<Rightarrow> refresh_token list \<Rightarrow> bool" where
  "same_hash t ts \<longleftrightarrow> (\<forall>x \<in> set ts. rt_id x = rt_id t \<longrightarrow> rt_tokenHash x = rt_tokenHash t)"

lemma update_hashes:
  "same_hash t ts \<Longrightarrow> map rt_tokenHash (update_row rt_id (set_revoked d t) ts) = map rt_tokenHash ts"
  by (rule map_update_row) (simp add: same_hash_def)

lemma update_ids: "map rt_id (update_row rt_id (set_revoked d t) ts) = map rt_id ts"
  by (rule map_update_row) simp

lemma storable_update:
  "same_hash t ts \<Longrightarrow> storable env ctx (update_row rt_id (set_revoked d t) ts) raw rid = storable env ctx ts raw rid"
  unfolding storable_keys update_ids by (simp only: update_hashes)

lemma storable_snoc:
  "storable env ctx (ts @ [a]) raw rid \<longleftrightarrow>
     storable env ctx ts raw rid \<and> rt_id a \<noteq> rid \<and> rt_tokenHash a \<noteq> sha256_hex env raw"
  unfolding storable_keys by auto

lemma stored:
  assumes "storable env ctx (tokens s) raw rid" and "has_id u_id (users s) (rt_userId t)"
  shows "RefreshTokenService_createToken env ttl (rt_userId t) (rt_familyId t) ctx raw rid d now s =
    (Inr raw, s\<lparr>tokens := tokens s @ [issued env ttl t ctx raw rid d now]\<rparr>)"
proof -
  have "insert_token (issued env ttl t ctx raw rid d now) s =
      Inr (s\<lparr>tokens := tokens s @ [issued env ttl t ctx raw rid d now]\<rparr>)"
    using assms by (simp add: insert_token_def storable_def issued_def)
  then show ?thesis
    by (simp add: RefreshTokenService_createToken_def RefreshTokenService_hashToken_def Let_def bindM_def writes_def
        ret_def issued_def)
qed

lemma bindM_run: "m s = (Inr a, t) \<Longrightarrow> bindM m f s = f a t"
  by (simp add: bindM_def)

lemma rotate_write_runs:
  assumes "storable env ctx (tokens s) raw rid" and "has_id u_id (users s) (rt_userId t)" and "same_hash t (tokens s)"
  shows "rotate_write env ttl ctx raw rid d now t s =
    (Inr (rt_userId t, raw),
     s\<lparr>tokens := update_row rt_id (set_revoked d t) (tokens s) @ [issued env ttl t ctx raw rid d now]\<rparr>)"
proof -
  let ?s = "s\<lparr>tokens := update_row rt_id (set_revoked d t) (tokens s)\<rparr>"
  have st: "storable env ctx (tokens ?s) raw rid" using assms(1) storable_update [OF assms(3)] by simp
  have u: "has_id u_id (users ?s) (rt_userId t)" using assms(2) by simp
  show ?thesis
    unfolding rotate_write_def by (simp add: modifies_def bindM_run stored [OF st u, of ttl d now])
qed

lemma find_only:
  assumes "x \<in> set ts" and "P x" and "\<And>y. y \<in> set ts \<Longrightarrow> P y \<Longrightarrow> y = x"
  shows "List.find P ts = Some x"
proof (cases "List.find P ts")
  case None
  with assms(1,2) show ?thesis by (metis find_None_iff)
next
  case (Some y)
  with assms(3) find_SomeD [OF Some] show ?thesis by blast
qed

definition raced :: "auth_env \<Rightarrow> string \<Rightarrow> js_date \<Rightarrow> js_date \<Rightarrow> refresh_token \<Rightarrow> app \<Rightarrow> bool" where
  "raced env raw d1 d2 t s \<longleftrightarrow> app_ok s \<and> t \<in> set (tokens s) \<and> rt_tokenHash t = sha256_hex env raw \<and>
     live t \<and> \<not> rt_expiresAt t < d1 \<and> \<not> rt_expiresAt t < d2"

lemma overlapped_rotations:
  assumes race: "raced env raw d1 d2 t s"
    and st: "storable env ctx1 (tokens s) n1 rid1" "storable env ctx2 (tokens s) n2 rid2"
    and ne: "rid1 \<noteq> rid2" "sha256_hex env n1 \<noteq> sha256_hex env n2"
  shows "overlapped (rotate_checks env raw d1) (rotate_write env ttl ctx1 n1 rid1 d1 now1)
      (rotate_checks env raw d2) (rotate_write env ttl ctx2 n2 rid2 d2 now2) s =
    ((Inr (rt_userId t, n1), Inr (rt_userId t, n2)),
     s\<lparr>tokens := update_row rt_id (set_revoked d2 t)
         (update_row rt_id (set_revoked d1 t) (tokens s) @ [issued env ttl t ctx1 n1 rid1 d1 now1]) @
       [issued env ttl t ctx2 n2 rid2 d2 now2]\<rparr>)"
proof -
  have ok: "app_ok s" and t: "t \<in> set (tokens s)" "rt_tokenHash t = sha256_hex env raw"
    using race by (simp_all add: raced_def)
  have u: "has_id u_id (users s) (rt_userId t)" using ok t(1) unfolding app_ok_def tokens_ok_def by blast
  have sh: "same_hash t (tokens s)"
    using distinct_key_eq [OF app_ok_tokens(1) [OF ok] _ t(1)] by (auto simp: same_hash_def)
  let ?s1 = "s\<lparr>tokens := update_row rt_id (set_revoked d1 t) (tokens s) @ [issued env ttl t ctx1 n1 rid1 d1 now1]\<rparr>"
  have "storable env ctx2 (tokens ?s1) n2 rid2"
    using st(2) ne by (simp add: storable_snoc storable_update [OF sh] issued_def)
  moreover have "same_hash t (tokens ?s1)"
    using sh st(1) t by (auto simp: same_hash_def issued_def storable_def has_id_def dest!: in_update_rowD)
  ultimately have w2: "rotate_write env ttl ctx2 n2 rid2 d2 now2 t ?s1 =
      (Inr (rt_userId t, n2), ?s1\<lparr>tokens := update_row rt_id (set_revoked d2 t) (tokens ?s1) @
        [issued env ttl t ctx2 n2 rid2 d2 now2]\<rparr>)"
    using u by (intro rotate_write_runs) simp_all
  have c: "rotate_checks env raw d1 s = (Inr t, s)" "rotate_checks env raw d2 s = (Inr t, s)"
    using race by (simp_all add: raced_def rotate_checks_pass)
  show ?thesis using w2 by (simp add: overlapped_def c rotate_write_runs [OF st(1) u sh])
qed

text \<open>
  C30.  A refresh token presented twice at once forks the session: of two rotations that overlap, none is taken for a
  replay, both hand out a token, and both tokens work from then on, so the family has two live tokens and the
  reuse detection, which ends the session of a token presented twice in a row, has missed one.
\<close>

theorem concurrent_rotation_forks:
  assumes "raced env raw d1 d2 t s"
    and "storable env ctx1 (tokens s) n1 rid1" and "storable env ctx2 (tokens s) n2 rid2"
    and "rid1 \<noteq> rid2" and "sha256_hex env n1 \<noteq> sha256_hex env n2"
  shows "\<exists>a b s'. overlapped (rotate_checks env raw d1) (rotate_write env ttl ctx1 n1 rid1 d1 now1)
        (rotate_checks env raw d2) (rotate_write env ttl ctx2 n2 rid2 d2 now2) s =
      ((Inr (rt_userId t, n1), Inr (rt_userId t, n2)), s') \<and>
    a \<noteq> b \<and> rt_familyId a = rt_familyId t \<and> rt_familyId b = rt_familyId t \<and> \<not> app_ok s' \<and>
    rotate_checks env n1 (d1 + ttl) s' = (Inr a, s') \<and> rotate_checks env n2 (d2 + ttl) s' = (Inr b, s')"
proof -
  let ?a = "issued env ttl t ctx1 n1 rid1 d1 now1"
  let ?b = "issued env ttl t ctx2 n2 rid2 d2 now2"
  let ?ts = "update_row rt_id (set_revoked d2 t) (update_row rt_id (set_revoked d1 t) (tokens s) @ [?a]) @ [?b]"
  have ok: "app_ok s" and t: "t \<in> set (tokens s)" using assms(1) by (simp_all add: raced_def)
  have h: "rt_tokenHash ?a = sha256_hex env n1" "rt_tokenHash ?b = sha256_hex env n2" "?a \<noteq> ?b"
    using assms(4) by (simp_all add: issued_def)
  have "rt_id ?a \<noteq> rt_id t" using assms(2) t by (auto simp: storable_def has_id_def issued_def)
  then have ins: "?a \<in> set ?ts" "?b \<in> set ?ts" by (simp_all add: set_update_row)
  have old: "rt_tokenHash x \<noteq> sha256_hex env n1 \<and> rt_tokenHash x \<noteq> sha256_hex env n2"
    if "x \<in> set ?ts" "x \<noteq> ?a" "x \<noteq> ?b" for x
    using that assms(2,3) t by (auto simp: storable_def exists_row_def dest!: in_update_rowD)
  have "List.find (\<lambda>x. rt_tokenHash x = sha256_hex env n1) ?ts = Some ?a"
    by (rule find_only [OF ins(1)]) (use old h assms(5) in metis)+
  moreover have "List.find (\<lambda>x. rt_tokenHash x = sha256_hex env n2) ?ts = Some ?b"
    by (rule find_only [OF ins(2)]) (use old h assms(5) in metis)+
  moreover have "\<not> app_ok (s\<lparr>tokens := ?ts\<rparr>)"
  proof
    assume "app_ok (s\<lparr>tokens := ?ts\<rparr>)"
    moreover have "?a \<in> set (tokens (s\<lparr>tokens := ?ts\<rparr>))" "?b \<in> set (tokens (s\<lparr>tokens := ?ts\<rparr>))"
      using ins by simp_all
    moreover have "rt_familyId ?a = rt_familyId ?b" "live ?a" "live ?b" by (simp_all add: issued_def live_def)
    ultimately show False using app_ok_tokens(3) h(3) by blast
  qed
  ultimately show ?thesis
    unfolding overlapped_rotations [OF assms]
    by (intro exI [of _ ?a] exI [of _ ?b] exI [of _ "s\<lparr>tokens := ?ts\<rparr>"])
      (simp add: h(3) rotate_checks_def RefreshTokenService_hashToken_def bindM_def reads_def guardM_def ret_def,
       simp add: issued_def)
qed

theorem concurrent_rotation_forks_witness:
  "\<exists>a b s'. overlapped (rotate_checks ex_env ''secret'' 0) (rotate_write ex_env 500 ex_ctx ''n1'' ''k2'' 0 0)
      (rotate_checks ex_env ''secret'' 1) (rotate_write ex_env 500 ex_ctx ''n2'' ''k3'' 1 1) ex_app =
      ((Inr (''u1'', ''n1''), Inr (''u1'', ''n2'')), s') \<and>
    rotate_checks ex_env ''n1'' 500 s' = (Inr a, s') \<and> rotate_checks ex_env ''n2'' 501 s' = (Inr b, s')"
proof -
  have "raced ex_env ''secret'' 0 1 ex_token ex_app" "rt_userId ex_token = ''u1''"
    by (simp_all add: raced_def ex_app_ok ex_token_def ex_env_def live_def)
  moreover have "storable ex_env ex_ctx (tokens ex_app) ''n1'' ''k2''" "storable ex_env ex_ctx (tokens ex_app) ''n2'' ''k3''"
    "sha256_hex ex_env ''n1'' \<noteq> sha256_hex ex_env ''n2''"
    by (simp_all add: storable_def ex_env_def ex_ctx_def has_id_def exists_row_def ex_token_def)
  ultimately show ?thesis
    using concurrent_rotation_forks [of ex_env "''secret''" 0 1 ex_token ex_app ex_ctx "''n1''" "''k2''" ex_ctx "''n2''" "''k3''" 500 0 1]
    by auto
qed

section \<open>A cache per instance\<close>

text \<open>
  Each instance of the API has a membership cache of its own, in memory, and only the instance that serves a
  role change or a removal drops the entry.  Another instance that has looked a member up at time \<open>d\<close> goes on
  answering with that membership until \<open>MEMBERSHIP_TTL_MS\<close> after, whatever has become of it in the database, and
  not a millisecond longer.
\<close>

theorem membership_staleness:
  assumes "cache_get memory_cache c d (membershipKey w u) = None"
    and "find_member w u s = Some m"
    and "WorkspacesService_getMembership memory_cache d w u (c, s) = (r, (c', s))"
  shows "fst (WorkspacesService_getMembership memory_cache d' w u (c', s')) =
    Inr (if d' \<le> d + MEMBERSHIP_TTL_MS then Some m else find_member w u s')"
proof -
  have "c' = (membershipKey w u, m, d + MEMBERSHIP_TTL_MS) # c"
    using assms by (simp add: WorkspacesService_getMembership_def memory_cache_def Let_def)
  then show ?thesis
    by (auto simp: WorkspacesService_getMembership_def memory_cache_def Let_def split: option.split)
qed

theorem membership_staleness_witness:
  "\<exists>c' m. snd (WorkspacesService_getMembership memory_cache 0 ''w1'' ''u2'' ([], ex_app)) = (c', ex_app) \<and>
    fst (WorkspacesService_getMembership memory_cache 30000 ''w1'' ''u2'' (c', empty_app)) = Inr (Some m) \<and>
    fst (WorkspacesService_getMembership memory_cache 30001 ''w1'' ''u2'' (c', empty_app)) = Inr None"
proof -
  obtain m where m: "find_member ''w1'' ''u2'' ex_app = Some m" by (simp add: find_member_def ex_app_def)
  obtain r c' where run: "WorkspacesService_getMembership memory_cache 0 ''w1'' ''u2'' ([], ex_app) = (r, (c', ex_app))"
    by (simp add: WorkspacesService_getMembership_def memory_cache_def Let_def m)
  have miss: "cache_get memory_cache [] 0 (membershipKey ''w1'' ''u2'') = None" by (simp add: memory_cache_def)
  note stale = membership_staleness [OF miss m run, where s' = empty_app]
  have "find_member ''w1'' ''u2'' empty_app = None" by (simp add: find_member_def empty_app_def)
  with stale [of 30000] stale [of 30001] run show ?thesis by (simp add: MEMBERSHIP_TTL_MS_def)
qed

end
