(* ===== verification/Revocations.thy ===== *)
theory Revocations
  imports Races Invitations
begin

text \<open>
  A revocation and a request it overlaps with.  \<open>updateMemberRole\<close>, \<open>removeMember\<close>, \<open>accept\<close> and \<open>revoke\<close> read the
  row they are about first and write it later; each is split at that point as in \<open>Races\<close>.  \<open>save\<close> of TypeORM, as
  documented, updates the row of the entity's id and inserts the entity when there is no such row; the entity's
  \<open>Date\<close> has lost the microseconds.
\<close>

section \<open>Members\<close>

definition save_member :: "member \<Rightarrow> (app, unit) svc" where
  "save_member m =
     bindM (reads (\<lambda>s. Inr (has_id m_id (members s) (m_id m)))) (\<lambda>there.
     if there then modifies (\<lambda>s. s\<lparr>members := update_row m_id m (members s)\<rparr>)
     else writes (insert_member (m\<lparr>m_joinedAt := to_js (m_joinedAt m) * 1000\<rparr>)))"

definition updateMemberRole_checks :: "uuid \<Rightarrow> uuid \<Rightarrow> ('c \<times> app, member) svc" where
  "updateMemberRole_checks workspaceId targetUserId =
     on_db (member_to_change workspaceId targetUserId ''The workspace owner role cannot be changed'')"

definition updateMemberRole_write ::
    "'c cache_ops \<Rightarrow> uuid \<Rightarrow> uuid \<Rightarrow> workspace_role \<Rightarrow> member \<Rightarrow> ('c \<times> app, member) svc" where
  "updateMemberRole_write ops workspaceId targetUserId role membership =
     (let saved = membership\<lparr>m_role := role\<rparr> in
      bindM (on_db (save_member saved)) (\<lambda>_.
      bindM (invalidateMembership ops workspaceId targetUserId) (\<lambda>_.
      ret saved)))"

definition removeMember_checks :: "uuid \<Rightarrow> uuid \<Rightarrow> ('c \<times> app, member) svc" where
  "removeMember_checks workspaceId targetUserId =
     on_db (member_to_change workspaceId targetUserId ''The workspace owner cannot be removed'')"

definition removeMember_write :: "'c cache_ops \<Rightarrow> uuid \<Rightarrow> uuid \<Rightarrow> member \<Rightarrow> ('c \<times> app, unit) svc" where
  "removeMember_write ops workspaceId targetUserId membership =
     bindM (on_db (modifies (delete_member (m_id membership)))) (\<lambda>_.
     invalidateMembership ops workspaceId targetUserId)"

lemma removeMember_split:
  "WorkspacesService_removeMember ops w u = bindM (removeMember_checks w u) (removeMember_write ops w u)"
  by (simp add: WorkspacesService_removeMember_def removeMember_checks_def removeMember_write_def [abs_def])

lemma updateMemberRole_split:
  "WorkspacesService_updateMemberRole ops w u role cs =
     bindM (updateMemberRole_checks w u) (updateMemberRole_write ops w u role) cs"
proof -
  obtain r cs' where Pair: "updateMemberRole_checks w u cs = (r, cs')" by (metis surj_pair)
  show ?thesis
  proof (cases r)
    case (Inl e)
    with Pair show ?thesis
      by (simp add: WorkspacesService_updateMemberRole_def updateMemberRole_checks_def bindM_def)
  next
    case (Inr m)
    obtain c s where cs: "cs = (c, s)" by (cases cs)
    from Pair Inr have "cs' = (c, s)" "find_member w u s = Some m"
      by (auto simp: updateMemberRole_checks_def cs on_db_iff dest: member_to_change_Inr)
    moreover from this have "has_id m_id (members s) (m_id m)" by (auto simp: has_id_def dest: find_member_row)
    ultimately show ?thesis
      using Pair Inr
      by (simp add: WorkspacesService_updateMemberRole_def updateMemberRole_checks_def updateMemberRole_write_def
          save_member_def bindM_def on_db_def reads_def modifies_def Let_def cs)
  qed
qed

lemma member_to_change_passes:
  assumes "app_ok s" and "find_member w u s = Some m" and "x \<in> set (workspaces s)" and "w_id x = w" and "w_ownerId x \<noteq> u"
  shows "member_to_change w u e s = (Inr m, s)"
proof -
  have "distinct (map w_id (workspaces s))" using assms(1) by (simp add: app_ok_def workspaces_ok_def)
  from find_key [OF this assms(3)] assms(4) have "List.find (\<lambda>w'. w_id w' = w) (workspaces s) = Some x" by simp
  with assms(2,5) show ?thesis
    by (simp add: member_to_change_def WorkspacesService_findByIdOrFail_def bindM_def reads_def guardM_def ret_def)
qed

lemma removed_can_be_inserted:
  assumes ok: "app_ok s" and m: "find_member w u s = Some m" and r: "m_id r = m_id m" "m_workspaceId r = w" "m_userId r = u"
  shows "insert_member r (delete_member (m_id m) s) =
    Inr (s\<lparr>members := filter (\<lambda>x. m_id x \<noteq> m_id m) (members s) @ [r]\<rparr>)"
proof -
  have row: "m \<in> set (members s)" "m_workspaceId m = w" "m_userId m = u" using find_member_row [OF m] by simp_all
  have ms: "members_ok (users s) (workspaces s) (members s)" using ok by (simp add: app_ok_def)
  have "m_id x = m_id m" if "x \<in> set (members s)" "m_workspaceId x = w" "m_userId x = u" for x
    using distinct_key_eq [OF app_ok_members(2) [OF ok] that(1) row(1)] that(2,3) row(2,3) by simp
  then have "\<not> exists_row (\<lambda>x. m_workspaceId x = w \<and> m_userId x = u) (filter (\<lambda>x. m_id x \<noteq> m_id m) (members s))"
    by (auto simp: exists_row_def)
  moreover have "has_id w_id (workspaces s) w" "has_id u_id (users s) u" using ms row by (auto simp: members_ok_def)
  ultimately show ?thesis
    by (auto simp: insert_member_def delete_member_def r has_id_def)
qed

section \<open>Invitations\<close>

definition accept_checks :: "string \<Rightarrow> string \<Rightarrow> js_date \<Rightarrow> (app, invitation) svc" where
  "accept_checks userEmail token date =
     bindM (reads (\<lambda>s.
         case List.find (\<lambda>i. i_token i = token) (invitations s) of
           None \<Rightarrow> Inl (NotFound ''Invitation not found or no longer pending'')
         | Some i \<Rightarrow> if i_status i = INV_PENDING then Inr i
             else Inl (NotFound ''Invitation not found or no longer pending''))) (\<lambda>invitation.
     if i_expiresAt invitation < date
     then bindM (save_invitation (invitation\<lparr>i_status := INV_EXPIRED\<rparr>)) (\<lambda>_.
          throw (Gone ''Invitation has expired''))
     else
     bindM (guardM (toLowerCase (i_email invitation) = toLowerCase userEmail)
              (Forbidden ''This invitation was issued to a different email address'')) (\<lambda>_.
     ret invitation))"

definition accept_write :: "uuid \<Rightarrow> uuid \<Rightarrow> pg_time \<Rightarrow> invitation \<Rightarrow> (app, member) svc" where
  "accept_write userId mid now invitation =
     transaction (
       bindM (reads (\<lambda>s. Inr (find_member (i_workspaceId invitation) userId s))) (\<lambda>found.
       bindM (case found of
                Some m \<Rightarrow> ret m
              | None \<Rightarrow>
                  (let m = \<lparr>m_id = mid, m_workspaceId = i_workspaceId invitation, m_userId = userId,
                            m_role = i_role invitation, m_joinedAt = now\<rparr>
                   in bindM (writes (insert_member m)) (\<lambda>_. ret m))) (\<lambda>membership.
       bindM (save_invitation (invitation\<lparr>i_status := INV_ACCEPTED\<rparr>)) (\<lambda>_.
       ret membership))))"

definition revoke_checks :: "uuid \<Rightarrow> uuid \<Rightarrow> (app, invitation) svc" where
  "revoke_checks workspaceId invitationId =
     bindM (reads (\<lambda>s.
         case List.find (\<lambda>i. i_id i = invitationId \<and> i_workspaceId i = workspaceId) (invitations s) of
           None \<Rightarrow> Inl (NotFound ''Invitation not found'') | Some i \<Rightarrow> Inr i)) (\<lambda>invitation.
     bindM (guardM (i_status invitation = INV_PENDING)
              (Conflict ''Only pending invitations can be revoked'')) (\<lambda>_.
     ret invitation))"

definition revoke_write :: "invitation \<Rightarrow> (app, unit) svc" where
  "revoke_write invitation = save_invitation (invitation\<lparr>i_status := INV_REVOKED\<rparr>)"

lemma accept_split:
  "InvitationsService_accept u email token mid d now = bindM (accept_checks email token d) (accept_write u mid now)"
  by (simp add: InvitationsService_accept_def accept_checks_def accept_write_def [abs_def] bindM_assoc bindM_if bindM_throw
      cong: if_cong)

lemma revoke_split: "InvitationsService_revoke w j = bindM (revoke_checks w j) revoke_write"
  by (simp add: InvitationsService_revoke_def revoke_checks_def revoke_write_def [abs_def] bindM_assoc)

lemma invitation_checks_pass:
  assumes "app_ok s" and "i \<in> set (invitations s)" and "i_status i = INV_PENDING"
  shows "revoke_checks (i_workspaceId i) (i_id i) s = (Inr i, s)"
    and "\<not> i_expiresAt i < d \<Longrightarrow> toLowerCase (i_email i) = toLowerCase email \<Longrightarrow> accept_checks email (i_token i) d s = (Inr i, s)"
proof -
  have "List.find (\<lambda>x. i_id x = i_id i \<and> i_workspaceId x = i_workspaceId i) (invitations s) = Some i"
    by (rule find_only [OF assms(2)]) (use distinct_key_eq [OF app_ok_invitations(1) [OF assms(1)] _ assms(2)] in auto)
  moreover have "List.find (\<lambda>x. i_token x = i_token i) (invitations s) = Some i"
    by (rule find_key [OF app_ok_invitations(2) [OF assms(1)] assms(2)])
  ultimately show "revoke_checks (i_workspaceId i) (i_id i) s = (Inr i, s)"
      "\<not> i_expiresAt i < d \<Longrightarrow> toLowerCase (i_email i) = toLowerCase email \<Longrightarrow> accept_checks email (i_token i) d s = (Inr i, s)"
    using assms(3) by (simp_all add: revoke_checks_def accept_checks_def bindM_def reads_def guardM_def ret_def)
qed

section \<open>Properties\<close>

text \<open>
  C31.  A removal can be undone by a change of role it overlaps with: both calls succeed, and the member who was
  removed is a member again, with the new role and a row of the old id, because the change of role saves the
  membership it had read before the removal; right after the removal there was none.
\<close>

theorem concurrent_role_change_undoes_removal:
  assumes "app_ok s" and "find_member w u s = Some m"
    and "x \<in> set (workspaces s)" and "w_id x = w" and "w_ownerId x \<noteq> u"
  shows "\<exists>c' s'. overlapped (removeMember_checks w u) (removeMember_write ops w u)
        (updateMemberRole_checks w u) (updateMemberRole_write ops w u role) (c, s) =
      ((Inr (), Inr (m\<lparr>m_role := role\<rparr>)), (c', s')) \<and>
    map_option (\<lambda>r. (m_id r, m_role r)) (find_member w u s') = Some (m_id m, role) \<and>
    find_member w u (delete_member (m_id m) s) = None"
proof -
  let ?r = "m\<lparr>m_role := role, m_joinedAt := to_js (m_joinedAt m) * 1000\<rparr>"
  let ?rest = "filter (\<lambda>x. m_id x \<noteq> m_id m) (members s)"
  have checks: "removeMember_checks w u (c, s) = (Inr m, (c, s))" "updateMemberRole_checks w u (c, s) = (Inr m, (c, s))"
    using member_to_change_passes [OF assms] by (simp_all add: removeMember_checks_def updateMemberRole_checks_def on_db_def)
  have row: "m \<in> set (members s)" "m_workspaceId m = w" "m_userId m = u" using find_member_row [OF assms(2)] by simp_all
  have only: "x = m" if "x \<in> set (members s)" "m_workspaceId x = w" "m_userId x = u" for x
    using distinct_key_eq [OF app_ok_members(2) [OF assms(1)] that(1) row(1)] that(2,3) row(2,3) by simp
  have ins: "insert_member ?r (delete_member (m_id m) s) = Inr (s\<lparr>members := ?rest @ [?r]\<rparr>)"
    using row by (intro removed_can_be_inserted [OF assms(1,2)]) simp_all
  have gone: "\<not> has_id m_id (members (delete_member (m_id m) s)) (m_id m)"
    by (auto simp: has_id_def delete_member_def)
  have save: "save_member (m\<lparr>m_role := role\<rparr>) (delete_member (m_id m) s) = (Inr (), s\<lparr>members := ?rest @ [?r]\<rparr>)"
    using ins gone by (simp add: save_member_def bindM_def reads_def writes_def)
  have "overlapped (removeMember_checks w u) (removeMember_write ops w u)
        (updateMemberRole_checks w u) (updateMemberRole_write ops w u role) (c, s) =
      ((Inr (), Inr (m\<lparr>m_role := role\<rparr>)),
       (cache_del ops (cache_del ops c (membershipKey w u)) (membershipKey w u), s\<lparr>members := ?rest @ [?r]\<rparr>))"
    by (simp add: overlapped_def checks removeMember_write_def updateMemberRole_write_def invalidateMembership_def bindM_def
        on_db_def modifies_def ret_def Let_def save)
  moreover have "y = ?r" if "y \<in> set (?rest @ [?r])" "m_workspaceId y = w \<and> m_userId y = u" for y
    using that only [of y] by auto
  then have "find_member w u (s\<lparr>members := ?rest @ [?r]\<rparr>) = Some ?r"
    unfolding find_member_def using row(2,3) by (intro find_only) simp_all
  moreover have "find_member w u (delete_member (m_id m) s) = None"
    using only by (auto simp: find_member_def delete_member_def find_None_iff2)
  ultimately show ?thesis by auto
qed

theorem concurrent_role_change_undoes_removal_witness:
  "\<exists>c' s'. overlapped (removeMember_checks ''w1'' ''u2'') (removeMember_write memory_cache ''w1'' ''u2'')
        (updateMemberRole_checks ''w1'' ''u2'') (updateMemberRole_write memory_cache ''w1'' ''u2'' ADMIN) ([], ex_app) =
      ((Inr (), Inr \<lparr>m_id = ''m2'', m_workspaceId = ''w1'', m_userId = ''u2'', m_role = ADMIN, m_joinedAt = 0\<rparr>), (c', s')) \<and>
    map_option (\<lambda>r. (m_id r, m_role r)) (find_member ''w1'' ''u2'' s') = Some (''m2'', ADMIN)"
proof -
  have "find_member ''w1'' ''u2'' ex_app =
      Some \<lparr>m_id = ''m2'', m_workspaceId = ''w1'', m_userId = ''u2'', m_role = MEMBER, m_joinedAt = 0\<rparr>"
    by (simp add: find_member_def ex_app_def)
  moreover have "hd (workspaces ex_app) \<in> set (workspaces ex_app)" "w_id (hd (workspaces ex_app)) = ''w1''"
      "w_ownerId (hd (workspaces ex_app)) \<noteq> ''u2''"
    by (simp_all add: ex_app_def)
  ultimately show ?thesis
    using concurrent_role_change_undoes_removal [OF ex_app_ok, of "''w1''" "''u2''" _ "hd (workspaces ex_app)" memory_cache ADMIN "[]"] by auto
qed

text \<open>
  C32.  The revocation of an invitation can be lost: an \<open>accept\<close> that has found the invitation pending goes through
  after the revocation has succeeded, the invited person is a member with the role of the invitation, and the
  invitation ends up accepted.
\<close>

theorem concurrent_accept_undoes_revocation:
  assumes "app_ok s" and "i \<in> set (invitations s)" and "i_status i = INV_PENDING" and "\<not> i_expiresAt i < d"
    and "toLowerCase (i_email i) = toLowerCase email" and "has_id u_id (users s) u"
    and "find_member (i_workspaceId i) u s = None" and "\<not> has_id m_id (members s) mid"
  shows "\<exists>m s'. overlapped (revoke_checks (i_workspaceId i) (i_id i)) revoke_write
        (accept_checks email (i_token i) d) (accept_write u mid now) s = ((Inr (), Inr m), s') \<and>
      find_member (i_workspaceId i) u s' = Some m \<and> m_role m = i_role i \<and>
      i\<lparr>i_status := INV_ACCEPTED\<rparr> \<in> set (invitations s')"
proof -
  let ?m = "\<lparr>m_id = mid, m_workspaceId = i_workspaceId i, m_userId = u, m_role = i_role i, m_joinedAt = now\<rparr>"
  let ?is = "update_row i_id (i\<lparr>i_status := INV_REVOKED\<rparr>) (invitations s)"
  let ?s1 = "s\<lparr>invitations := ?is\<rparr>"
  let ?s2 = "s\<lparr>members := members s @ [?m], invitations := update_row i_id (i\<lparr>i_status := INV_ACCEPTED\<rparr>) ?is\<rparr>"
  note checks = invitation_checks_pass [OF assms(1-3)]
  have w: "has_id w_id (workspaces s) (i_workspaceId i)"
    using assms(1,2) by (auto simp: app_ok_def invitations_ok_def)
  have none: "\<not> exists_row (\<lambda>m. m_workspaceId m = i_workspaceId i \<and> m_userId m = u) (members s)"
    using assms(7) by (simp add: exists_row_find find_member_def)
  have "insert_member ?m ?s1 = Inr (?s1\<lparr>members := members s @ [?m]\<rparr>)"
    using assms(6,8) w none by (simp add: insert_member_def)
  then have written: "accept_write u mid now i ?s1 = (Inr ?m, ?s2)"
    using assms(7)
    by (simp add: accept_write_def transaction_def bindM_def reads_def writes_def ret_def Let_def save_invitation_def
        modifies_def find_member_invitations)
  have "overlapped (revoke_checks (i_workspaceId i) (i_id i)) revoke_write
      (accept_checks email (i_token i) d) (accept_write u mid now) s = ((Inr (), Inr ?m), ?s2)"
    using written by (simp add: overlapped_def checks(1) checks(2) [OF assms(4,5)] revoke_write_def save_invitation_def modifies_def)
  moreover have "find_member (i_workspaceId i) u ?s2 = Some ?m"
    unfolding find_member_def
    by (rule find_only) (use none in \<open>auto simp: exists_row_def\<close>)
  moreover have "i\<lparr>i_status := INV_ACCEPTED\<rparr> \<in> set (invitations ?s2)"
    using assms(2) by (auto simp: set_update_row)
  ultimately show ?thesis by (intro exI [of _ ?m] exI [of _ ?s2]) simp
qed

theorem concurrent_accept_undoes_revocation_witness:
  "\<exists>m s'. overlapped (revoke_checks ''w1'' ''i1'') revoke_write
      (accept_checks ''c@x'' ''tok'' 5) (accept_write ''u3'' ''m3'' 5) ex_app = ((Inr (), Inr m), s') \<and>
    find_member ''w1'' ''u3'' s' = Some m"
proof -
  have "ex_invitation \<in> set (invitations ex_app)" "i_status ex_invitation = INV_PENDING" "\<not> i_expiresAt ex_invitation < 5"
    "toLowerCase (i_email ex_invitation) = toLowerCase ''c@x''" "has_id u_id (users ex_app) ''u3''"
    "find_member (i_workspaceId ex_invitation) ''u3'' ex_app = None" "\<not> has_id m_id (members ex_app) ''m3''"
    "i_workspaceId ex_invitation = ''w1''" "i_id ex_invitation = ''i1''" "i_token ex_invitation = ''tok''"
    by (simp_all add: ex_invitation_def has_id_def find_member_def ex_user_def ex_app_def)
  with concurrent_accept_undoes_revocation [OF ex_app_ok, of ex_invitation 5 "''c@x''" "''u3''" "''m3''" 5] show ?thesis by auto
qed

end
