(* ===== verification/Edits.thy ===== *)
theory Edits
  imports Races
begin

text \<open>
  Edits of a task that overlap with another edit or with its removal (\<open>update\<close> and \<open>remove\<close> of
  \<open>src/modules/tasks/tasks.service.ts\<close>).  Both load the task first and write later, and \<open>save\<close> of TypeORM, as
  documented, compares the entity with the row the table has by then: it writes the columns that differ, and inserts
  the entity when there is no row of its id.
\<close>

section \<open>Loading and saving\<close>

text \<open>
  What \<open>save\<close> leaves in \<open>updated_at\<close> is the argument; an entity that is inserted again has lost the microseconds of
  \<open>created_at\<close>.
\<close>

definition save_loaded :: "pg_time \<Rightarrow> task \<Rightarrow> (app, task) svc" where
  "save_loaded now task =
     bindM (reads (\<lambda>s. Inr (List.find (\<lambda>r. t_id r = t_id task) (tasks s)))) (\<lambda>row.
     case row of
       None \<Rightarrow> (let r = task\<lparr>t_createdAt := to_js (t_createdAt task) * 1000, t_updatedAt := now\<rparr> in
                bindM (writes (insert_task r)) (\<lambda>_. ret r))
     | Some old \<Rightarrow>
         if task\<lparr>t_updatedAt := t_updatedAt old\<rparr> = old then ret task
         else (let r = task\<lparr>t_updatedAt := now\<rparr> in bindM (writes (update_task r)) (\<lambda>_. ret r)))"

definition update_write :: "uuid \<Rightarrow> update_task_dto \<Rightarrow> pg_time \<Rightarrow> task \<Rightarrow> (app, task) svc" where
  "update_write actorId dto now task =
     bindM (writes (enforce [null_check (ut_title dto) ''title'', null_check (ut_status dto) ''status'',
                             null_check (ut_priority dto) ''priority''])) (\<lambda>_.
     bindM (save_loaded now (apply_update dto (to_js now) task)) (\<lambda>saved.
     bindM (modifies (fold emit (update_events dto actorId task saved))) (\<lambda>_.
     ret saved)))"

definition remove_write :: "task \<Rightarrow> (app, unit) svc" where
  "remove_write task = modifies (delete_tasks (\<lambda>i. i = t_id task))"

lemma remove_split:
  "TasksService_remove w p i = bindM (TasksService_findOneOrFail w p i) remove_write"
  by (simp add: TasksService_remove_def remove_write_def [abs_def])

lemma apply_update_keeps [simp]:
  "t_id (apply_update dto d t) = t_id t" "t_projectId (apply_update dto d t) = t_projectId t"
  "t_createdBy (apply_update dto d t) = t_createdBy t" "t_parentTaskId (apply_update dto d t) = t_parentTaskId t"
  "t_updatedAt (apply_update dto d t) = t_updatedAt t" "t_createdAt (apply_update dto d t) = t_createdAt t"
  by (simp_all add: apply_update_def)

lemma same_updatedAt: "t_updatedAt x = u \<Longrightarrow> x\<lparr>t_updatedAt := u\<rparr> = x"
  by (cases x) simp

lemma update_split:
  assumes "app_ok s"
  shows "TasksService_update w p i u dto now s = bindM (TasksService_findOneOrFail w p i) (update_write u dto now) s"
proof (cases "TasksService_findOneOrFail w p i s")
  case (Pair r s1)
  show ?thesis
  proof (cases r)
    case (Inl e)
    with Pair show ?thesis by (simp add: TasksService_update_def bindM_def)
  next
    case (Inr t)
    with Pair have row: "s1 = s" "t \<in> set (tasks s)" using TasksService_findOneOrFail_row [of w p i s t s1] by simp_all
    from find_key [OF app_ok_tasks(2) [OF assms] row(2)]
    have "save_loaded now (apply_update dto (to_js now) t) s = save_task now t (apply_update dto (to_js now) t) s"
      by (simp add: save_loaded_def save_task_def bindM_def reads_def same_updatedAt ret_def)
    then have "bindM (save_loaded now (apply_update dto (to_js now) t)) f s =
        bindM (save_task now t (apply_update dto (to_js now) t)) f s" for f :: "task \<Rightarrow> (app, task) svc"
      by (simp add: bindM_def)
    with Pair Inr row(1) show ?thesis
      by (auto simp: TasksService_update_def update_write_def bindM_def writes_def split: sum.split)
  qed
qed

section \<open>An edit on a changed table\<close>

lemma parent_not_under:
  assumes ok: "app_ok s" and t: "t \<in> set (tasks s)" and q: "t_parentTaskId t = Some q"
  shows "\<not> under (task_up s) (t_id t) q"
proof
  assume "under (task_up s) (t_id t) q"
  moreover have "task_up s (t_id t) = Some q" using parent_of_row [OF app_ok_tasks(2) [OF ok] t, of t_parentTaskId] q by simp
  then have "climb (task_up s) 1 (t_id t) = Some q" by simp
  then have "under (task_up s) q (t_id t)" unfolding under_def by blast
  moreover have free: "loopfree (task_up s)" using app_ok_tasks(1) [OF ok] by (simp add: forest_def)
  ultimately have "q = t_id t" using loopfree_antisym by blast
  with no_self_parent [OF ok t] q show False by simp
qed

text \<open>An edit that the columns and the references of the database admit.\<close>

definition update_fits :: "update_task_dto \<Rightarrow> task \<Rightarrow> app \<Rightarrow> bool" where
  "update_fits dto t s \<longleftrightarrow> ut_title dto \<noteq> Null \<and> ut_status dto \<noteq> Null \<and> ut_priority dto \<noteq> Null \<and>
     length (assign (ut_title dto) (t_title t)) \<le> 200 \<and>
     has_id_opt u_id (users s) (assign_opt (ut_assigneeId dto) (t_assigneeId t))"

definition equal_but_time :: "task \<Rightarrow> task \<Rightarrow> bool" where
  "equal_but_time x y \<longleftrightarrow> x\<lparr>t_updatedAt := 0\<rparr> = y\<lparr>t_updatedAt := 0\<rparr>"

lemma equal_but_time_refl [simp]: "equal_but_time x x" "equal_but_time (x\<lparr>t_updatedAt := u\<rparr>) x"
  "equal_but_time (x\<lparr>t_updatedAt := u\<rparr>) y = equal_but_time x y"
  by (simp_all add: equal_but_time_def)

lemma equal_but_time_id: "equal_but_time x y \<Longrightarrow> t_id x = t_id y"
  unfolding equal_but_time_def by (drule arg_cong [of _ _ t_id]) simp

lemma equal_but_time_row: "x\<lparr>t_updatedAt := t_updatedAt y\<rparr> = y \<Longrightarrow> equal_but_time y x"
  by (metis equal_but_time_refl(2))

lemma edit_admitted:
  assumes ok: "app_ok s" and t: "t \<in> set (tasks s)" and fits: "update_fits dto t s"
    and same: "users s' = users s" "projects s' = projects s"
    and parent: "has_id_opt t_id (tasks s') (t_parentTaskId t)"
  shows "\<forall>c \<in> set (task_checks (apply_update dto d t\<lparr>t_updatedAt := u\<rparr>) s'). fst c"
    and "\<forall>c \<in> set (task_checks (apply_update dto d t\<lparr>t_createdAt := v, t_updatedAt := u\<rparr>) s'). fst c"
proof -
  have "t_parentTaskId t \<noteq> Some (t_id t)" by (rule no_self_parent [OF ok t])
  moreover have "has_id p_id (projects s) (t_projectId t)" "has_id u_id (users s) (t_createdBy t)"
    using ok t by (auto simp: app_ok_def tasks_ok_def)
  moreover have "length (t_title (apply_update dto d t)) \<le> 200" "has_id_opt u_id (users s) (t_assigneeId (apply_update dto d t))"
    using fits by (simp_all add: update_fits_def apply_update_def)
  ultimately show "\<forall>c \<in> set (task_checks (apply_update dto d t\<lparr>t_updatedAt := u\<rparr>) s'). fst c"
    "\<forall>c \<in> set (task_checks (apply_update dto d t\<lparr>t_createdAt := v, t_updatedAt := u\<rparr>) s'). fst c"
    using same parent by (simp_all add: task_checks_def)
qed

lemma nulls_pass:
  "update_fits dto t s \<Longrightarrow> writes (enforce [null_check (ut_title dto) ''title'', null_check (ut_status dto) ''status'',
     null_check (ut_priority dto) ''priority'']) s' = (Inr (), s')"
  by (simp add: writes_def null_check_def update_fits_def enforce.simps del: enforce_Inr_iff)

lemma find_updated_row:
  "List.find (\<lambda>k. t_id k = i) ts = Some old \<Longrightarrow> t_id y = i \<Longrightarrow> List.find (\<lambda>k. t_id k = i) (update_row t_id y ts) = Some y"
  by (induction ts) (auto simp: update_row_def split: if_splits)

text \<open>The row is still there: afterwards it is the edited entity, whatever was in it.\<close>

lemma save_loaded_present:
  assumes there: "List.find (\<lambda>k. t_id k = t_id new) (tasks s) = Some old"
    and fits: "\<forall>c \<in> set (task_checks (new\<lparr>t_updatedAt := now\<rparr>) s). fst c"
  shows "\<exists>r y ts. save_loaded now new s = (Inr r, s\<lparr>tasks := ts\<rparr>) \<and> equal_but_time r new \<and> equal_but_time y new \<and>
    List.find (\<lambda>k. t_id k = t_id new) ts = Some y \<and> map t_id ts = map t_id (tasks s)"
proof (cases "new\<lparr>t_updatedAt := t_updatedAt old\<rparr> = old")
  case True
  then show ?thesis using there equal_but_time_row [OF True]
    by (intro exI [of _ new] exI [of _ old] exI [of _ "tasks s"]) (simp add: save_loaded_def bindM_def reads_def ret_def)
next
  case False
  let ?r = "new\<lparr>t_updatedAt := now\<rparr>"
  have "update_task ?r s = Inr (s\<lparr>tasks := update_row t_id ?r (tasks s)\<rparr>)"
    using fits by (simp add: update_task_def)
  then show ?thesis using False there find_updated_row [OF there, of ?r]
    by (intro exI [of _ ?r] exI [of _ ?r] exI [of _ "update_row t_id ?r (tasks s)"])
      (simp add: save_loaded_def bindM_def reads_def ret_def writes_def Let_def)
qed

lemma update_write_present:
  assumes ok: "app_ok s" and t: "t \<in> set (tasks s)" and fits: "update_fits dto t s"
    and same: "users s' = users s" "projects s' = projects s" "map t_id (tasks s') = map t_id (tasks s)"
  shows "\<exists>r y ts. update_write u dto now t s' =
      (Inr r, s'\<lparr>tasks := ts, bus := bus s' @ update_events dto u t r\<rparr>) \<and>
    equal_but_time r (apply_update dto (to_js now) t) \<and> equal_but_time y (apply_update dto (to_js now) t) \<and>
    List.find (\<lambda>k. t_id k = t_id t) ts = Some y \<and> map t_id ts = map t_id (tasks s)"
proof -
  let ?new = "apply_update dto (to_js now) t"
  have ids: "has_id t_id (tasks s') = has_id t_id (tasks s)" by (rule ext) (simp only: has_id_def same)
  have "has_id_opt t_id (tasks s) (t_parentTaskId t)"
    using forest_parent_row [OF app_ok_tasks(1) [OF ok] t] by (cases "t_parentTaskId t") (auto simp: has_id_opt_def)
  then have "has_id_opt t_id (tasks s') (t_parentTaskId t)" by (cases "t_parentTaskId t") (simp_all add: has_id_opt_def ids)
  note admitted = edit_admitted(1) [OF ok t fits same(1,2) this]
  have "t_id t \<in> set (map t_id (tasks s'))" using t by (simp add: same)
  then obtain old where "List.find (\<lambda>k. t_id k = t_id ?new) (tasks s') = Some old"
    by (cases "List.find (\<lambda>k. t_id k = t_id t) (tasks s')") (auto simp: find_None_iff2)
  from save_loaded_present [OF this admitted, of now]
  obtain r y ts where r: "save_loaded now ?new s' = (Inr r, s'\<lparr>tasks := ts\<rparr>)" "equal_but_time r ?new" "equal_but_time y ?new"
    "List.find (\<lambda>k. t_id k = t_id t) ts = Some y" "map t_id ts = map t_id (tasks s')"
    by auto
  then have "update_write u dto now t s' = (Inr r, s'\<lparr>tasks := ts, bus := bus s' @ update_events dto u t r\<rparr>)"
    by (simp add: update_write_def bindM_def nulls_pass [OF fits] modifies_def ret_def fold_emit)
  with r(2-5) same(3) show ?thesis by auto
qed

section \<open>Properties\<close>

text \<open>
  C27.  Of two edits of a task that overlap the first is lost: both requests succeed, the first answers with its
  changes and its events go out, and the task ends as the second edit made it from the values before the first, in
  every column, those it did not name included (\<open>updated_at\<close> apart).
\<close>

theorem concurrent_edit_lost:
  assumes "app_ok s" and "reachable_task w p t s" and "update_fits dto1 t s" and "update_fits dto2 t s"
  shows "\<exists>r1 r2 y s'. overlapped (TasksService_findOneOrFail w p (t_id t)) (update_write u1 dto1 now1)
        (TasksService_findOneOrFail w p (t_id t)) (update_write u2 dto2 now2) s = ((Inr r1, Inr r2), s') \<and>
      equal_but_time r1 (apply_update dto1 (to_js now1) t) \<and>
      List.find (\<lambda>k. t_id k = t_id t) (tasks s') = Some y \<and> equal_but_time y (apply_update dto2 (to_js now2) t) \<and>
      bus s' = bus s @ update_events dto1 u1 t r1 @ update_events dto2 u2 t r2"
proof -
  have t: "t \<in> set (tasks s)" using assms(2) by (simp add: reachable_task_def)
  have find: "TasksService_findOneOrFail w p (t_id t) s = (Inr t, s)"
    using assms(2) by (simp add: TasksService_findOneOrFail_found [OF assms(1)])
  obtain r1 y1 ts1 where 1: "update_write u1 dto1 now1 t s = (Inr r1, s\<lparr>tasks := ts1, bus := bus s @ update_events dto1 u1 t r1\<rparr>)"
      "equal_but_time r1 (apply_update dto1 (to_js now1) t)" "map t_id ts1 = map t_id (tasks s)"
    using update_write_present [OF assms(1) t assms(3), of s u1 now1] by auto
  let ?s1 = "s\<lparr>tasks := ts1, bus := bus s @ update_events dto1 u1 t r1\<rparr>"
  obtain r2 y2 ts2 where 2: "update_write u2 dto2 now2 t ?s1 = (Inr r2, ?s1\<lparr>tasks := ts2, bus := bus ?s1 @ update_events dto2 u2 t r2\<rparr>)"
      "equal_but_time y2 (apply_update dto2 (to_js now2) t)" "List.find (\<lambda>k. t_id k = t_id t) ts2 = Some y2"
    using update_write_present [OF assms(1) t assms(4), of ?s1 u2 now2] 1(3) by auto
  show ?thesis using 1 2 by (simp add: overlapped_def find)
qed

text \<open>Done by one request and renamed by another: the task is renamed, open, and reported as completed.\<close>

definition ex_done :: update_task_dto where
  "ex_done = \<lparr>ut_title = Undef, ut_description = Undef, ut_status = Val DONE, ut_priority = Undef, ut_assigneeId = Undef,
     ut_dueDate = Undef\<rparr>"

definition ex_rename :: update_task_dto where
  "ex_rename = \<lparr>ut_title = Val ''new'', ut_description = Undef, ut_status = Undef, ut_priority = Undef,
     ut_assigneeId = Undef, ut_dueDate = Undef\<rparr>"

lemma ex_edits_fit: "update_fits ex_done (ex_task ''t1'' None None) ex_app" "update_fits ex_rename (ex_task ''t1'' None None) ex_app"
  by (simp_all add: update_fits_def ex_done_def ex_rename_def ex_task_def has_id_opt_def)

theorem concurrent_edit_lost_witness:
  "\<exists>r1 r2 y s'. overlapped (TasksService_findOneOrFail ''w1'' ''p1'' ''t1'') (update_write ''u1'' ex_done 1000)
        (TasksService_findOneOrFail ''w1'' ''p1'' ''t1'') (update_write ''u2'' ex_rename 2000) ex_app = ((Inr r1, Inr r2), s') \<and>
      t_status r1 = DONE \<and> List.find (\<lambda>k. t_id k = ''t1'') (tasks s') = Some y \<and> t_status y = TODO \<and> t_title y = ''new'' \<and>
      TaskCompleted ''t1'' ''u1'' (Some ''u1'') \<in> set (bus s')"
proof -
  have status: "t_status x = t_status y" "t_title x = t_title y" "t_createdBy x = t_createdBy y" if "equal_but_time x y" for x y
    using that [unfolded equal_but_time_def, THEN arg_cong, of t_status] that [unfolded equal_but_time_def, THEN arg_cong, of t_title]
      that [unfolded equal_but_time_def, THEN arg_cong, of t_createdBy] by simp_all
  have id: "t_id (ex_task ''t1'' None None) = ''t1''" by (simp add: ex_task_def)
  obtain r1 r2 y s' where run: "overlapped (TasksService_findOneOrFail ''w1'' ''p1'' ''t1'') (update_write ''u1'' ex_done 1000)
        (TasksService_findOneOrFail ''w1'' ''p1'' ''t1'') (update_write ''u2'' ex_rename 2000) ex_app = ((Inr r1, Inr r2), s')"
      and r1: "equal_but_time r1 (apply_update ex_done (to_js 1000) (ex_task ''t1'' None None))"
      and y: "List.find (\<lambda>k. t_id k = ''t1'') (tasks s') = Some y"
        "equal_but_time y (apply_update ex_rename (to_js 2000) (ex_task ''t1'' None None))"
      and bus: "bus s' = bus ex_app @ update_events ex_done ''u1'' (ex_task ''t1'' None None) r1 @
        update_events ex_rename ''u2'' (ex_task ''t1'' None None) r2"
    using concurrent_edit_lost [OF ex_app_ok ex_reachable(2) ex_edits_fit, of "''u1''" 1000 "''u2''" 2000] unfolding id by blast
  have "t_status r1 = DONE" "t_createdBy r1 = ''u1''" "t_id r1 = ''t1''" "t_status y = TODO" "t_title y = ''new''"
    using status [OF r1] status [OF y(2)] equal_but_time_id [OF r1]
    by (simp_all add: apply_update_def ex_done_def ex_rename_def ex_task_def)
  with run y bus show ?thesis
    by (intro exI [of _ r1] exI [of _ r2] exI [of _ y] exI [of _ s'])
      (auto simp: update_events_def ex_done_def ex_task_def)
qed

text \<open>
  C28.  An edit that overlaps with the removal of its task brings the task back: the removal succeeds, and the edit,
  which has loaded the task before, inserts it again under its old id, without the subtasks, comments, activity and
  reminders that went with it.
\<close>

theorem concurrent_edit_undoes_removal:
  assumes "app_ok s" and "reachable_task w p t s" and "update_fits dto t s"
  shows "\<exists>r s'. overlapped (TasksService_findOneOrFail w p (t_id t)) remove_write
        (TasksService_findOneOrFail w p (t_id t)) (update_write u dto now) s = ((Inr (), Inr r), s') \<and>
      r = apply_update dto (to_js now) t\<lparr>t_createdAt := to_js (t_createdAt t) * 1000, t_updatedAt := now\<rparr> \<and>
      set (tasks s') = insert r {k \<in> set (tasks s). \<not> under (task_up s) (t_id t) (t_id k)} \<and>
      comments s' = comments (delete_tasks (\<lambda>i. i = t_id t) s) \<and> reminders s' = reminders (delete_tasks (\<lambda>i. i = t_id t) s)"
proof -
  have t: "t \<in> set (tasks s)" using assms(2) by (simp add: reachable_task_def)
  let ?s1 = "delete_tasks (\<lambda>i. i = t_id t) s"
  let ?r = "apply_update dto (to_js now) t\<lparr>t_createdAt := to_js (t_createdAt t) * 1000, t_updatedAt := now\<rparr>"
  have left: "set (tasks ?s1) = {k \<in> set (tasks s). \<not> under (task_up s) (t_id t) (t_id k)}"
    using set_delete_tasks(1) [OF assms(1), of "\<lambda>i. i = t_id t"] by simp
  have find: "TasksService_findOneOrFail w p (t_id t) s = (Inr t, s)"
    using assms(2) by (simp add: TasksService_findOneOrFail_found [OF assms(1)])
  have "k = t" if "k \<in> set (tasks s)" "t_id k = t_id t" for k
    using distinct_key_eq [OF app_ok_tasks(2) [OF assms(1)] that(1) t that(2)] .
  moreover have "under (task_up s) (t_id t) (t_id t)" by (auto simp: under_def intro: exI [of _ 0])
  ultimately have gone: "List.find (\<lambda>k. t_id k = t_id t) (tasks ?s1) = None" "\<not> has_id t_id (tasks ?s1) (t_id t)"
    by (auto simp: find_None_iff has_id_def left)
  have parent: "has_id_opt t_id (tasks ?s1) (t_parentTaskId t)"
  proof (cases "t_parentTaskId t")
    case (Some q)
    then obtain k where k: "k \<in> set (tasks s)" "t_id k = q"
      using forest_parent_row [OF app_ok_tasks(1) [OF assms(1)] t] by (auto simp: has_id_def)
    have "\<not> under (task_up s) (t_id t) q"
      by (rule parent_not_under [OF assms(1) t Some])
    with k left Some show ?thesis by (auto simp: has_id_opt_def has_id_def)
  qed (simp add: has_id_opt_def)
  have "insert_task ?r ?s1 = Inr (?s1\<lparr>tasks := tasks ?s1 @ [?r]\<rparr>)"
    using edit_admitted(2) [OF assms(1) t assms(3) _ _ parent] gone(2) by (simp add: insert_task_def)
  then have "save_loaded now (apply_update dto (to_js now) t) ?s1 = (Inr ?r, ?s1\<lparr>tasks := tasks ?s1 @ [?r]\<rparr>)"
    by (simp add: save_loaded_def bindM_def reads_def gone Let_def writes_def ret_def)
  then have "update_write u dto now t ?s1 =
      (Inr ?r, ?s1\<lparr>tasks := tasks ?s1 @ [?r], bus := bus ?s1 @ update_events dto u t ?r\<rparr>)"
    by (simp add: update_write_def bindM_def nulls_pass [OF assms(3)] modifies_def ret_def fold_emit)
  then show ?thesis
    by (simp add: overlapped_def find remove_write_def modifies_def left)
qed

theorem concurrent_edit_undoes_removal_witness:
  "\<exists>r s'. overlapped (TasksService_findOneOrFail ''w1'' ''p1'' ''t1'') remove_write
        (TasksService_findOneOrFail ''w1'' ''p1'' ''t1'') (update_write ''u2'' ex_rename 2000) ex_app = ((Inr (), Inr r), s') \<and>
      t_title r = ''new'' \<and> t_id r = ''t1'' \<and> r \<in> set (tasks s') \<and>
      set (tasks s') \<subseteq> insert r (set (tasks ex_app))"
proof -
  have id: "t_id (ex_task ''t1'' None None) = ''t1''" by (simp add: ex_task_def)
  obtain r s' where "overlapped (TasksService_findOneOrFail ''w1'' ''p1'' ''t1'') remove_write
        (TasksService_findOneOrFail ''w1'' ''p1'' ''t1'') (update_write ''u2'' ex_rename 2000) ex_app = ((Inr (), Inr r), s')"
      "r = apply_update ex_rename (to_js 2000) (ex_task ''t1'' None None)
        \<lparr>t_createdAt := to_js (t_createdAt (ex_task ''t1'' None None)) * 1000, t_updatedAt := 2000\<rparr>"
      "set (tasks s') = insert r {k \<in> set (tasks ex_app). \<not> under (task_up ex_app) ''t1'' (t_id k)}"
    using concurrent_edit_undoes_removal [OF ex_app_ok ex_reachable(2) ex_edits_fit(2), of "''u2''" 2000] unfolding id by blast
  then show ?thesis
    by (intro exI [of _ r] exI [of _ s']) (auto simp: apply_update_def ex_rename_def ex_task_def)
qed

end
