(* ===== verification/Worker.thy ===== *)
theory Worker
  imports Reminders
begin

text \<open>
  The life of a reminder job in the worker (\<open>src/modules/reminders/reminder.processor.ts\<close> with
  \<open>deliverReminder\<close> and \<open>markFailed\<close> of \<open>RemindersService\<close>): the attempts, the places where one can be
  interrupted, and the final failure.  \<open>bullmq\<close> runs the job, documented as here: an attempt that throws is counted
  and reported to \<open>onFailed\<close>, and repeated as long as fewer than \<open>attempts\<close> were made.
\<close>

section \<open>Delivery, statement by statement\<close>

definition reminder_due :: "uuid \<Rightarrow> app \<Rightarrow> reminder option" where
  "reminder_due reminderId s =
     (case List.find (\<lambda>r. r_id r = reminderId) (reminders s) of
        None \<Rightarrow> None | Some r \<Rightarrow> if r_status r = REM_SENT then None else Some r)"

definition deliver_notify :: "reminder \<Rightarrow> uuid \<Rightarrow> pg_time \<Rightarrow> (app, unit) svc" where
  "deliver_notify reminder nid pg =
     bindM (reads (\<lambda>s. Inr (List.find (\<lambda>t. t_id t = r_taskId reminder) (tasks s)))) (\<lambda>task.
     case task of
       Some t \<Rightarrow> if truthy (t_assigneeId t)
         then bindM (RemindersService_notifyAssignee (t_id t) (the (t_assigneeId t)) (r_type reminder) nid pg) (\<lambda>_. ret ())
         else ret ()
     | None \<Rightarrow> ret ())"

definition deliver_mark :: "reminder \<Rightarrow> js_date \<Rightarrow> (app, unit) svc" where
  "deliver_mark reminder date =
     update_reminder (r_id reminder)
       (\<lambda>r. r\<lparr>r_status := REM_SENT, r_sentAt := Some date, r_attempts := r_attempts reminder + 1\<rparr>)"

lemma deliver_split:
  "RemindersService_deliverReminder i nid date pg s =
     (case reminder_due i s of
        None \<Rightarrow> (Inr (), s)
      | Some r \<Rightarrow> bindM (deliver_notify r nid pg) (\<lambda>_. deliver_mark r date) s)"
  by (auto simp: RemindersService_deliverReminder_def reminder_due_def deliver_notify_def deliver_mark_def bindM_def
      reads_def ret_def split: option.split)

section \<open>Attempts\<close>

text \<open>
  An attempt runs to its end, or its process or its connection fails: before it has written anything, or between the
  notification and the mark, which are two statements without a transaction.
\<close>

datatype progress = Completes | FailsBefore | FailsBetween

fun attempt :: "progress \<Rightarrow> reminder_job \<Rightarrow> uuid \<Rightarrow> js_date \<Rightarrow> pg_time \<Rightarrow> (app, unit) svc" where
  "attempt Completes job nid date pg = ReminderProcessor_process job nid date pg"
| "attempt FailsBefore job nid date pg = throw (JsError ''Connection terminated'')"
| "attempt FailsBetween job nid date pg =
     bindM (reads (\<lambda>s. Inr (reminder_due (j_reminderId job) s))) (\<lambda>due.
     bindM (case due of None \<Rightarrow> ret () | Some r \<Rightarrow> deliver_notify r nid pg) (\<lambda>_.
     throw (JsError ''Connection terminated'')))"

text \<open>The job that \<open>dispatch\<close> adds to the queue, and its attempts with the id and the times each would use.\<close>

definition send_reminder_job :: "uuid \<Rightarrow> reminder_job" where
  "send_reminder_job reminderId = \<lparr>j_reminderId = reminderId, j_attempts = Some 5, j_attemptsMade = 0\<rparr>"

type_synonym job_try = "progress \<times> uuid \<times> js_date \<times> pg_time"

fun work :: "reminder_job \<Rightarrow> job_try list \<Rightarrow> app \<Rightarrow> reminder_job \<times> app" where
  "work job [] s = (job, s)"
| "work job ((p, nid, date, pg) # xs) s =
     (case attempt p job nid date pg s of
        (Inr _, s1) \<Rightarrow> (job, s1)
      | (Inl _, s1) \<Rightarrow>
          let job' = job\<lparr>j_attemptsMade := j_attemptsMade job + 1\<rparr>;
              s2 = snd (ReminderProcessor_onFailed job' s1)
          in if j_attemptsMade job' < (case j_attempts job of None \<Rightarrow> 1 | Some n \<Rightarrow> n) then work job' xs s2
             else (job', s2))"

text \<open>The attempts that are made of those that could be: up to the first that completes, and at most \<open>n\<close>.\<close>

fun made :: "nat \<Rightarrow> progress list \<Rightarrow> progress list" where
  "made 0 ps = []"
| "made (Suc n) [] = []"
| "made (Suc n) (p # ps) = (if p = Completes then [p] else p # made n ps)"

text \<open>What the reminder tells whom: the assignee of its task, if there is one.\<close>

definition reminder_notice :: "reminder \<Rightarrow> app \<Rightarrow> (uuid \<times> notification_type \<times> uuid option) list" where
  "reminder_notice x s =
     (case List.find (\<lambda>t. t_id t = r_taskId x) (tasks s) of
        None \<Rightarrow> [] | Some t \<Rightarrow> item_notice (t, r_type x, ([], [])))"

definition fresh_tries :: "app \<Rightarrow> job_try list \<Rightarrow> bool" where
  "fresh_tries s xs \<longleftrightarrow> distinct (map (\<lambda>a. fst (snd a)) xs) \<and>
     list_all (\<lambda>a. \<not> has_id n_id (notifications s) (fst (snd a))) xs"

section \<open>One attempt\<close>

lemma deliver_notify_ok:
  assumes "app_ok s" and "\<not> has_id n_id (notifications s) nid"
  shows "\<exists>ns s1. deliver_notify x nid pg s = (Inr (), s1) \<and> app_ok s1 \<and> tasks s1 = tasks s \<and> reminders s1 = reminders s \<and>
    notifications s1 = notifications s @ ns \<and> map n_key ns = reminder_notice x s \<and> set (map n_id ns) \<subseteq> {nid}"
proof (cases "\<exists>t. List.find (\<lambda>t. t_id t = r_taskId x) (tasks s) = Some t \<and> truthy (t_assigneeId t)")
  case False
  then have "deliver_notify x nid pg s = (Inr (), s)" "reminder_notice x s = []"
    by (auto simp: deliver_notify_def bindM_def reads_def ret_def reminder_notice_def item_notice_def split: option.split)
  with assms(1) show ?thesis by (intro exI [of _ "[]"] exI [of _ s]) simp
next
  case True
  then obtain t a where t: "List.find (\<lambda>t. t_id t = r_taskId x) (tasks s) = Some t" and a: "t_assigneeId t = Some a" "a \<noteq> []"
    by (metis truthy.elims(2))
  have "tasks_ok (users s) (projects s) (tasks s)" using assms(1) by (simp add: app_ok_def)
  with find_SomeD [OF t] a have u: "has_id u_id (users s) a" by (auto simp: tasks_ok_def)
  let ?i = "notify a (if r_type x = DUE_SOON then TASK_DUE_SOON else TASK_OVERDUE)
      (if r_type x = DUE_SOON then ''A task is due soon'' else ''A task is overdue'') ''task'' (t_id t)"
  have "\<exists>n s1. RemindersService_notifyAssignee (t_id t) a (r_type x) nid pg s = (Inr n, s1)"
    using assms(2) u
    by (cases "r_type x = DUE_SOON"; simp add: RemindersService_notifyAssignee_def NotificationsService_create_def notify_def Let_def bindM_def
        insert_notification_def enforce.simps writes_def modifies_def ret_def)
  then obtain n s1 where run: "RemindersService_notifyAssignee (t_id t) a (r_type x) nid pg s = (Inr n, s1)" by blast
  from NotificationsService_create_cases [OF run [unfolded RemindersService_notifyAssignee_def]]
  have "notifications s1 = notifications s @ [n]" "n_key n = (a, cn_type ?i, Some (t_id t))" "n_id n = nid"
      "tasks s1 = tasks s" "reminders s1 = reminders s"
    by (auto simp: n_key_def notify_def)
  moreover have "app_ok s1" using keepsD [OF RemindersService_notifyAssignee_keeps assms(1) run] .
  moreover have "deliver_notify x nid pg s = (Inr (), s1)"
    using run a by (simp add: deliver_notify_def bindM_def reads_def ret_def t)
  ultimately show ?thesis
    using a by (intro exI [of _ "[n]"] exI [of _ s1])
      (simp add: reminder_notice_def item_notice_def t notify_def)
qed

text \<open>The reminder with the id of \<open>x\<close> is \<open>x\<close>; an update of it is the update of \<open>x\<close>.\<close>

definition holds :: "reminder \<Rightarrow> app \<Rightarrow> bool" where
  "holds x s \<longleftrightarrow> List.find (\<lambda>r. r_id r = r_id x) (reminders s) = Some x"

lemma find_updated:
  "List.find (\<lambda>r. r_id r = i) rs = Some x \<Longrightarrow> r_id (f x) = i \<Longrightarrow>
     (\<And>r. r_id r = i \<Longrightarrow> r_id (f r) = i) \<Longrightarrow>
     List.find (\<lambda>r. r_id r = i) (update_where (\<lambda>r. r_id r = i) f rs) = Some (f x)"
  by (induction rs) (auto simp: update_where_def split: if_splits)

lemma holds_due: "holds x s \<Longrightarrow> r_status x \<noteq> REM_SENT \<Longrightarrow> reminder_due (r_id x) s = Some x"
  by (simp add: holds_def reminder_due_def)

lemma holds_marked:
  assumes "holds x s" and "deliver_mark x d s = (r, s')"
  shows "r = Inr () \<and> holds (x\<lparr>r_status := REM_SENT, r_sentAt := Some d, r_attempts := r_attempts x + 1\<rparr>) s' \<and>
    notifications s' = notifications s"
  using assms find_updated [of "r_id x" "reminders s" x
      "\<lambda>r. r\<lparr>r_status := REM_SENT, r_sentAt := Some d, r_attempts := r_attempts x + 1\<rparr>"]
  by (auto simp: deliver_mark_def update_reminder_def modifies_def holds_def)

lemma holds_failed:
  assumes "holds x s" and "RemindersService_markFailed (r_id x) k s = (r, s')"
  shows "holds (x\<lparr>r_status := REM_FAILED, r_attempts := k\<rparr>) s' \<and> notifications s' = notifications s"
  using assms find_updated [of "r_id x" "reminders s" x "\<lambda>r. r\<lparr>r_status := REM_FAILED, r_attempts := k\<rparr>"]
  by (auto simp: RemindersService_markFailed_def update_reminder_def modifies_def holds_def)

lemma attempt_completes:
  assumes "app_ok s" and "holds x s" and "r_status x \<noteq> REM_SENT" and "\<not> has_id n_id (notifications s) nid"
    and "j_reminderId job = r_id x"
  shows "\<exists>s1. attempt Completes job nid d pg s = (Inr (), s1) \<and>
    holds (x\<lparr>r_status := REM_SENT, r_sentAt := Some d, r_attempts := r_attempts x + 1\<rparr>) s1 \<and>
    map n_key (notifications s1) = map n_key (notifications s) @ reminder_notice x s"
proof -
  obtain ns s1 where n: "deliver_notify x nid pg s = (Inr (), s1)" "reminders s1 = reminders s"
      "notifications s1 = notifications s @ ns" "map n_key ns = reminder_notice x s"
    using deliver_notify_ok [OF assms(1,4)] by blast
  obtain r s2 where m: "deliver_mark x d s1 = (r, s2)" by (cases "deliver_mark x d s1")
  have "holds x s1" using assms(2) n(2) by (simp add: holds_def)
  note marked = holds_marked [OF this m]
  then have "attempt Completes job nid d pg s = (Inr (), s2)"
    using n(1) m by (simp add: ReminderProcessor_process_def deliver_split assms(5) holds_due [OF assms(2,3)] bindM_def)
  with marked n show ?thesis by simp
qed

text \<open>What an interrupted attempt leaves: the reminder as it was, and its notification or nothing.\<close>

lemma attempt_fails:
  assumes "app_ok s" and "holds x s" and "r_status x \<noteq> REM_SENT" and "\<not> has_id n_id (notifications s) nid"
    and "j_reminderId job = r_id x" and "p \<noteq> Completes"
  shows "\<exists>e ns s1. attempt p job nid d pg s = (Inl e, s1) \<and> app_ok s1 \<and> holds x s1 \<and> tasks s1 = tasks s \<and>
    notifications s1 = notifications s @ ns \<and> set (map n_id ns) \<subseteq> {nid} \<and>
    map n_key ns = (if p = FailsBetween then reminder_notice x s else [])"
proof (cases p)
  case FailsBetween
  obtain ns s1 where n: "deliver_notify x nid pg s = (Inr (), s1)" "app_ok s1" "tasks s1 = tasks s"
      "reminders s1 = reminders s" "notifications s1 = notifications s @ ns" "map n_key ns = reminder_notice x s"
      "set (map n_id ns) \<subseteq> {nid}"
    using deliver_notify_ok [OF assms(1,4)] by blast
  from n(1) have "attempt p job nid d pg s = (Inl (JsError ''Connection terminated''), s1)"
    by (simp add: FailsBetween bindM_def reads_def throw_def assms(5) holds_due [OF assms(2,3)])
  moreover have "holds x s1" using assms(2) n(4) by (simp add: holds_def)
  ultimately show ?thesis using n(2-7) FailsBetween by auto
qed (use assms in \<open>auto simp: throw_def\<close>)

section \<open>All attempts\<close>

abbreviation told :: "progress list \<Rightarrow> nat" where
  "told ps \<equiv> length (filter (\<lambda>p. p \<noteq> FailsBefore) ps)"

lemma onFailed_runs:
  "j_attempts job = Some m \<Longrightarrow> ReminderProcessor_onFailed job s =
     (if m \<le> j_attemptsMade job then RemindersService_markFailed (j_reminderId job) (j_attemptsMade job) s else (Inr (), s))"
  by (simp add: ReminderProcessor_onFailed_def ret_def)

lemma fresh_tries_more:
  assumes "fresh_tries s ((p, nid, d, pg) # xs)" and "notifications s1 = notifications s @ ns"
    and "set (map n_id ns) \<subseteq> {nid}"
  shows "fresh_tries s1 xs"
  using assms by (auto simp: fresh_tries_def list_all_iff has_id_def)

lemma work_completes:
  assumes "app_ok s" and "holds x s" and "r_status x \<noteq> REM_SENT" and "\<not> has_id n_id (notifications s) nid"
    and "j_reminderId job = r_id x" and "work job ((Completes, nid, d, pg) # xs) s = (job', s')"
  shows "(\<exists>d. holds (x\<lparr>r_status := REM_SENT, r_sentAt := Some d, r_attempts := r_attempts x + 1\<rparr>) s') \<and>
    map n_key (notifications s') = map n_key (notifications s) @ reminder_notice x s"
proof -
  obtain s1 where "attempt Completes job nid d pg s = (Inr (), s1)"
      "holds (x\<lparr>r_status := REM_SENT, r_sentAt := Some d, r_attempts := r_attempts x + 1\<rparr>) s1"
      "map n_key (notifications s1) = map n_key (notifications s) @ reminder_notice x s"
    using attempt_completes [OF assms(1-5)] by blast
  with assms(6) show ?thesis by (auto simp del: attempt.simps)
qed

lemma work_ends:
  assumes "app_ok s" and "holds x s" and "r_status x \<noteq> REM_SENT" and "fresh_tries s xs"
    and "j_reminderId job = r_id x" and "j_attempts job = Some (j_attemptsMade job + Suc n)" and "Suc n \<le> length xs"
    and "work job xs s = (job', s')"
  shows "(if Completes \<in> set (made (Suc n) (map fst xs))
      then \<exists>d. holds (x\<lparr>r_status := REM_SENT, r_sentAt := Some d, r_attempts := r_attempts x + 1\<rparr>) s'
      else holds (x\<lparr>r_status := REM_FAILED, r_attempts := j_attemptsMade job + Suc n\<rparr>) s') \<and>
    map n_key (notifications s') = map n_key (notifications s) @
      concat (replicate (told (made (Suc n) (map fst xs))) (reminder_notice x s))"
  using assms
proof (induction n arbitrary: job s xs)
  case 0
  then obtain p nid d pg ys where xs: "xs = (p, nid, d, pg) # ys" by (cases xs) auto
  have fresh: "\<not> has_id n_id (notifications s) nid" using "0.prems"(4) by (simp add: fresh_tries_def xs)
  show ?case
  proof (cases "p = Completes")
    case True
    with work_completes [OF "0.prems"(1-3) fresh "0.prems"(5)] "0.prems"(8) show ?thesis by (simp add: xs)
  next
    case False
    from attempt_fails [OF "0.prems"(1-3) fresh "0.prems"(5) False] obtain e ns s1 where
      a: "attempt p job nid d pg s = (Inl e, s1)" "holds x s1" "notifications s1 = notifications s @ ns"
        "map n_key ns = (if p = FailsBetween then reminder_notice x s else [])" by metis
    have "s' = snd (RemindersService_markFailed (r_id x) (Suc (j_attemptsMade job)) s1)"
      using "0.prems"(5,6,8) a(1) by (simp add: xs Let_def onFailed_runs [where m = "Suc (j_attemptsMade job)"])
    with holds_failed [OF a(2) prod.collapse [symmetric], of "Suc (j_attemptsMade job)"] a(3,4) False
    show ?thesis by (cases p) (simp_all add: xs)
  qed
next
  case (Suc n)
  then obtain p nid d pg ys where xs: "xs = (p, nid, d, pg) # ys" by (cases xs) auto
  have fresh: "\<not> has_id n_id (notifications s) nid" using Suc.prems(4) by (simp add: fresh_tries_def xs)
  show ?case
  proof (cases "p = Completes")
    case True
    with work_completes [OF Suc.prems(1-3) fresh Suc.prems(5)] Suc.prems(8) show ?thesis by (simp add: xs)
  next
    case False
    from attempt_fails [OF Suc.prems(1-3) fresh Suc.prems(5) False] obtain e ns s1 where
      a: "attempt p job nid d pg s = (Inl e, s1)" "app_ok s1" "holds x s1" "tasks s1 = tasks s"
        "notifications s1 = notifications s @ ns" "set (map n_id ns) \<subseteq> {nid}"
        "map n_key ns = (if p = FailsBetween then reminder_notice x s else [])" by metis
    let ?job = "job\<lparr>j_attemptsMade := j_attemptsMade job + 1\<rparr>"
    have w: "work ?job ys s1 = (job', s')"
      using Suc.prems(5,6,8) a(1)
      by (simp add: xs Let_def onFailed_runs [where m = "Suc (Suc (j_attemptsMade job + n))"])
    have notice: "reminder_notice x s1 = reminder_notice x s" by (simp add: reminder_notice_def a(4))
    have "fresh_tries s1 ys" using fresh_tries_more Suc.prems(4) a(5,6) unfolding xs by blast
    from Suc.IH [OF a(2,3) Suc.prems(3) this _ _ _ w] Suc.prems(5-7) False a(5,7)
    show ?thesis
      by (cases p; cases "Completes \<in> set (made (Suc n) (map fst ys))";
          simp add: xs notice made.simps(3) [of "Suc n"] del: made.simps(3))
  qed
qed

section \<open>Property\<close>


definition ex_tries :: "job_try list" where
  "ex_tries = [(FailsBetween, ''n2'', 5, 5), (FailsBefore, ''n3'', 6, 6), (Completes, ''n4'', 7, 7),
     (Completes, ''n5'', 8, 8), (Completes, ''n6'', 9, 9)]"


end
