(* ===== verification/Scans.thy ===== *)
theory Scans
  imports Reminders "HOL-Library.Multiset"
begin

text \<open>
  Scans that overlap (\<open>scan\<close> and \<open>dispatch\<close> of \<open>src/modules/reminders/reminders.service.ts\<close>, delivery in process):
  several workers, or the timer and the manual trigger, work through the tasks they have read, and the database
  executes their statements in any order, with the statements of other requests between them.
\<close>

section \<open>Dispatch, statement by statement\<close>

definition dispatch_create :: "dispatch_item \<Rightarrow> pg_time \<Rightarrow> (app, uuid option) svc" where
  "dispatch_create x pg = (case x of (task, ty, rid, nid) \<Rightarrow>
     RemindersService_createReminder (t_id task) ty (the (t_dueDate task)) rid pg)"

definition dispatch_notify :: "dispatch_item \<Rightarrow> pg_time \<Rightarrow> (app, unit) svc" where
  "dispatch_notify x pg = (case x of (task, ty, rid, nid) \<Rightarrow>
     if truthy (t_assigneeId task)
     then bindM (RemindersService_notifyAssignee (t_id task) (the (t_assigneeId task)) ty nid pg) (\<lambda>_. ret ())
     else ret ())"

definition dispatch_mark :: "dispatch_item \<Rightarrow> js_date \<Rightarrow> (app, unit) svc" where
  "dispatch_mark x date = (case x of (task, ty, rid, nid) \<Rightarrow>
     update_reminder rid (\<lambda>r. r\<lparr>r_status := REM_SENT, r_sentAt := Some date\<rparr>))"

text \<open>
  A scan on its way: the tasks it still has to do, and the next statement for the first of them.  An exception ends
  the scan where it is.
\<close>

datatype stage = Create | Notify | Mark

record scan =
  sc_date :: js_date
  sc_now :: pg_time
  sc_todo :: "dispatch_item list"
  sc_stage :: stage
  sc_stopped :: bool

definition start_scan :: "js_date \<Rightarrow> pg_time \<Rightarrow> dispatch_item list \<Rightarrow> scan" where
  "start_scan date pg xs = \<lparr>sc_date = date, sc_now = pg, sc_todo = xs, sc_stage = Create, sc_stopped = False\<rparr>"

definition scan_statement :: "scan \<Rightarrow> app \<Rightarrow> scan \<times> app" where
  "scan_statement p s =
     (if sc_stopped p then (p, s)
      else case sc_todo p of
        [] \<Rightarrow> (p, s)
      | x # xs \<Rightarrow>
          (case sc_stage p of
             Create \<Rightarrow>
               (case dispatch_create x (sc_now p) s of
                  (Inl e, s') \<Rightarrow> (p\<lparr>sc_stopped := True\<rparr>, s')
                | (Inr reminderId, s') \<Rightarrow>
                    if \<not> truthy reminderId then (p\<lparr>sc_todo := xs\<rparr>, s') else (p\<lparr>sc_stage := Notify\<rparr>, s'))
           | Notify \<Rightarrow>
               (case dispatch_notify x (sc_now p) s of
                  (Inl e, s') \<Rightarrow> (p\<lparr>sc_stopped := True\<rparr>, s')
                | (Inr _, s') \<Rightarrow> (p\<lparr>sc_stage := Mark\<rparr>, s'))
           | Mark \<Rightarrow>
               (p\<lparr>sc_todo := xs, sc_stage := Create\<rparr>, snd (dispatch_mark x (sc_date p) s))))"

definition scan_over :: "scan \<Rightarrow> bool" where
  "scan_over p \<longleftrightarrow> sc_stopped p \<or> sc_todo p = []"

section \<open>A scan by itself\<close>

lemma dispatch_split:
  "RemindersService_dispatch None t ty (rid, nid) date pg (q, s) =
     (case dispatch_create (t, ty, rid, nid) pg s of
        (Inl e, s1) \<Rightarrow> (Inl e, (q, s1))
      | (Inr i, s1) \<Rightarrow>
          if \<not> truthy i then (Inr \<lparr>o_created = False, o_delivered = False, o_enqueued = False\<rparr>, (q, s1))
          else (case dispatch_notify (t, ty, rid, nid) pg s1 of
            (Inl e, s2) \<Rightarrow> (Inl e, (q, s2))
          | (Inr _, s2) \<Rightarrow> (Inr \<lparr>o_created = True, o_delivered = True, o_enqueued = False\<rparr>,
              (q, snd (dispatch_mark (t, ty, the i, nid) date s2)))))"
  by (auto simp: RemindersService_dispatch_def dispatch_create_def dispatch_notify_def dispatch_mark_def bindM_def on_app_def
      ret_def update_reminder_def modifies_def split: prod.splits sum.splits)

lemma created_id:
  "dispatch_create (t, ty, rid, nid) pg s = (Inr i, s1) \<Longrightarrow> truthy i \<Longrightarrow> i = Some rid"
  by (auto simp: dispatch_create_def RemindersService_createReminder_def insert_reminder_or_ignore_def
      split: sum.splits if_splits)

text \<open>Alone, the statements of a scan add up to \<open>dispatch_each\<close>.\<close>

fun statements :: "nat \<Rightarrow> scan \<Rightarrow> app \<Rightarrow> scan \<times> app" where
  "statements 0 p s = (p, s)"
| "statements (Suc n) p s = (case scan_statement p s of (p', s') \<Rightarrow> statements n p' s')"

lemma statements_add: "statements (m + n) p s = (case statements m p s of (p', s') \<Rightarrow> statements n p' s')"
  by (induction m arbitrary: p s) (simp_all add: split_def)

lemma start_scan_simps [simp]:
  "sc_todo (start_scan date pg xs) = xs" "sc_stage (start_scan date pg xs) = Create"
  "sc_stopped (start_scan date pg xs) = False" "sc_now (start_scan date pg xs) = pg" "sc_date (start_scan date pg xs) = date"
  "(start_scan date pg ys)\<lparr>sc_todo := xs\<rparr> = start_scan date pg xs"
  "(start_scan date pg ys)\<lparr>sc_stage := Create\<rparr> = start_scan date pg ys"
  by (simp_all add: start_scan_def)

lemma dispatch_alone:
  assumes "RemindersService_dispatch None t ty (rid, nid) date pg (q, s) = (r, (q', s'))"
  shows "\<exists>n p. statements n (start_scan date pg ((t, ty, rid, nid) # xs)) s = (p, s') \<and>
    (case r of Inl e \<Rightarrow> sc_stopped p | Inr _ \<Rightarrow> p = start_scan date pg xs)"
proof -
  let ?x = "(t, ty, rid, nid)"
  let ?start = "start_scan date pg (?x # xs)"
  obtain i s1 where c: "dispatch_create ?x pg s = (i, s1)" by fastforce
  consider e where "i = Inl e" | j where "i = Inr j" "\<not> truthy j" | j where "i = Inr j" "truthy j" by (cases i) auto
  then show ?thesis
  proof cases
    case (1 e)
    with assms c show ?thesis by (intro exI [of _ 1]) (auto simp: dispatch_split scan_statement_def)
  next
    case (2 j)
    with assms c show ?thesis by (intro exI [of _ 1]) (auto simp: dispatch_split scan_statement_def)
  next
    case (3 j)
    with created_id c have j: "j = Some rid" by simp
    obtain u s2 where nt: "dispatch_notify ?x pg s1 = (u, s2)" by fastforce
    have one: "scan_statement ?start s = (?start\<lparr>sc_stage := Notify\<rparr>, s1)"
      using c 3 by (simp add: scan_statement_def)
    show ?thesis
    proof (cases u)
      case (Inl e)
      with assms c 3 nt one show ?thesis by (intro exI [of _ 2]) (auto simp: dispatch_split scan_statement_def numeral_2_eq_2)
    next
      case (Inr v)
      with nt have "scan_statement (?start\<lparr>sc_stage := Notify\<rparr>) s1 = (?start\<lparr>sc_stage := Mark\<rparr>, s2)"
        by (simp add: scan_statement_def)
      moreover have "scan_statement (?start\<lparr>sc_stage := Mark\<rparr>) s2 = (start_scan date pg xs, snd (dispatch_mark ?x date s2))"
        by (simp add: scan_statement_def start_scan_def)
      ultimately show ?thesis using assms c 3 nt one Inr j
        by (intro exI [of _ 3]) (auto simp: dispatch_split numeral_3_eq_3)
    qed
  qed
qed

lemma scan_alone:
  "dispatch_each None xs date pg r (q, s) = (o', (q', s')) \<Longrightarrow>
     \<exists>n p. statements n (start_scan date pg xs) s = (p, s') \<and> scan_over p \<and> (sc_stopped p \<longleftrightarrow> (\<exists>e. o' = Inl e))"
proof (induction xs arbitrary: r q s)
  case Nil
  then show ?case by (intro exI [of _ 0]) (auto simp: ret_def scan_over_def)
next
  case (Cons x xs)
  obtain t ty rid nid where x: "x = (t, ty, rid, nid)" by (cases x)
  obtain d q1 s1 where d: "RemindersService_dispatch None t ty (rid, nid) date pg (q, s) = (d, (q1, s1))" by (metis surj_pair)
  obtain n p where n: "statements n (start_scan date pg (x # xs)) s = (p, s1)"
    "case d of Inl e \<Rightarrow> sc_stopped p | Inr _ \<Rightarrow> p = start_scan date pg xs"
    using dispatch_alone [OF d, of xs] unfolding x by blast
  show ?case
  proof (cases d)
    case (Inl e)
    with Cons.prems d n show ?thesis by (intro exI [of _ n]) (auto simp: x bindM_def scan_over_def)
  next
    case (Inr out)
    with Cons.prems d have "dispatch_each None xs date pg (tally out r) (q1, s1) = (o', (q', s'))" by (simp add: x bindM_def)
    from Cons.IH [OF this] obtain m p' where "statements m (start_scan date pg xs) s1 = (p', s')" "scan_over p'"
        "sc_stopped p' \<longleftrightarrow> (\<exists>e. o' = Inl e)" by blast
    with n Inr show ?thesis by (intro exI [of _ "n + m"]) (simp add: statements_add)
  qed
qed

section \<open>Scans and other requests\<close>

text \<open>What the assignees were told of due tasks, by anyone.\<close>

definition reminder_notices :: "app \<Rightarrow> (uuid \<times> notification_type \<times> uuid option) list" where
  "reminder_notices s = filter (\<lambda>k. fst (snd k) \<in> {TASK_DUE_SOON, TASK_OVERDUE}) (map n_key (notifications s))"

text \<open>
  One statement of one scan, or what other requests do in between: anything but to the reminders and to the
  notifications of due tasks, which nothing else makes.
\<close>

inductive scans_step :: "app \<times> scan list \<Rightarrow> app \<times> scan list \<Rightarrow> bool" where
  statement: "scan_statement p s = (p', s') \<Longrightarrow> scans_step (s, ps @ p # qs) (s', ps @ p' # qs)"
| others: "app_ok s' \<Longrightarrow> reminders s' = reminders s \<Longrightarrow> reminder_notices s' = reminder_notices s \<Longrightarrow>
    scans_step (s, ps) (s', ps)"

definition item_rid :: "dispatch_item \<Rightarrow> uuid" where
  "item_rid x = fst (snd (snd x))"

lemma item_notice_is_reminder: "filter (\<lambda>k. fst (snd k) \<in> {TASK_DUE_SOON, TASK_OVERDUE}) (item_notice x) = item_notice x"
  by (cases x) (simp add: item_notice_def)

lemma dispatch_notify_effect:
  assumes "app_ok s" and "dispatch_notify x pg s = (r, s')"
  shows "app_ok s' \<and> reminders s' = reminders s \<and>
    (case r of Inl e \<Rightarrow> s' = s | Inr _ \<Rightarrow> reminder_notices s' = reminder_notices s @ item_notice x)"
proof -
  obtain t ty rid nid where x: "x = (t, ty, rid, nid)" by (cases x)
  show ?thesis
  proof (cases "truthy (t_assigneeId t)")
    case False
    with assms show ?thesis by (auto simp: x dispatch_notify_def ret_def item_notice_def)
  next
    case True
    let ?m = "RemindersService_notifyAssignee (t_id t) (the (t_assigneeId t)) ty nid pg"
    obtain r1 where run: "?m s = (r1, s')" and r: "r = map_sum id (\<lambda>_. ()) r1"
      using assms(2) True by (auto simp: x dispatch_notify_def bindM_def ret_def split: prod.splits sum.splits)
    have ok: "app_ok s'" using keepsD [OF RemindersService_notifyAssignee_keeps assms(1) run] .
    from NotificationsService_create_cases [OF run [unfolded RemindersService_notifyAssignee_def]] True ok r
    show ?thesis
      by (cases r1) (auto simp: x item_notice_def reminder_notices_def n_key_def notify_def)
  qed
qed

lemma statement_eqs:
  "scan_over p \<Longrightarrow> scan_statement p s = (p, s)"
  "\<not> sc_stopped p \<Longrightarrow> sc_todo p = x # xs \<Longrightarrow> sc_stage p = Create \<Longrightarrow> scan_statement p s =
     (case dispatch_create x (sc_now p) s of
        (Inl e, s') \<Rightarrow> (p\<lparr>sc_stopped := True\<rparr>, s')
      | (Inr i, s') \<Rightarrow> if \<not> truthy i then (p\<lparr>sc_todo := xs\<rparr>, s') else (p\<lparr>sc_stage := Notify\<rparr>, s'))"
  "\<not> sc_stopped p \<Longrightarrow> sc_todo p = x # xs \<Longrightarrow> sc_stage p = Notify \<Longrightarrow> scan_statement p s =
     (case dispatch_notify x (sc_now p) s of
        (Inl e, s') \<Rightarrow> (p\<lparr>sc_stopped := True\<rparr>, s') | (Inr _, s') \<Rightarrow> (p\<lparr>sc_stage := Mark\<rparr>, s'))"
  "\<not> sc_stopped p \<Longrightarrow> sc_todo p = x # xs \<Longrightarrow> sc_stage p = Mark \<Longrightarrow> scan_statement p s =
     (p\<lparr>sc_todo := xs, sc_stage := Create\<rparr>, snd (dispatch_mark x (sc_date p) s))"
  by (auto simp: scan_statement_def scan_over_def)

text \<open>The items a scan has not begun.\<close>

definition ahead :: "scan \<Rightarrow> dispatch_item list" where
  "ahead p = (if sc_stage p = Create then sc_todo p else tl (sc_todo p))"

text \<open>What one statement does.\<close>

lemma statement_cases:
  assumes ok: "app_ok s" and run: "scan_statement p s = (p', s')"
    and new: "item_rid ` set (ahead p) \<inter> insert [] (r_id ` set (reminders s)) = {}"
  obtains (idle) "s' = s" "sc_todo p' = sc_todo p" "sc_stage p' = sc_stage p"
  | (known) x xs where "sc_todo p = x # xs" "sc_stage p = Create" "sc_todo p' = xs" "sc_stage p' = Create" "s' = s"
      "reminded s (item_key x)"
  | (made_row) x xs r where "sc_todo p = x # xs" "sc_stage p = Create" "sc_todo p' = x # xs" "sc_stage p' = Notify"
      "s' = s\<lparr>reminders := reminders s @ [r]\<rparr>" "r_id r = item_rid x" "reminder_key r = item_key x"
  | (notified) x xs where "sc_todo p = x # xs" "sc_stage p = Notify" "sc_todo p' = x # xs" "sc_stage p' = Mark"
      "reminders s' = reminders s" "reminder_notices s' = reminder_notices s @ item_notice x"
  | (marked) x xs d where "sc_todo p = x # xs" "sc_stage p = Mark" "sc_todo p' = xs" "sc_stage p' = Create"
      "s' = s\<lparr>reminders := update_where (\<lambda>r. r_id r = item_rid x) (\<lambda>r. r\<lparr>r_status := REM_SENT, r_sentAt := Some d\<rparr>) (reminders s)\<rparr>"
proof (cases "scan_over p")
  case True
  with run show ?thesis by (intro idle) (simp_all add: statement_eqs(1))
next
  case False
  then obtain x xs where todo: "sc_todo p = x # xs" and on: "\<not> sc_stopped p" by (cases "sc_todo p") (auto simp: scan_over_def)
  obtain t ty rid nid where x: "x = (t, ty, rid, nid)" by (cases x)
  show ?thesis
  proof (cases "sc_stage p")
    case stage: Create
    have rid: "rid \<noteq> []" "\<not> has_id r_id (reminders s) rid" using new stage todo by (auto simp: x item_rid_def has_id_def ahead_def)
    show ?thesis
    proof (cases "reminded s (item_key x)")
      case True
      then have "dispatch_create x (sc_now p) s = (Inr None, s)"
        by (simp add: dispatch_create_def x item_key_def reminded_exists RemindersService_createReminder_def
            insert_reminder_or_ignore_def)
      with run True show ?thesis
        by (intro known [OF todo stage]) (auto simp: statement_eqs(2) [OF on todo stage] stage)
    next
      case fresh: False
      obtain i s1 where c: "dispatch_create x (sc_now p) s = (i, s1)" by fastforce
      show ?thesis
      proof (cases i)
        case (Inl e)
        then have "s1 = s"
          using c by (auto simp: dispatch_create_def x RemindersService_createReminder_def split: sum.splits prod.splits)
        with run c Inl show ?thesis by (intro idle) (auto simp: statement_eqs(2) [OF on todo stage])
      next
        case (Inr j)
        from createReminder_new [OF fresh [unfolded x item_key_def prod.case] rid(2) c [unfolded Inr x dispatch_create_def prod.case]]
        show ?thesis
          using run c Inr todo rid(1)
          by (intro made_row [OF todo stage])
            (auto simp: statement_eqs(2) [OF on todo stage] x item_rid_def item_key_def reminder_key_def)
      qed
    qed
  next
    case stage: Notify
    obtain u s1 where n: "dispatch_notify x (sc_now p) s = (u, s1)" by fastforce
    from dispatch_notify_effect [OF ok n] run n todo show ?thesis
      by (cases u) (auto simp: statement_eqs(3) [OF on todo stage] intro: idle notified [OF todo stage])
  next
    case Mark
    with run show ?thesis
      by (intro marked [OF todo Mark])
        (auto simp: statement_eqs(4) [OF on todo Mark] dispatch_mark_def x item_rid_def update_reminder_def modifies_def)
  qed
qed

lemma statement_keeps_ok:
  assumes ok: "app_ok s" and run: "scan_statement p s = (p', s')"
  shows "app_ok s'"
proof (cases "scan_over p")
  case True
  with ok run show ?thesis by (simp add: statement_eqs(1))
next
  case False
  then obtain x xs where todo: "sc_todo p = x # xs" and on: "\<not> sc_stopped p" by (cases "sc_todo p") (auto simp: scan_over_def)
  obtain t ty rid nid where x: "x = (t, ty, rid, nid)" by (cases x)
  show ?thesis
  proof (cases "sc_stage p")
    case Create
    have "app_ok (snd (dispatch_create x (sc_now p) s))"
      using keepsD [OF RemindersService_createReminder_keeps ok surjective_pairing] by (simp add: x dispatch_create_def)
    with run show ?thesis by (auto simp: statement_eqs(2) [OF on todo Create] split: prod.splits sum.splits if_splits)
  next
    case Notify
    obtain u s1 where n: "dispatch_notify x (sc_now p) s = (u, s1)" by fastforce
    from dispatch_notify_effect [OF ok n] run n show ?thesis
      by (cases u) (auto simp: statement_eqs(3) [OF on todo Notify])
  next
    case Mark
    have "app_ok (snd (dispatch_mark x (sc_date p) s))"
      using keepsD [OF sent_keeps(1) ok surjective_pairing] by (simp add: x dispatch_mark_def)
    with run show ?thesis by (auto simp: statement_eqs(4) [OF on todo Mark])
  qed
qed

section \<open>The invariant\<close>

text \<open>The item whose reminder a scan has made and not yet marked, and the notice it still owes.\<close>

definition claimed :: "scan \<Rightarrow> dispatch_item list" where
  "claimed p = (if sc_stage p = Create then [] else take 1 (sc_todo p))"

definition owed :: "scan \<Rightarrow> (uuid \<times> notification_type \<times> uuid option) list" where
  "owed p = (if sc_stage p = Notify then concat (map item_notice (take 1 (sc_todo p))) else [])"

abbreviation of_all :: "(scan \<Rightarrow> 'a list) \<Rightarrow> scan list \<Rightarrow> 'a list" where
  "of_all g ps \<equiv> concat (map g ps)"

definition row_key :: "reminder \<Rightarrow> uuid \<times> uuid \<times> reminder_type \<times> js_date" where
  "row_key r = (r_id r, reminder_key r)"

text \<open>The scans have made the reminders of the items \<open>Cs\<close>.\<close>

definition rows_made :: "app \<Rightarrow> dispatch_item list \<Rightarrow> app \<Rightarrow> bool" where
  "rows_made s0 Cs s \<longleftrightarrow>
     map row_key (reminders s) = map row_key (reminders s0) @ map (\<lambda>x. (item_rid x, item_key x)) Cs"

definition notices_made :: "app \<Rightarrow> dispatch_item list \<Rightarrow> app \<times> scan list \<Rightarrow> bool" where
  "notices_made s0 Cs = (\<lambda>(s, ps).
     mset (reminder_notices s) + mset (of_all owed ps) =
       mset (reminder_notices s0) + mset (concat (map item_notice Cs)))"

definition marks_made :: "dispatch_item list \<Rightarrow> app \<times> scan list \<Rightarrow> bool" where
  "marks_made Cs = (\<lambda>(s, ps). \<forall>x \<in> set Cs. x \<in> set (of_all claimed ps) \<or>
     (\<forall>r \<in> set (reminders s). r_id r = item_rid x \<longrightarrow> r_status r = REM_SENT))"

definition items_kept :: "dispatch_item list \<Rightarrow> app \<times> scan list \<Rightarrow> bool" where
  "items_kept T = (\<lambda>(s, ps). set (of_all sc_todo ps) \<subseteq> set T \<and>
     (\<forall>x \<in> set T. x \<in> set (of_all sc_todo ps) \<or> reminded s (item_key x)) \<and>
     (\<forall>x \<in> set (of_all claimed ps). reminded s (item_key x)))"

definition ids_new :: "app \<times> scan list \<Rightarrow> bool" where
  "ids_new = (\<lambda>(s, ps). distinct (map item_rid (of_all sc_todo ps)) \<and> [] \<notin> item_rid ` set (of_all sc_todo ps) \<and>
     item_rid ` set (of_all ahead ps) \<inter> r_id ` set (reminders s) = {})"

definition scans_inv :: "app \<Rightarrow> dispatch_item list \<Rightarrow> app \<times> scan list \<Rightarrow> bool" where
  "scans_inv s0 T S \<longleftrightarrow> app_ok (fst S) \<and> items_kept T S \<and> ids_new S \<and>
     (\<exists>Cs. set Cs \<subseteq> set T \<and> rows_made s0 Cs (fst S) \<and> notices_made s0 Cs S \<and> marks_made Cs S)"

lemma rows_made_ids:
  assumes "rows_made s0 Cs s"
  shows "map r_id (reminders s) = map r_id (reminders s0) @ map item_rid Cs"
    and "map reminder_key (reminders s) = map reminder_key (reminders s0) @ map item_key Cs"
  using arg_cong [OF assms [unfolded rows_made_def], of "map fst"] arg_cong [OF assms [unfolded rows_made_def], of "map snd"]
  by (simp_all add: row_key_def comp_def)

lemma scans_invI:
  assumes "app_ok s" and "items_kept T (s, ps)" and "ids_new (s, ps)" and "set Cs \<subseteq> set T" and "rows_made s0 Cs s"
    and "notices_made s0 Cs (s, ps)" and "marks_made Cs (s, ps)"
  shows "scans_inv s0 T (s, ps)"
  using assms unfolding scans_inv_def by auto

lemma scan_parts:
  "sc_stage p = Create \<Longrightarrow> claimed p = []" "sc_stage p = Create \<Longrightarrow> owed p = []"
  "sc_stage p = Create \<Longrightarrow> ahead p = sc_todo p"
  "sc_todo p = x # xs \<Longrightarrow> sc_stage p \<noteq> Create \<Longrightarrow> claimed p = [x]"
  "sc_todo p = x # xs \<Longrightarrow> sc_stage p = Notify \<Longrightarrow> owed p = item_notice x"
  "sc_stage p = Mark \<Longrightarrow> owed p = []"
  "sc_todo p = x # xs \<Longrightarrow> sc_stage p \<noteq> Create \<Longrightarrow> ahead p = xs"
  by (simp_all add: claimed_def owed_def ahead_def)

lemma scans_invE:
  assumes "scans_inv s0 T (s, ps)"
  obtains Cs where "app_ok s" and "items_kept T (s, ps)" and "ids_new (s, ps)" and "set Cs \<subseteq> set T" and "rows_made s0 Cs s"
    and "notices_made s0 Cs (s, ps)" and "marks_made Cs (s, ps)"
  using assms unfolding scans_inv_def by auto

lemma ahead_sub: "set (ahead p) \<subseteq> set (sc_todo p)"
  by (cases "sc_todo p") (auto simp: ahead_def)

lemma made_row_inv:
  assumes inv: "scans_inv s0 T (s, ps @ p # qs)" and ok': "app_ok s'"
    and todo: "sc_todo p = x # xs" "sc_stage p = Create" "sc_todo p' = x # xs" "sc_stage p' = Notify"
    and s': "s' = s\<lparr>reminders := reminders s @ [r]\<rparr>" and r: "r_id r = item_rid x" "reminder_key r = item_key x"
  shows "scans_inv s0 T (s', ps @ p' # qs)"
proof -
  from inv obtain Cs where kept: "items_kept T (s, ps @ p # qs)" and ids: "ids_new (s, ps @ p # qs)" and Cs: "set Cs \<subseteq> set T"
    and rows: "rows_made s0 Cs s" and notices: "notices_made s0 Cs (s, ps @ p # qs)" and marks: "marks_made Cs (s, ps @ p # qs)"
    by (rule scans_invE)
  have parts: "claimed p = []" "owed p = []" "ahead p = x # xs" "claimed p' = [x]" "owed p' = item_notice x" "ahead p' = xs"
    using todo by (simp_all add: scan_parts)
  have new: "item_rid x \<notin> r_id ` set (reminders s)" using ids parts(3) by (simp add: ids_new_def)
  have inCs: "item_rid y \<in> r_id ` set (reminders s)" if "y \<in> set Cs" for y
    using arg_cong [OF rows_made_ids(1) [OF rows], of set] that by auto
  have seen: "reminded s' k \<longleftrightarrow> reminded s k \<or> k = item_key x" for k using s' r by (auto simp: reminded_def)
  have "notices_made s0 (Cs @ [x]) (s', ps @ p' # qs)"
    using s' notices parts by (simp add: notices_made_def reminder_notices_def)
  moreover have "marks_made (Cs @ [x]) (s', ps @ p' # qs)"
    using marks s' r parts new inCs by (auto simp: marks_made_def)
  moreover have "rows_made s0 (Cs @ [x]) s'" using rows s' r by (simp add: rows_made_def row_key_def)
  moreover have "items_kept T (s', ps @ p' # qs)" using kept todo parts by (auto simp: items_kept_def seen)
  moreover have "item_rid x \<notin> item_rid ` set (of_all ahead (ps @ p' # qs))"
  proof -
    have "distinct (map item_rid (of_all sc_todo ps @ (x # xs) @ of_all sc_todo qs))"
      using ids todo(1) by (simp add: ids_new_def)
    then have "item_rid x \<notin> item_rid ` (set (of_all sc_todo ps) \<union> set xs \<union> set (of_all sc_todo qs))" by auto
    then show ?thesis using ahead_sub parts(6) by fastforce
  qed
  then have "ids_new (s', ps @ p' # qs)"
    using ids todo s' r parts(3,6) by (simp add: ids_new_def Int_Un_distrib2 image_Un)
  moreover have "x \<in> set T" using kept todo by (auto simp: items_kept_def)
  ultimately show ?thesis using ok' Cs by (intro scans_invI [of _ _ _ "Cs @ [x]"]) simp_all
qed

lemma marked_inv:
  assumes inv: "scans_inv s0 T (s, ps @ p # qs)" and ok': "app_ok s'"
    and todo: "sc_todo p = x # xs" "sc_stage p = Mark" "sc_todo p' = xs" "sc_stage p' = Create"
    and s': "s' = s\<lparr>reminders := update_where (\<lambda>r. r_id r = item_rid x) (\<lambda>r. r\<lparr>r_status := REM_SENT, r_sentAt := Some d\<rparr>) (reminders s)\<rparr>"
  shows "scans_inv s0 T (s', ps @ p' # qs)"
proof -
  from inv obtain Cs where kept: "items_kept T (s, ps @ p # qs)" and ids: "ids_new (s, ps @ p # qs)" and Cs: "set Cs \<subseteq> set T"
    and rows: "rows_made s0 Cs s" and notices: "notices_made s0 Cs (s, ps @ p # qs)" and marks: "marks_made Cs (s, ps @ p # qs)"
    by (rule scans_invE)
  have same: "map r_id (reminders s') = map r_id (reminders s)" "map row_key (reminders s') = map row_key (reminders s)"
    "reminded s' k \<longleftrightarrow> reminded s k" for k
    using s' by (simp_all add: row_key_def reminded_def reminder_key_def)
  have parts: "claimed p = [x]" "claimed p' = []" "owed p = []" "owed p' = []" "ahead p = xs" "ahead p' = xs"
    using todo by (simp_all add: scan_parts)
  have "items_kept T (s', ps @ p' # qs)" using kept todo parts by (auto simp: items_kept_def same)
  moreover have "r_id ` set (reminders s') = r_id ` set (reminders s)" using same(1) by (metis list.set_map)
  then have "ids_new (s', ps @ p' # qs)" using ids todo parts by (auto simp: ids_new_def)
  moreover have "notices_made s0 Cs (s', ps @ p' # qs)" using notices parts s' by (simp add: notices_made_def reminder_notices_def)
  moreover have "marks_made Cs (s', ps @ p' # qs)" using marks s' parts by (auto simp: marks_made_def set_update_where)
  moreover have "rows_made s0 Cs s'" using rows by (simp add: rows_made_def same)
  ultimately show ?thesis using ok' Cs by (intro scans_invI [of _ _ _ Cs])
qed

lemma statement_keeps_inv:
  assumes inv: "scans_inv s0 T (s, ps @ p # qs)" and run: "scan_statement p s = (p', s')"
  shows "scans_inv s0 T (s', ps @ p' # qs)"
proof -
  from inv obtain Cs where ok: "app_ok s" and kept: "items_kept T (s, ps @ p # qs)" and ids: "ids_new (s, ps @ p # qs)"
    and Cs: "set Cs \<subseteq> set T" and rows: "rows_made s0 Cs s" and notices: "notices_made s0 Cs (s, ps @ p # qs)"
    and marks: "marks_made Cs (s, ps @ p # qs)"
    by (rule scans_invE)
  have ok': "app_ok s'" by (rule statement_keeps_ok [OF ok run])
  from ids ahead_sub [of p] have new: "item_rid ` set (ahead p) \<inter> insert [] (r_id ` set (reminders s)) = {}"
    by (auto simp: ids_new_def)
  from ok run new show ?thesis
  proof (cases rule: statement_cases)
    case idle
    then have "claimed p' = claimed p" "owed p' = owed p" "ahead p' = ahead p"
      by (simp_all add: claimed_def owed_def ahead_def)
    with idle ok' kept ids Cs rows notices marks show ?thesis
      by (intro scans_invI [of _ _ _ Cs]) (simp_all add: items_kept_def ids_new_def notices_made_def marks_made_def)
  next
    case (known x xs)
    with ok' kept ids Cs rows notices marks show ?thesis
      by (intro scans_invI [of _ _ _ Cs])
        (auto simp: items_kept_def ids_new_def notices_made_def marks_made_def scan_parts)
  next
    case (made_row x xs r)
    then show ?thesis by (rule made_row_inv [OF inv ok'])
  next
    case (notified x xs)
    have parts: "claimed p' = claimed p" "owed p = item_notice x" "owed p' = []" "ahead p' = ahead p"
      using notified(1-4) by (simp_all add: scan_parts)
    have "notices_made s0 Cs (s', ps @ p' # qs)"
      using notices parts notified(6) by (simp add: notices_made_def ac_simps)
    with notified(1-5) parts(1,4) ok' kept ids Cs rows marks show ?thesis
      by (intro scans_invI [of _ _ _ Cs])
        (simp_all add: items_kept_def ids_new_def marks_made_def rows_made_def reminded_def)
  next
    case (marked x xs d)
    then show ?thesis by (rule marked_inv [OF inv ok'])
  qed
qed

lemma step_keeps_inv: "scans_step S S' \<Longrightarrow> scans_inv s0 T S \<Longrightarrow> scans_inv s0 T S'"
proof (induction rule: scans_step.induct)
  case (statement p s p' s' ps qs)
  show ?case by (rule statement_keeps_inv [OF statement.prems statement.hyps])
next
  case (others s' s ps)
  then show ?case
    by (auto simp: scans_inv_def items_kept_def ids_new_def notices_made_def rows_made_def marks_made_def reminded_def)
qed

lemma steps_keep_inv: "scans_step\<^sup>*\<^sup>* S S' \<Longrightarrow> scans_inv s0 T S \<Longrightarrow> scans_inv s0 T S'"
  by (induction rule: rtranclp_induct) (auto intro: step_keeps_inv)

lemma parts_none:
  "list_all (\<lambda>p. sc_todo p = []) ps \<Longrightarrow> of_all sc_todo ps = [] \<and> of_all claimed ps = [] \<and> of_all owed ps = []"
  by (auto simp: list_all_iff claimed_def owed_def)

lemma fresh_start:
  assumes "app_ok s" and "list_all (\<lambda>p. sc_stage p = Create) ps" and "distinct (map item_rid (of_all sc_todo ps))"
    and "item_rid ` set (of_all sc_todo ps) \<inter> insert [] (r_id ` set (reminders s)) = {}"
  shows "scans_inv s (of_all sc_todo ps) (s, ps)"
proof -
  have parts: "of_all claimed ps = []" "of_all owed ps = []" "of_all ahead ps = of_all sc_todo ps"
    using assms(2) by (induction ps) (auto simp: scan_parts)
  from assms show ?thesis
    by (intro scans_invI [of _ _ _ "[]"])
      (simp_all add: items_kept_def ids_new_def rows_made_def notices_made_def marks_made_def parts del: set_concat set_map concat_eq_Nil_conv)
qed

text \<open>A scan takes at most three statements for each task.\<close>

definition statements_left :: "scan \<Rightarrow> nat" where
  "statements_left p = (if scan_over p then 0
     else 3 * length (sc_todo p) - (case sc_stage p of Create \<Rightarrow> 0 | Notify \<Rightarrow> 1 | Mark \<Rightarrow> 2))"

lemma statement_gets_on:
  assumes "\<not> scan_over p"
  shows "statements_left (fst (scan_statement p s)) < statements_left p"
proof -
  from assms obtain x xs where todo: "sc_todo p = x # xs" and on: "\<not> sc_stopped p"
    by (cases "sc_todo p") (auto simp: scan_over_def)
  then show ?thesis
    by (cases "sc_stage p")
      (auto simp: statement_eqs(2-4) [OF on todo] statements_left_def scan_over_def split: prod.split sum.split)
qed

section \<open>Properties\<close>

text \<open>
  C18.  Scans may overlap, as many as there are workers and whatever they have read: however the database orders their
  statements and those of other requests, the reminders they make are for tasks, types and due dates that had none
  before and that differ from each other, and each of them tells its assignee at most once.  When all of them have
  come to their end without an exception, every task they had read has its reminder, every reminder they made is
  \<open>SENT\<close> and its assignee was told exactly once.
\<close>

theorem concurrent_scans:
  assumes ok: "app_ok s0" and start: "list_all (\<lambda>p. sc_stage p = Create) ps0"
    and ids: "distinct (map item_rid (of_all sc_todo ps0))"
      "item_rid ` set (of_all sc_todo ps0) \<inter> insert [] (r_id ` set (reminders s0)) = {}"
    and steps: "scans_step\<^sup>*\<^sup>* (s0, ps0) (s, ps)"
  shows "\<exists>Cs. set Cs \<subseteq> set (of_all sc_todo ps0) \<and>
    map r_id (reminders s) = map r_id (reminders s0) @ map item_rid Cs \<and>
    map reminder_key (reminders s) = map reminder_key (reminders s0) @ map item_key Cs \<and>
    distinct (map reminder_key (reminders s)) \<and>
    mset (reminder_notices s) \<subseteq># mset (reminder_notices s0) + mset (concat (map item_notice Cs)) \<and>
    (list_all (\<lambda>p. sc_todo p = []) ps \<longrightarrow>
      list_all (\<lambda>x. reminded s (item_key x)) (of_all sc_todo ps0) \<and>
      mset (reminder_notices s) = mset (reminder_notices s0) + mset (concat (map item_notice Cs)) \<and>
      list_all (\<lambda>r. r_id r \<in> item_rid ` set Cs \<longrightarrow> r_status r = REM_SENT) (reminders s))"
proof -
  have "scans_inv s0 (of_all sc_todo ps0) (s, ps)"
    by (rule steps_keep_inv [OF steps fresh_start [OF ok start ids]])
  then obtain Cs where ok': "app_ok s" and Cs: "set Cs \<subseteq> set (of_all sc_todo ps0)" and rows: "rows_made s0 Cs s"
    and kept: "items_kept (of_all sc_todo ps0) (s, ps)" and notices: "notices_made s0 Cs (s, ps)"
    and marks: "marks_made Cs (s, ps)"
    unfolding scans_inv_def by auto
  have "mset (reminder_notices s) \<subseteq># mset (reminder_notices s0) + mset (concat (map item_notice Cs))"
    using notices by (metis (mono_tags, lifting) mset_subset_eq_add_left notices_made_def prod.case)
  moreover have "list_all (\<lambda>x. reminded s (item_key x)) (of_all sc_todo ps0) \<and>
      mset (reminder_notices s) = mset (reminder_notices s0) + mset (concat (map item_notice Cs)) \<and>
      list_all (\<lambda>r. r_id r \<in> item_rid ` set Cs \<longrightarrow> r_status r = REM_SENT) (reminders s)"
    if over: "list_all (\<lambda>p. sc_todo p = []) ps"
  proof (intro conjI)
    have none: "of_all sc_todo ps = []" "of_all claimed ps = []" "of_all owed ps = []"
      using parts_none [OF over] by blast+
    show "list_all (\<lambda>x. reminded s (item_key x)) (of_all sc_todo ps0)"
      using kept unfolding items_kept_def prod.case none list_all_iff by simp
    show "mset (reminder_notices s) = mset (reminder_notices s0) + mset (concat (map item_notice Cs))"
      using notices unfolding notices_made_def prod.case none by simp
    show "list_all (\<lambda>r. r_id r \<in> item_rid ` set Cs \<longrightarrow> r_status r = REM_SENT) (reminders s)"
    proof -
      have "\<forall>x \<in> set Cs. \<forall>r \<in> set (reminders s). r_id r = item_rid x \<longrightarrow> r_status r = REM_SENT"
        using marks unfolding marks_made_def prod.case none by simp
      then show ?thesis unfolding list_all_iff by blast
    qed
  qed
  moreover have "distinct (map reminder_key (reminders s))" using ok' by (simp add: app_ok_def reminders_ok_def)
  ultimately show ?thesis using Cs rows_made_ids [OF rows] by blast
qed

text \<open>Two scans that have read the same task, their statements interleaved.\<close>

definition ex_due_task :: task where
  "ex_due_task = (ex_task ''t3'' None (Some ''u2''))\<lparr>t_dueDate := Some 10\<rparr>"

definition ex_scans :: "scan list" where
  "ex_scans = [start_scan 5 5 [(ex_due_task, DUE_SOON, ''r1'', ''n2'')], start_scan 5 5 [(ex_due_task, DUE_SOON, ''r2'', ''n3'')]]"

fun run_turns :: "nat list \<Rightarrow> app \<times> scan list \<Rightarrow> app \<times> scan list" where
  "run_turns [] S = S"
| "run_turns (i # is) (s, ps) = (case scan_statement (ps ! i) s of (p', s') \<Rightarrow> run_turns is (s', ps[i := p']))"

lemma run_turns_steps:
  "list_all (\<lambda>i. i < length (snd S)) is \<Longrightarrow> scans_step\<^sup>*\<^sup>* S (run_turns is S)"
proof (induction "is" S rule: run_turns.induct)
  case (2 i "is" s ps)
  obtain p' s' where st: "scan_statement (ps ! i) s = (p', s')" by fastforce
  have i: "i < length ps" using 2 by simp
  have "scans_step (s, take i ps @ ps ! i # drop (Suc i) ps) (s', take i ps @ p' # drop (Suc i) ps)"
    by (rule scans_step.statement [OF st])
  then have "scans_step (s, ps) (s', ps[i := p'])" using i by (simp add: id_take_nth_drop [symmetric] upd_conv_take_nth_drop)
  moreover have "scans_step\<^sup>*\<^sup>* (s', ps[i := p']) (run_turns is (s', ps[i := p']))"
    using 2 by (intro 2(1) [OF st [symmetric]]) simp
  ultimately show ?case by (simp add: st converse_rtranclp_into_rtranclp)
qed simp

lemma ex_scans_end:
  "list_all (\<lambda>p. sc_todo p = []) (snd (run_turns [0, 1, 0, 0] (ex_due, ex_scans)))"
  by code_simp

theorem concurrent_scans_witness:
  "\<exists>s ps Cs. run_turns [0, 1, 0, 0] (ex_due, ex_scans) = (s, ps) \<and> set Cs \<subseteq> set (of_all sc_todo ex_scans) \<and>
    map reminder_key (reminders s) = map item_key Cs \<and> distinct (map item_key Cs) \<and>
    reminded s (''t3'', DUE_SOON, 10) \<and>
    mset (reminder_notices s) = mset (concat (map item_notice Cs))"
proof -
  obtain s ps where run: "run_turns [0, 1, 0, 0] (ex_due, ex_scans) = (s, ps)" by fastforce
  have "scans_step\<^sup>*\<^sup>* (ex_due, ex_scans) (s, ps)"
    using run_turns_steps [of "(ex_due, ex_scans)" "[0, 1, 0, 0]"] unfolding run by (simp add: ex_scans_def)
  note main = concurrent_scans [OF ex_due_ok _ _ _ this]
  have over: "list_all (\<lambda>p. sc_todo p = []) ps" using ex_scans_end by (simp only: run snd_conv)
  have "\<exists>Cs. set Cs \<subseteq> set (of_all sc_todo ex_scans) \<and>
      map r_id (reminders s) = map r_id (reminders ex_due) @ map item_rid Cs \<and>
      map reminder_key (reminders s) = map reminder_key (reminders ex_due) @ map item_key Cs \<and>
      distinct (map reminder_key (reminders s)) \<and>
      mset (reminder_notices s) \<subseteq># mset (reminder_notices ex_due) + mset (concat (map item_notice Cs)) \<and>
      (list_all (\<lambda>p. sc_todo p = []) ps \<longrightarrow>
        list_all (\<lambda>x. reminded s (item_key x)) (of_all sc_todo ex_scans) \<and>
        mset (reminder_notices s) = mset (reminder_notices ex_due) + mset (concat (map item_notice Cs)) \<and>
        list_all (\<lambda>r. r_id r \<in> item_rid ` set Cs \<longrightarrow> r_status r = REM_SENT) (reminders s))"
    by (rule main) (simp_all add: ex_scans_def start_scan_def item_rid_def ex_due_def)
  with over obtain Cs where
    "set Cs \<subseteq> set (of_all sc_todo ex_scans)" "map reminder_key (reminders s) = map reminder_key (reminders ex_due) @ map item_key Cs"
    "distinct (map reminder_key (reminders s))"
    "list_all (\<lambda>x. reminded s (item_key x)) (of_all sc_todo ex_scans)"
    "mset (reminder_notices s) = mset (reminder_notices ex_due) + mset (concat (map item_notice Cs))"
    by blast
  moreover have "reminders ex_due = []" "reminder_notices ex_due = []"
    by (simp_all add: ex_due_def reminder_notices_def ex_notification_def n_key_def)
  moreover have "item_key (ex_due_task, DUE_SOON, ''r1'', ''n2'') = (''t3'', DUE_SOON, 10)"
    by (simp add: item_key_def ex_due_task_def ex_task_def)
  ultimately show ?thesis using run by (intro exI [of _ s] exI [of _ ps] exI [of _ Cs]) (auto simp: ex_scans_def start_scan_def)
qed

end
