(* ===== verification/Spec2Isabelle.thy ===== *)
theory Spec2Isabelle
  imports Prelude JsText Cursor Pagination Forest Entities Database Example Projects Tasks Comments Workspaces Auth
    Invitations Notifications Activity Reminders Realtime Errors Api Routes Access Tenancy Views Requests Schema Bootstrap Wiring System Races Revocations Edits Worker Scans
begin

text \<open>
  A verification library of the Task and Scheduling Platform, a NestJS server for workspaces with projects, nested
  tasks, comments, notifications and reminders (the TypeScript under \<open>src/\<close> of the repository).

  \<^bold>\<open>The program.\<close>  One code base runs as an API process and as a worker.  A request passes the JWT guard, the guards of
  its workspace, the pipes for ids and bodies and a controller, which calls a service; the services read and write a
  PostgreSQL database whose schema the migrations own, and emit domain events on an in-process bus.  Listeners turn
  the events into audit entries and notifications, at once or through a queue that the worker consumes.  A timer in
  the worker scans for tasks that are due and reminds their assignees.  A gateway pushes new notifications to the
  sockets of their recipients, across processes through Redis.

  \<^bold>\<open>The model.\<close>  A service call is a function from a state to a result and the next state (\<open>svc\<close> of \<open>Prelude\<close>): the
  exceptions of the program are the left summand, and a call that fails keeps what it wrote before, as the code does
  outside a transaction.  The state \<open>app\<close> of \<open>Entities\<close> is the tables as row lists, in the order of insertion, and
  the event bus.  Ids, tokens and times are arguments of the calls that make them.  Strings are over U+0000 to U+00FF,
  a \<open>Date\<close> is an integer of milliseconds, a timestamp of the database one of microseconds.  Definitions carry the
  names of the code, a method with its class before it: \<open>TasksService_moveTask\<close> is \<open>moveTask\<close> of \<open>TasksService\<close>.

  \<^bold>\<open>The theories and the code.\<close>
  \<^item> \<open>Prelude\<close>: service calls, errors, row lists, the collections \<open>svc_defs\<close>, \<open>keeps_intros\<close>.
  \<^item> \<open>JsText\<close>, \<open>Cursor\<close>, \<open>Pagination\<close>: \<open>src/common/utils\<close> and \<open>src/common/pagination\<close>: slugs, durations, the
    cursor down to base64url and UTF-8, \<open>buildPage\<close> and the keyset query of the lists.
  \<^item> \<open>Forest\<close>: rows with a parent pointer, the recursive queries over them and the cascade of a delete.
  \<^item> \<open>Entities\<close>, \<open>Database\<close>, \<open>Schema\<close>: the entity classes, the constraints and the invariant of the data
    (\<open>app_ok\<close>), and the migrations as statements over a catalogue.
  \<^item> \<open>Projects\<close>, \<open>Tasks\<close>, \<open>Comments\<close>, \<open>Workspaces\<close>, \<open>Invitations\<close>, \<open>Auth\<close>, \<open>Activity\<close>, \<open>Notifications\<close>,
    \<open>Reminders\<close>: the services, listeners and processors of the modules under \<open>src/modules\<close>; \<open>Worker\<close>: the attempts
    of a reminder job; \<open>Scans\<close>: scans that overlap, statement by statement.
  \<^item> \<open>Realtime\<close>, \<open>Bootstrap\<close>, \<open>Wiring\<close>: the gateway and the bridge of \<open>src/modules/realtime\<close>; the environment, the
    configuration, the connections, the providers of a process and a cluster of processes; every module with what its
    classes ask for, and the injector that constructs them.
  \<^item> \<open>Api\<close>, \<open>Routes\<close>, \<open>Errors\<close>, \<open>Access\<close>, \<open>Tenancy\<close>, \<open>Views\<close>, \<open>Requests\<close>: the controllers with their guards, their
    routes and the router, the exception filter, what the guards and the scoping of the queries are for (nobody changes
    or sees rows of another workspace), and the validation of bodies and queries.
  \<^item> \<open>System\<close>: everything as the steps of one system, each taken whole; \<open>Races\<close>, \<open>Revocations\<close>, \<open>Edits\<close>: handlers
    that check or load first and write later, taken apart and overlapped.
  \<^item> \<open>Example\<close>: a small database at which the properties are applied.

  \<^bold>\<open>Interfaces.\<close>  \<open>forest_store\<close> (tables whose parent pointers form a forest: tasks and comments), \<open>paged_feed\<close> (a list
  endpoint: tasks, projects, comments, activity, notifications), \<open>membership_cache\<close> (what \<open>WorkspacesService\<close> needs of
  the cache manager: the in-memory store the application registers) and \<open>message_handler\<close> (what the bus and the queues
  call: listeners and processors) are locales, interpreted on the model.

  \<^bold>\<open>What is shown.\<close>  Who can do what: \<open>Access\<close>, \<open>Tenancy\<close> and \<open>Workspaces\<close> (roles, tenants, immediate revocation, the
  owner), \<open>Routes\<close> (no URL misses its guards), \<open>Views\<close> (noninterference: what the requests of a workspace read is a
  function of its rows), \<open>Comments\<close> (authors), \<open>Auth\<close> (log-in, the state machine of a session, reuse of a token), \<open>Realtime\<close>
  (sockets).  What every operation keeps: \<open>app_ok\<close>, by \<open>keeps\<close> lemmas for each operation, up to every reachable state
  of the system and every request whatever it holds.  What an operation does on every branch: the outcome
  predicates of \<open>Tasks\<close>, \<open>Projects\<close>, \<open>Invitations\<close>, \<open>Workspaces\<close>.  That \<open>getSubtree\<close>, which builds its answer
  with objects that are mutated, equals the tree of the data; that the two delivery paths of notifications agree;
  that the inbox is a set of unread ids; that scans may overlap in any way and remind once.  That every deployment
  starts.  That the migrations revert, and build what the entities declare.  And the
  places where the code falls short of its intent, proved as such: rows of one millisecond between pages, jobs
  dropped for their id, a reminder without a job, handlers that overlap, doubled pushes, a switched-off filter.

  \<^bold>\<open>Bounds and fuel.\<close>  A recursive query runs level by level with \<open>cte_fuel\<close>, the number of rows plus two, and is None
  when levels are left: on a forest a level beyond the number of rows is empty, and \<open>recursive_queries_end\<close> shows
  that no more fuel gives another answer; on a cycle no fuel is enough, which the model answers with the statement
  timeout of the connection.  The answer of \<open>getSubtree\<close> is read off the object store with one more than the
  greatest depth of its rows as fuel.  Following cursors (\<open>walk\<close>) takes one request more than there are rows.  A job has the
  five attempts the code gives it.

  \<^bold>\<open>Parameters.\<close>  Code outside \<open>src/\<close> is an argument: the casts of the database (\<open>casts\<close>), the cache store
  (\<open>cache_ops\<close>), the queue (\<open>queue_ops\<close>, which drops a job whose id it knows), JSON (\<open>json_ops\<close>), argon2, SHA-256 and
  the signer (\<open>auth_env\<close>), the names of HTTP statuses (\<open>nest\<close>), Joi (\<open>joi\<close>), the checks of \<open>class-validator\<close> and the
  conversions of \<open>class-transformer\<close> (\<open>class_validator\<close>, \<open>implicit_boolean\<close>), what library modules export
  (\<open>libraries\<close>), \<open>URL\<close> and \<open>decodeURIComponent\<close>.  What
  a property uses of them is a named hypothesis, and its witness has an instance.

  \<^bold>\<open>Not modelled.\<close>  The options of the logger but for the correlation id and \<open>LoggingInterceptor\<close>, which no module
  registers; the rate limiter, the health checks and metrics, which are libraries (their routes and modules are); the
  decorators of the OpenAPI document and the response classes; static files and CORS; pool sizes and retries of
  connections; the timing of cron; the inside of Redis and BullMQ; the scripts for developers and the web client.
  The interleavings studied are those of scans with each other, \<open>moveTask\<close> with itself, \<open>rotate\<close> with itself, an
  update of a task with another and with its removal, a change of role with a removal and \<open>accept\<close> with \<open>revoke\<close>;
  elsewhere a handler runs whole.
\<close>


end
